(* ===== verification/Go_Prelude.thy ===== *)
theory Go_Prelude
  imports Main "HOL-Library.Char_ord" "HOL-Library.List_Lexorder" "HOL-Library.Sublist"
    "HOL-Library.AList" "HOL-Library.Word"
begin

text \<open>
  Shared ground of the development: the outcome of a fallible Go function (a value, an error,
  or a panic), the loops that stop at the first error, and the functions of the packages
  \<open>strings\<close>, \<open>strconv\<close> and \<open>regexp\<close> that the inspector calls.

  A Go string is a sequence of bytes, and so is an Isabelle \<^typ>\<open>string\<close>: a \<^typ>\<open>char\<close> is
  one byte. Case mapping and case folding of non-ASCII text depend on the Unicode tables of the
  Go release, and the digests and the rounding of a fractional duration on packages the
  inspector only calls; they are the fields of the record \<open>go_lib\<close>, an argument of every
  definition that uses them. ASCII text is mapped here, as the fast paths of Go do.
\<close>

named_theorems go_str \<open>facts on the string functions\<close>
named_theorems outcome_simps \<open>facts on outcomes and loops over them\<close>

section \<open>Outcomes\<close>

text \<open>\<open>Ok\<close> is a normal return, \<open>Err\<close> a returned error, \<open>Panic\<close> a run-time panic (a nil
  dereference or an index out of range).\<close>

datatype ('e, 'a) outcome = Ok 'a | Err 'e | Panic

definition obind :: "('e, 'a) outcome \<Rightarrow> ('a \<Rightarrow> ('e, 'b) outcome) \<Rightarrow> ('e, 'b) outcome" where
  "obind r f = (case r of Ok x \<Rightarrow> f x | Err e \<Rightarrow> Err e | Panic \<Rightarrow> Panic)"

definition map_err :: "('e \<Rightarrow> 'f) \<Rightarrow> ('e, 'a) outcome \<Rightarrow> ('f, 'a) outcome" where
  "map_err f r = (case r of Ok x \<Rightarrow> Ok x | Err e \<Rightarrow> Err (f e) | Panic \<Rightarrow> Panic)"

text \<open>A \<open>for i, x := range xs\<close> loop that appends one result per element and returns at the
  first error; the index counts from \<open>i\<close>.\<close>

fun for_each :: "(nat \<Rightarrow> 'a \<Rightarrow> ('e, 'b) outcome) \<Rightarrow> nat \<Rightarrow> 'a list \<Rightarrow> ('e, 'b list) outcome" where
  "for_each f i [] = Ok []"
| "for_each f i (x # xs) =
     obind (f i x) (\<lambda>y. obind (for_each f (Suc i) xs) (\<lambda>ys. Ok (y # ys)))"

lemma obind_simps [simp]:
  "obind (Ok x) f = f x" "obind (Err e) f = Err e" "obind Panic f = Panic"
  by (simp_all add: obind_def)

lemma map_err_simps [simp]:
  "map_err g (Ok x) = Ok x" "map_err g (Err e) = Err (g e)" "map_err g Panic = Panic"
  by (simp_all add: map_err_def)

lemma obind_Ok [outcome_simps]:
  "obind r f = Ok y \<longleftrightarrow> (\<exists>x. r = Ok x \<and> f x = Ok y)"
  by (cases r) auto

lemma obind_Panic [outcome_simps]:
  "obind r f = Panic \<longleftrightarrow> r = Panic \<or> (\<exists>x. r = Ok x \<and> f x = Panic)"
  by (cases r) auto

lemma map_err_Ok [outcome_simps]: "map_err g r = Ok x \<longleftrightarrow> r = Ok x"
  by (cases r) auto

lemma map_err_Panic [outcome_simps]: "map_err g r = Panic \<longleftrightarrow> r = Panic"
  by (cases r) auto

lemma for_each_Ok:
  "for_each f i xs = Ok ys \<longleftrightarrow>
     length ys = length xs \<and> (\<forall>j < length xs. f (i + j) (xs ! j) = Ok (ys ! j))"
proof (induction xs arbitrary: i ys)
  case Nil
  then show ?case by auto
next
  case (Cons x xs)
  show ?case
  proof (cases ys)
    case Nil
    then show ?thesis by (auto simp: obind_Ok)
  next
    case (Cons z zs)
    have "(\<forall>j < Suc (length xs). f (i + j) ((x # xs) ! j) = Ok ((z # zs) ! j)) \<longleftrightarrow>
        f i x = Ok z \<and> (\<forall>j < length xs. f (Suc i + j) (xs ! j) = Ok (zs ! j))"
      by (auto simp: less_Suc_eq_0_disj)
    then show ?thesis
      using Cons Cons.IH [of "Suc i" zs] by (auto simp: obind_Ok)
  qed
qed

lemma for_each_Ok_set:
  assumes "for_each f i xs = Ok ys" and "y \<in> set ys"
  obtains j x where "x \<in> set xs" and "f j x = Ok y"
  using assms by (auto simp: for_each_Ok in_set_conv_nth)

lemma for_each_not_Panic [outcome_simps]:
  "(\<And>j x. x \<in> set xs \<Longrightarrow> f j x \<noteq> Panic) \<Longrightarrow> for_each f i xs \<noteq> Panic"
  by (induction xs arbitrary: i) (auto simp: obind_Panic)

section \<open>Bytes and strings\<close>

abbreviation byte :: "char \<Rightarrow> int" where
  "byte c \<equiv> of_char c"

definition is_ascii :: "string \<Rightarrow> bool" where
  "is_ascii s = list_all (\<lambda>c. byte c < 128) s"

definition is_upper :: "char \<Rightarrow> bool" where
  "is_upper c = (65 \<le> byte c \<and> byte c \<le> 90)"

definition is_lower :: "char \<Rightarrow> bool" where
  "is_lower c = (97 \<le> byte c \<and> byte c \<le> 122)"

definition is_digit :: "char \<Rightarrow> bool" where
  "is_digit c = (48 \<le> byte c \<and> byte c \<le> 57)"

definition is_alnum :: "char \<Rightarrow> bool" where
  "is_alnum c = (is_upper c \<or> is_lower c \<or> is_digit c)"

definition lower_char :: "char \<Rightarrow> char" where
  "lower_char c = (if is_upper c then char_of (byte c + 32) else c)"

definition upper_char :: "char \<Rightarrow> char" where
  "upper_char c = (if is_lower c then char_of (byte c - 32) else c)"

text \<open>What the inspector takes from outside its own sources and outside what is modelled of the
  standard library: the Unicode case tables (\<open>strings.Map\<close> with \<open>unicode.ToLower\<close> and
  \<open>unicode.ToUpper\<close>, the Unicode tail of \<open>strings.EqualFold\<close>), the floating-point product
  \<open>uint64(float64(f) * (float64(unit) / scale))\<close> of \<open>time.ParseDuration\<close>, and the hexadecimal
  MD5 and SHA-256 digests of a byte string.\<close>

record go_lib =
  uni_lower :: "string \<Rightarrow> string"
  uni_upper :: "string \<Rightarrow> string"
  uni_fold :: "string \<Rightarrow> string \<Rightarrow> bool"
  frac_ns :: "int \<Rightarrow> int \<Rightarrow> int \<Rightarrow> int"
  md5_hex :: "string \<Rightarrow> string"
  sha256_hex :: "string \<Rightarrow> string"

definition ToLower :: "go_lib \<Rightarrow> string \<Rightarrow> string" where
  "ToLower L s = (if is_ascii s then map lower_char s else uni_lower L s)"

definition ToUpper :: "go_lib \<Rightarrow> string \<Rightarrow> string" where
  "ToUpper L s = (if is_ascii s then map upper_char s else uni_upper L s)"

fun EqualFold :: "go_lib \<Rightarrow> string \<Rightarrow> string \<Rightarrow> bool" where
  "EqualFold L (a # s) (b # t) =
     (if byte a \<ge> 128 \<or> byte b \<ge> 128 then uni_fold L (a # s) (b # t)
      else if lower_char a = lower_char b then EqualFold L s t
      else False)"
| "EqualFold L s t = (s = [] \<and> t = [])"

definition HasPrefix :: "string \<Rightarrow> string \<Rightarrow> bool" where
  "HasPrefix s p = prefix p s"

definition HasSuffix :: "string \<Rightarrow> string \<Rightarrow> bool" where
  "HasSuffix s p = suffix p s"

definition CutSuffix :: "string \<Rightarrow> string \<Rightarrow> string \<times> bool" where
  "CutSuffix s p = (if suffix p s then (take (length s - length p) s, True) else (s, False))"

definition TrimSuffix :: "string \<Rightarrow> string \<Rightarrow> string" where
  "TrimSuffix s p = fst (CutSuffix s p)"

definition TrimPrefix :: "string \<Rightarrow> string \<Rightarrow> string" where
  "TrimPrefix s p = (if prefix p s then drop (length p) s else s)"

text \<open>\<open>strings.Cut\<close> and \<open>strings.Split\<close> at a separator of one byte.\<close>

definition Cut :: "string \<Rightarrow> char \<Rightarrow> string \<times> string \<times> bool" where
  "Cut s c =
     (if c \<in> set s then (takeWhile (\<lambda>x. x \<noteq> c) s, drop 1 (dropWhile (\<lambda>x. x \<noteq> c) s), True)
      else (s, [], False))"

fun Split :: "string \<Rightarrow> char \<Rightarrow> string list" where
  "Split [] c = [[]]"
| "Split (x # s) c =
     (if x = c then [] # Split s c
      else (case Split s c of [] \<Rightarrow> [[x]] | w # ws \<Rightarrow> (x # w) # ws))"

subsection \<open>White space\<close>

text \<open>The UTF-8 encodings of the code points \<open>unicode.IsSpace\<close> accepts. \<open>strings.TrimSpace\<close>
  strips them at both ends; the encodings at the right end are read backwards.\<close>

definition ascii_space :: "char \<Rightarrow> bool" where
  "ascii_space c = (byte c = 9 \<or> byte c = 10 \<or> byte c = 11 \<or> byte c = 12 \<or> byte c = 13 \<or> byte c = 32)"

definition uni_spaces :: "int list list" where
  "uni_spaces =
     [[194, 133], [194, 160], [225, 154, 128]]
     @ map (\<lambda>b. [226, 128, b]) [128, 129, 130, 131, 132, 133, 134, 135, 136, 137, 138, 168, 169, 175]
     @ [[226, 129, 159], [227, 128, 128]]"

function strip :: "int list list \<Rightarrow> string \<Rightarrow> string" where
  "strip ws [] = []"
| "strip ws (c # s) =
     (if ascii_space c then strip ws s
      else if byte c < 128 then c # s
      else (case find (\<lambda>w. prefix w (map of_char (c # s))) ws of
              None \<Rightarrow> c # s
            | Some w \<Rightarrow> strip ws (drop (length w - 1) s)))"
  by pat_completeness auto
termination
  by (relation "measure (\<lambda>(ws, s). length s)") auto

definition trim_left :: "string \<Rightarrow> string" where
  "trim_left s = strip uni_spaces s"

definition trim_right :: "string \<Rightarrow> string" where
  "trim_right s = rev (strip (map rev uni_spaces) (rev s))"

definition TrimSpace :: "string \<Rightarrow> string" where
  "TrimSpace s = trim_right (trim_left s)"

subsection \<open>Regular expressions of names\<close>

text \<open>A pattern \<open>^[first][rest]{0,n-1}$\<close>: the first byte in one class, the others in another, at
  most \<open>n\<close> bytes.\<close>

definition name_re :: "(char \<Rightarrow> bool) \<Rightarrow> (char \<Rightarrow> bool) \<Rightarrow> nat \<Rightarrow> string \<Rightarrow> bool" where
  "name_re first rest n s =
     (case s of [] \<Rightarrow> False | c # t \<Rightarrow> first c \<and> list_all rest t \<and> length s \<le> n)"

lemma name_re_nonempty [simp]: "\<not> name_re f r n []"
  by (simp add: name_re_def)

lemma name_re_length: "name_re f r n s \<Longrightarrow> 0 < length s \<and> length s \<le> n"
  by (auto simp: name_re_def split: list.splits)

subsection \<open>Decimal and hexadecimal numbers\<close>

definition digit_val :: "char \<Rightarrow> int" where
  "digit_val c = byte c - 48"

definition dec_val :: "string \<Rightarrow> int" where
  "dec_val s = foldl (\<lambda>n c. 10 * n + digit_val c) 0 s"

text \<open>\<open>strconv.Atoi\<close>: an optional sign, at least one decimal digit, a value of 64 bits.\<close>

definition Atoi :: "string \<Rightarrow> int option" where
  "Atoi s =
     (let neg = (s \<noteq> [] \<and> hd s = CHR ''-'');
          d = (if s \<noteq> [] \<and> (hd s = CHR ''-'' \<or> hd s = CHR ''+'') then tl s else s);
          v = (if neg then - dec_val d else dec_val d)
      in if d = [] \<or> \<not> list_all is_digit d then None
         else if v < - (2 ^ 63) \<or> v \<ge> 2 ^ 63 then None
         else Some v)"

definition digit_char :: "nat \<Rightarrow> char" where
  "digit_char n = char_of (n + 48)"

fun itoa :: "nat \<Rightarrow> string" where
  "itoa n = (if n < 10 then [digit_char n] else itoa (n div 10) @ [digit_char (n mod 10)])"

declare itoa.simps [simp del]

definition hex_char :: "int \<Rightarrow> char" where
  "hex_char n = (if n < 10 then char_of (n + 48) else char_of (n + 87))"

definition is_hex :: "char \<Rightarrow> bool" where
  "is_hex c = (is_digit c \<or> (97 \<le> byte c \<and> byte c \<le> 102) \<or> (65 \<le> byte c \<and> byte c \<le> 70))"

definition hex_val :: "char \<Rightarrow> int" where
  "hex_val c = (if is_digit c then byte c - 48 else if byte c \<ge> 97 then byte c - 87 else byte c - 55)"

text \<open>\<open>fmt.Sprintf("%016x", v)\<close> and \<open>strconv.ParseUint(s, 16, 64)\<close>.\<close>

fun hex_digits :: "nat \<Rightarrow> int \<Rightarrow> string" where
  "hex_digits 0 n = []"
| "hex_digits (Suc k) n = hex_digits k (n div 16) @ [hex_char (n mod 16)]"

definition parse_hex64 :: "string \<Rightarrow> 64 word option" where
  "parse_hex64 s =
     (let v = foldl (\<lambda>n c. 16 * n + hex_val c) 0 s
      in if s = [] \<or> \<not> list_all is_hex s \<or> v \<ge> 2 ^ 64 then None else Some (word_of_int v))"

text \<open>An instance of the parameters for concrete runs on ASCII input: the case tables are not
  consulted there, a fraction adds nothing, and the digests are the bytes themselves.\<close>

definition ascii_lib :: go_lib where
  "ascii_lib = \<lparr>uni_lower = (\<lambda>s. s), uni_upper = (\<lambda>s. s), uni_fold = (\<lambda>s t. s = t),
     frac_ns = (\<lambda>f scale u. 0), md5_hex = (\<lambda>s. s), sha256_hex = (\<lambda>s. s)\<rparr>"

section \<open>Facts on the string functions\<close>

lemma strip_suffix: "suffix (strip ws s) s"
proof (induction ws s rule: strip.induct)
  case (2 ws c s)
  show ?case
    using 2 by (auto split: option.splits intro: suffix_ConsI suffix_order.trans [OF _ suffix_drop])
qed simp

lemma strip_idem: "strip ws (strip ws s) = strip ws s"
proof (induction ws s rule: strip.induct)
  case (2 ws c s)
  then show ?case by (auto split: option.splits)
qed simp

lemma strip_nil_or_stuck:
  "strip ws s = s \<longleftrightarrow>
     (case s of [] \<Rightarrow> True
      | c # _ \<Rightarrow> \<not> ascii_space c \<and> (byte c < 128 \<or> find (\<lambda>w. prefix w (map of_char s)) ws = None))"
proof (cases s)
  case (Cons c t)
  have no: "strip ws (drop n t) \<noteq> c # t" for n
    using suffix_length_le [OF strip_suffix [of ws "drop n t"]] by auto
  show ?thesis
    using Cons no [of 0] no by (auto split: option.splits)
qed simp

lemma strip_prefix_closed:
  assumes "strip ws s = s" and "prefix p s"
  shows "strip ws p = p"
proof (cases p)
  case (Cons c t)
  then obtain u where s: "s = c # u" and tu: "prefix t u"
    using assms(2) by (cases s) auto
  have "prefix (map of_char p :: int list) (map of_char s)"
    using assms(2) by (rule map_mono_prefix)
  then have "find (\<lambda>w. prefix w (map of_char p)) ws = None"
    if "find (\<lambda>w. prefix w (map of_char s)) ws = None"
    using that by (auto simp: find_None_iff intro: prefix_order.trans)
  then show ?thesis
    using assms(1) Cons s unfolding strip_nil_or_stuck by auto
qed simp

lemma trim_right_prefix: "prefix (trim_right s) s"
  using strip_suffix [of "map rev uni_spaces" "rev s"]
  by (simp add: trim_right_def suffix_to_prefix)

lemma TrimSpace_idem [simp, go_str]: "TrimSpace (TrimSpace s) = TrimSpace s"
proof -
  have "trim_left (TrimSpace s) = TrimSpace s"
    unfolding trim_left_def TrimSpace_def
    by (rule strip_prefix_closed [OF _ trim_right_prefix]) (simp add: strip_idem)
  then show ?thesis
    by (simp add: TrimSpace_def [of "TrimSpace s"]) (simp add: TrimSpace_def trim_right_def strip_idem)
qed

lemma TrimSpace_Nil [simp, go_str]: "TrimSpace [] = []"
  by (simp add: TrimSpace_def trim_left_def trim_right_def)

end
