(* ===== verification/Protocol.thy ===== *)
theory Protocol
  imports Go_Prelude
begin

text \<open>
  \<open>internal/protocol\<close>: the messages of the bus. A request is what \<open>json.Unmarshal\<close> decodes a
  payload into; the decoder is an argument of \<open>Parse\<close>. The records keep the fields of the Go
  structs; a pointer is an option, a map an association list, a slice a list.
\<close>

abbreviation ProtocolVersion :: int where "ProtocolVersion \<equiv> 2"

record tls =
  tls_version :: string
  tls_sni :: string
  tls_ja4 :: string

record conn =
  client_ip :: string
  client_port :: int
  server_ip :: string
  server_port :: int
  conn_tls :: "tls option"

type_synonym header = "string \<times> string"

record http =
  http_method :: string
  http_scheme :: string
  http_host :: string
  http_uri :: string
  args_size :: int
  http_version :: string

record response =
  resp_status :: int
  resp_headers :: "header list"
  upstream_ms :: int

record enc =
  enc_alg :: string
  enc_kid :: string
  enc_nonce :: string

record locator =
  loc_store :: string
  loc_driver :: string
  loc_key :: string
  loc_unavailable :: string
  loc_size :: int
  loc_declared_size :: int
  loc_sha256 :: string
  loc_processed_sha256 :: string
  loc_transformed :: bool
  loc_complete :: bool
  loc_truncated :: bool
  loc_encoding :: string
  loc_expires_at :: int
  loc_hint :: string
  loc_enc :: "enc option"

definition Placed :: "locator option \<Rightarrow> bool" where
  "Placed l = (case l of None \<Rightarrow> False
     | Some l \<Rightarrow> loc_unavailable l = [] \<and> loc_driver l \<noteq> [] \<and> loc_key l \<noteq> [])"

record store_section =
  store_headers :: "locator option"
  store_args :: "locator option"
  store_body :: "locator option"

record route =
  route_server_name :: string
  route_location :: string
  route_profile :: string

record score_state =
  score_total :: int
  score_deny_at :: int

record object_spec =
  os_set :: string
  os_limit :: int
  os_source :: string

record action =
  act_to :: string
  act_do :: string
  act_apply :: string
  act_phase :: string
  act_code :: string
  act_delta :: "int option"
  act_value :: "int option"
  act_counter :: string
  act_marker :: string
  act_group :: string
  act_set :: string
  act_ttl :: "int option"
  act_when :: "string list"
  act_headers :: "object_spec option"
  act_args :: "object_spec option"
  act_body :: "object_spec option"

section \<open>Checks shared with the profile loader\<close>

text \<open>\<open>CheckArchiveWhen\<close>: the words are normalised and checked one by one against those seen so
  far, then listed in the order of \<open>ArchiveWhen\<close>.\<close>

definition ArchiveWhen :: "string list" where
  "ArchiveWhen = [''allow'', ''deny'']"

datatype when_err = WhenUnknown string | WhenTwice string

fun when_seen :: "go_lib \<Rightarrow> string list \<Rightarrow> string list \<Rightarrow> (when_err, string list) outcome" where
  "when_seen L seen [] = Ok seen"
| "when_seen L seen (word # words) =
     (let name = ToLower L (TrimSpace word)
      in if name \<noteq> ''allow'' \<and> name \<noteq> ''deny'' then Err (WhenUnknown word)
         else if name \<in> set seen then Err (WhenTwice name)
         else when_seen L (name # seen) words)"

definition CheckArchiveWhen :: "go_lib \<Rightarrow> string list \<Rightarrow> (when_err, string list) outcome" where
  "CheckArchiveWhen L words =
     obind (when_seen L [] words) (\<lambda>seen. Ok (filter (\<lambda>name. name \<in> set seen) ArchiveWhen))"

datatype spec_err = SpecSet string | SpecLimit | SpecSource string

definition CheckObjectSpec :: "object_spec option \<Rightarrow> spec_err option" where
  "CheckObjectSpec os =
     (case os of None \<Rightarrow> None
      | Some s \<Rightarrow>
          if os_set s \<noteq> [] \<and> os_set s \<noteq> ''on'' \<and> os_set s \<noteq> ''off'' then Some (SpecSet (os_set s))
          else if os_limit s < 0 then Some SpecLimit
          else if os_source s \<noteq> [] \<and> os_source s \<noteq> ''store'' \<and> os_source s \<noteq> ''original''
            then Some (SpecSource (os_source s))
          else None)"

abbreviation MarkerMax :: int where "MarkerMax \<equiv> 128"

datatype marker_err = MarkerEmpty | MarkerLong | MarkerControl | MarkerSpace

definition CheckMarker :: "string \<Rightarrow> marker_err option" where
  "CheckMarker marker =
     (if marker = [] then Some MarkerEmpty
      else if int (length marker) > MarkerMax then Some MarkerLong
      else if list_ex (\<lambda>c. byte c < 32 \<or> byte c = 127) marker then Some MarkerControl
      else if hd marker = CHR '' '' \<or> last marker = CHR '' '' then Some MarkerSpace
      else None)"

section \<open>Requests\<close>

record reason =
  reason_code :: string
  reason_class :: string

record prior_verdict =
  prior_inspector :: string
  prior_phase :: string
  prior_wave :: int
  prior_verdict_text :: string
  prior_score :: int
  prior_reason :: "reason option"
  prior_actions :: "action list"

record release =
  release_token :: string
  release_reason :: string

record request =
  req_v :: int
  req_rid :: string
  req_ray :: string
  req_phase :: string
  req_wave :: int
  req_inspector :: string
  req_deadline_ms :: int
  req_audit_subject :: "string option"
  req_node :: string
  req_conn :: conn
  req_http :: http
  req_vars :: "(string \<times> string) list option"
  req_needs :: "string list"
  req_store :: store_section
  req_route :: route
  req_score :: score_state
  req_prior :: "prior_verdict list"
  req_response :: "response option"
  req_release :: "release option"

abbreviation PhaseRequest :: string where "PhaseRequest \<equiv> ''request''"
abbreviation PhaseResponse :: string where "PhaseResponse \<equiv> ''response''"
abbreviation PhaseFrame :: string where "PhaseFrame \<equiv> ''frame''"

definition Needed :: "request \<Rightarrow> string \<Rightarrow> bool" where
  "Needed r obj = list_ex (\<lambda>n. n = obj) (req_needs r)"

datatype parse_fault =
    InvalidJSON | NoRID | NoV | NoInspector | BadPhase string | NoToken | NoMethodOrURI
  | MixesUnavailable string | NoDriverOrKey string

record parse_error =
  pe_rid :: string
  pe_err :: parse_fault

definition validate_locator :: "locator option \<Rightarrow> string \<Rightarrow> parse_fault option" where
  "validate_locator l obj =
     (case l of None \<Rightarrow> None
      | Some l \<Rightarrow>
          if loc_unavailable l \<noteq> [] \<and> (loc_driver l \<noteq> [] \<or> loc_key l \<noteq> []) then Some (MixesUnavailable obj)
          else if (loc_driver l = []) \<noteq> (loc_key l = []) then Some (NoDriverOrKey obj)
          else None)"

definition store_object :: "store_section \<Rightarrow> string \<Rightarrow> locator option" where
  "store_object s name =
     (if name = ''headers'' then store_headers s
      else if name = ''args'' then store_args s
      else if name = ''body'' then store_body s
      else None)"

text \<open>\<open>range\<close> over a map literal visits the three objects in an unspecified order, the argument
  \<open>order\<close>; the first fault found is returned.\<close>

fun first_fault :: "store_section \<Rightarrow> string list \<Rightarrow> parse_fault option" where
  "first_fault s [] = None"
| "first_fault s (name # names) =
     (case validate_locator (store_object s name) name of
        Some e \<Rightarrow> Some e
      | None \<Rightarrow> first_fault s names)"

subsection \<open>The request id of a broken message\<close>

definition re_space :: "char \<Rightarrow> bool" where
  "re_space c = (byte c = 9 \<or> byte c = 10 \<or> byte c = 12 \<or> byte c = 13 \<or> byte c = 32)"

definition rid_at :: "string \<Rightarrow> string option" where
  "rid_at s =
     (if \<not> prefix (CHR 0x22 # ''rid'' @ [CHR 0x22]) s then None
      else case dropWhile re_space (drop 5 s) of
        [] \<Rightarrow> None
      | c # t \<Rightarrow>
          if c \<noteq> CHR '':'' then None
          else case dropWhile re_space t of
            [] \<Rightarrow> None
          | q # u \<Rightarrow>
              let h = takeWhile is_hex u; r = dropWhile is_hex u
              in if q = CHR 0x22 \<and> 1 \<le> length h \<and> length h \<le> 32 \<and> r \<noteq> [] \<and> hd r = CHR 0x22
                 then Some h else None)"

fun SniffRID :: "string \<Rightarrow> string" where
  "SniffRID [] = []"
| "SniffRID (c # s) = (case rid_at (c # s) of Some h \<Rightarrow> h | None \<Rightarrow> SniffRID s)"

definition Parse :: "string list \<Rightarrow> (string \<Rightarrow> request option) \<Rightarrow> string \<Rightarrow> (parse_error, request) outcome" where
  "Parse order json payload =
     (case json payload of
        None \<Rightarrow> Err \<lparr>pe_rid = SniffRID payload, pe_err = InvalidJSON\<rparr>
      | Some req \<Rightarrow>
          if req_rid req = [] then Err \<lparr>pe_rid = [], pe_err = NoRID\<rparr>
          else if req_v req = 0 then Err \<lparr>pe_rid = req_rid req, pe_err = NoV\<rparr>
          else if req_inspector req = [] then Err \<lparr>pe_rid = req_rid req, pe_err = NoInspector\<rparr>
          else if req_phase req \<noteq> PhaseRequest \<and> req_phase req \<noteq> PhaseResponse \<and> req_phase req \<noteq> PhaseFrame
            then Err \<lparr>pe_rid = req_rid req, pe_err = BadPhase (req_phase req)\<rparr>
          else case req_release req of
            Some rel \<Rightarrow>
              if release_token rel = [] then Err \<lparr>pe_rid = req_rid req, pe_err = NoToken\<rparr> else Ok req
          | None \<Rightarrow>
              if http_method (req_http req) = [] \<or> http_uri (req_http req) = []
                then Err \<lparr>pe_rid = req_rid req, pe_err = NoMethodOrURI\<rparr>
              else case first_fault (req_store req) order of
                Some e \<Rightarrow> Err \<lparr>pe_rid = req_rid req, pe_err = e\<rparr>
              | None \<Rightarrow> Ok req)"

section \<open>Replies\<close>

record reply =
  rep_v :: int
  rep_rid :: string
  rep_inspector :: string
  rep_verdict :: string
  rep_score :: "int option"
  rep_reason :: "reason option"
  rep_response :: "string option"
  rep_redirect :: "(string \<times> int) option"
  rep_headers :: "((string \<times> string) list \<times> string list) option"
  rep_actions :: "action list"

abbreviation VerdictAllow :: string where "VerdictAllow \<equiv> ''allow''"
abbreviation VerdictScore :: string where "VerdictScore \<equiv> ''score''"
abbreviation VerdictError :: string where "VerdictError \<equiv> ''error''"

definition NewReply :: "request \<Rightarrow> string \<Rightarrow> reply" where
  "NewReply req verdict =
     \<lparr>rep_v = req_v req, rep_rid = req_rid req, rep_inspector = req_inspector req,
      rep_verdict = verdict, rep_score = None, rep_reason = None, rep_response = None,
      rep_redirect = None, rep_headers = None, rep_actions = []\<rparr>"

definition ErrorReply :: "request \<Rightarrow> string \<Rightarrow> reply" where
  "ErrorReply req code =
     (NewReply req VerdictError)\<lparr>rep_reason := Some \<lparr>reason_code = code, reason_class = []\<rparr>\<rparr>"

definition ClassOverload :: string where "ClassOverload = ''overload''"

definition ShedReply :: "request \<Rightarrow> string \<Rightarrow> reply" where
  "ShedReply req code =
     (ErrorReply req code)
       \<lparr>rep_reason := map_option (\<lambda>r. r\<lparr>reason_class := ClassOverload\<rparr>) (rep_reason (ErrorReply req code))\<rparr>"

definition FallbackReply :: "string \<Rightarrow> string \<Rightarrow> string \<Rightarrow> reply" where
  "FallbackReply rid inspector code =
     \<lparr>rep_v = ProtocolVersion, rep_rid = rid, rep_inspector = inspector, rep_verdict = VerdictError,
      rep_score = None, rep_reason = Some \<lparr>reason_code = code, reason_class = []\<rparr>,
      rep_response = None, rep_redirect = None, rep_headers = None, rep_actions = []\<rparr>"

datatype score_err = ErrScoreRange int

definition WithScore :: "reply \<Rightarrow> int \<Rightarrow> (score_err, reply) outcome" where
  "WithScore r score =
     (if score < 0 \<or> score > 100 then Err (ErrScoreRange score)
      else Ok (r\<lparr>rep_verdict := VerdictScore, rep_score := Some score\<rparr>))"

text \<open>\<open>Marshal\<close> guards the score and hands the reply to the encoder, the argument \<open>json\<close>.\<close>

datatype marshal_err = MarshalScore int | MarshalJSON

definition Marshal :: "(reply \<Rightarrow> string option) \<Rightarrow> reply \<Rightarrow> (marshal_err, string) outcome" where
  "Marshal json r =
     (case rep_score r of
        Some s \<Rightarrow>
          if s < 0 \<or> s > 100 then Err (MarshalScore s)
          else (case json r of None \<Rightarrow> Err MarshalJSON | Some b \<Rightarrow> Ok b)
      | None \<Rightarrow> (case json r of None \<Rightarrow> Err MarshalJSON | Some b \<Rightarrow> Ok b))"

end
