(* ===== verification/Body.thy ===== *)
theory Body
  imports Protocol
begin

text \<open>
  \<open>internal/body\<close>: fetching an object of the request from the store, decrypting it and checking
  its digest. The Redis client, the secret source and AES-GCM are arguments; \<open>base64\<close> is
  translated. \<open>cipher.AEAD.Open\<close> panics on a nonce that is not 12 bytes long, and the model keeps
  that panic.
\<close>

section \<open>\<open>encoding/base64\<close>\<close>

definition b64_val :: "char \<Rightarrow> int option" where
  "b64_val c =
     (if is_upper c then Some (byte c - 65)
      else if is_lower c then Some (byte c - 71)
      else if is_digit c then Some (byte c + 4)
      else if c = CHR ''+'' then Some 62
      else if c = CHR ''/'' then Some 63
      else None)"

definition b64_bytes :: "nat \<Rightarrow> int \<Rightarrow> string" where
  "b64_bytes n v = take n [char_of (v div 65536), char_of (v div 256 mod 256), char_of (v mod 256)]"

fun b64_quads :: "string \<Rightarrow> string option" where
  "b64_quads [] = Some []"
| "b64_quads (a # b # c # d # s) =
     (case (b64_val a, b64_val b) of
        (Some x, Some y) \<Rightarrow>
          if c = CHR ''='' then
            (if d = CHR ''='' \<and> s = [] then Some (b64_bytes 1 (x * 262144 + y * 4096)) else None)
          else (case b64_val c of
            None \<Rightarrow> None
          | Some z \<Rightarrow>
              if d = CHR ''='' then
                (if s = [] then Some (b64_bytes 2 (x * 262144 + y * 4096 + z * 64)) else None)
              else (case b64_val d of
                None \<Rightarrow> None
              | Some w \<Rightarrow>
                  map_option (\<lambda>r. b64_bytes 3 (x * 262144 + y * 4096 + z * 64 + w) @ r) (b64_quads s)))
      | _ \<Rightarrow> None)"
| "b64_quads s = None"

text \<open>\<open>StdEncoding.DecodeString\<close> skips line breaks.\<close>

definition b64_decode :: "string \<Rightarrow> string option" where
  "b64_decode s = b64_quads (filter (\<lambda>c. byte c \<noteq> 10 \<and> byte c \<noteq> 13) s)"

section \<open>Loading\<close>

record body =
  bd_data :: string
  bd_truncated :: bool
  bd_unavailable :: string
  bd_fault :: bool
  bd_sha256 :: string

definition Available :: "body \<Rightarrow> bool" where "Available b = (bd_unavailable b = [])"

definition Failed :: "body \<Rightarrow> bool" where "Failed b = bd_fault b"

datatype store_err = ErrUnknownDriver | StoreFailed

record store_ops =
  st_get :: "string \<Rightarrow> string \<Rightarrow> string \<Rightarrow> (store_err, string) outcome"
  st_many :: "(string \<Rightarrow> string \<Rightarrow> string list \<Rightarrow> (store_err, string option list) outcome) option"

record loader =
  ld_lib :: go_lib
  ld_store :: "store_ops option"
  ld_keys :: "(string \<Rightarrow> string option) option"
  ld_gcm :: "string \<Rightarrow> string \<Rightarrow> string \<Rightarrow> string option"

abbreviation unavailableNoStore :: string where "unavailableNoStore \<equiv> ''store_unconfigured''"
abbreviation unavailableStoreError :: string where "unavailableStoreError \<equiv> ''store_error''"
abbreviation unavailableUnknownDrv :: string where "unavailableUnknownDrv \<equiv> ''unknown_driver''"
abbreviation unavailableDecryptFail :: string where "unavailableDecryptFail \<equiv> ''decrypt_failed''"
abbreviation unavailableDigestFail :: string where "unavailableDigestFail \<equiv> ''digest_mismatch''"

definition body_zero :: body where
  "body_zero = \<lparr>bd_data = [], bd_truncated = False, bd_unavailable = [], bd_fault = False, bd_sha256 = []\<rparr>"

definition body_fault :: "string \<Rightarrow> body" where
  "body_fault why = body_zero\<lparr>bd_unavailable := why, bd_fault := True\<rparr>"

text \<open>The steps of \<open>decrypt\<close> that return an error all lead to the same result of \<open>finish\<close>, so the
  error carries no value.\<close>

definition decrypt :: "loader \<Rightarrow> enc \<Rightarrow> string \<Rightarrow> (unit, string) outcome" where
  "decrypt l e raw =
     (case ld_keys l of
        None \<Rightarrow> Err ()
      | Some keys \<Rightarrow>
          if enc_alg e \<noteq> ''aes-256-gcm'' then Err ()
          else case keys (enc_kid e) of
            None \<Rightarrow> Err ()
          | Some key \<Rightarrow>
              if length key \<noteq> 16 \<and> length key \<noteq> 24 \<and> length key \<noteq> 32 then Err ()
              else case b64_decode (enc_nonce e) of
                None \<Rightarrow> Err ()
              | Some nonce \<Rightarrow>
                  if length nonce \<noteq> 12 then Panic
                  else (case ld_gcm l key nonce raw of None \<Rightarrow> Err () | Some plain \<Rightarrow> Ok plain))"

definition wanted_digest :: "locator \<Rightarrow> string" where
  "wanted_digest loc =
     (if loc_processed_sha256 loc \<noteq> [] then loc_processed_sha256 loc
      else if loc_truncated loc then [] else loc_sha256 loc)"

definition check_digest :: "loader \<Rightarrow> locator \<Rightarrow> string \<Rightarrow> body" where
  "check_digest l loc raw =
     (let digest = sha256_hex (ld_lib l) raw; want = wanted_digest loc
      in if want \<noteq> [] \<and> want \<noteq> digest then body_fault unavailableDigestFail
         else \<lparr>bd_data = raw, bd_truncated = loc_truncated loc, bd_unavailable = [], bd_fault = False,
               bd_sha256 = digest\<rparr>)"

definition finish :: "loader \<Rightarrow> locator \<Rightarrow> string \<Rightarrow> (unit, body) outcome" where
  "finish l loc raw =
     (case loc_enc loc of
        None \<Rightarrow> Ok (check_digest l loc raw)
      | Some e \<Rightarrow>
          (case decrypt l e raw of
             Ok plain \<Rightarrow> Ok (check_digest l loc plain)
           | Err _ \<Rightarrow> Ok (body_fault unavailableDecryptFail)
           | Panic \<Rightarrow> Panic))"

definition Load :: "loader \<Rightarrow> locator option \<Rightarrow> (unit, body) outcome" where
  "Load l loc' =
     (case loc' of
        None \<Rightarrow> Ok body_zero
      | Some loc \<Rightarrow>
          if loc_unavailable loc \<noteq> [] then Ok (body_zero\<lparr>bd_unavailable := loc_unavailable loc\<rparr>)
          else if loc_driver loc \<noteq> [] then
            (case ld_store l of
               None \<Rightarrow> Ok (body_fault unavailableNoStore)
             | Some st \<Rightarrow>
                 (case st_get st (loc_driver loc) (loc_store loc) (loc_key loc) of
                    Ok raw \<Rightarrow> finish l loc raw
                  | Err ErrUnknownDriver \<Rightarrow> Ok (body_fault unavailableUnknownDrv)
                  | Err StoreFailed \<Rightarrow> Ok (body_fault unavailableStoreError)
                  | Panic \<Rightarrow> Panic))
          else Ok body_zero)"

subsection \<open>Loading several objects\<close>

text \<open>The locators of one driver and store are collected for one request; the others are loaded on
  the way. \<open>lm_at\<close> and \<open>lm_keys\<close> grow together.\<close>

record many_state =
  lm_out :: "body list"
  lm_keys :: "string list"
  lm_at :: "nat list"
  lm_batch :: "(string \<times> string) option"

definition alone :: "many_state \<Rightarrow> locator option \<Rightarrow> bool" where
  "alone s loc' =
     (case loc' of None \<Rightarrow> True
      | Some loc \<Rightarrow> loc_unavailable loc \<noteq> [] \<or> loc_driver loc = [] \<or>
          (case lm_batch s of None \<Rightarrow> False | Some b \<Rightarrow> b \<noteq> (loc_driver loc, loc_store loc)))"

definition set_out :: "nat \<Rightarrow> many_state \<Rightarrow> body \<Rightarrow> many_state" where
  "set_out i s b = s\<lparr>lm_out := (lm_out s)[i := b]\<rparr>"

definition add_key :: "nat \<Rightarrow> locator \<Rightarrow> many_state \<Rightarrow> many_state" where
  "add_key i loc s =
     s\<lparr>lm_keys := lm_keys s @ [loc_key loc], lm_at := lm_at s @ [i],
       lm_batch := Some (loc_driver loc, loc_store loc)\<rparr>"

fun many_scan :: "loader \<Rightarrow> nat \<Rightarrow> locator option list \<Rightarrow> many_state \<Rightarrow> (unit, many_state) outcome" where
  "many_scan l i [] s = Ok s"
| "many_scan l i (loc # locs) s =
     (if alone s loc then obind (Load l loc) (\<lambda>b. many_scan l (Suc i) locs (set_out i s b))
      else many_scan l (Suc i) locs (add_key i (the loc) s))"

fun load_each :: "loader \<Rightarrow> locator option list \<Rightarrow> nat list \<Rightarrow> body list \<Rightarrow> (unit, body list) outcome" where
  "load_each l locs [] out = Ok out"
| "load_each l locs (i # is) out = obind (Load l (locs ! i)) (\<lambda>b. load_each l locs is (out[i := b]))"

fun finish_each ::
  "loader \<Rightarrow> locator option list \<Rightarrow> nat list \<Rightarrow> string option list \<Rightarrow> body list \<Rightarrow> (unit, body list) outcome" where
  "finish_each l locs [] raws out = Ok out"
| "finish_each l locs (i # is) [] out = Panic"
| "finish_each l locs (i # is) (r # raws) out =
     (case r of
        None \<Rightarrow> finish_each l locs is raws (out[i := body_fault unavailableStoreError])
      | Some raw \<Rightarrow>
          obind (finish l (the (locs ! i)) raw) (\<lambda>b. finish_each l locs is raws (out[i := b])))"

definition set_all :: "nat list \<Rightarrow> body \<Rightarrow> body list \<Rightarrow> body list" where
  "set_all is b out = foldl (\<lambda>o' i. o'[i := b]) out is"

definition many_state0 :: "nat \<Rightarrow> many_state" where
  "many_state0 n = \<lparr>lm_out = replicate n body_zero, lm_keys = [], lm_at = [], lm_batch = None\<rparr>"

definition LoadMany :: "loader \<Rightarrow> locator option list \<Rightarrow> (unit, body list) outcome" where
  "LoadMany l locs =
     (case ld_store l of
        None \<Rightarrow> for_each (\<lambda>_. Load l) 0 locs
      | Some st \<Rightarrow>
          (case st_many st of
             None \<Rightarrow> for_each (\<lambda>_. Load l) 0 locs
           | Some GetMany \<Rightarrow>
               obind (many_scan l 0 locs (many_state0 (length locs))) (\<lambda>s.
                 if length (lm_keys s) < 2 then load_each l locs (lm_at s) (lm_out s)
                 else (case GetMany (fst (the (lm_batch s))) (snd (the (lm_batch s))) (lm_keys s) of
                     Err ErrUnknownDriver \<Rightarrow> Ok (set_all (lm_at s) (body_fault unavailableUnknownDrv) (lm_out s))
                   | Err StoreFailed \<Rightarrow> Ok (set_all (lm_at s) (body_fault unavailableStoreError) (lm_out s))
                   | Ok raws \<Rightarrow> finish_each l locs (lm_at s) raws (lm_out s)
                   | Panic \<Rightarrow> Panic))))"

section \<open>The Redis store\<close>

text \<open>The client is an argument: \<open>get\<close> and \<open>mget\<close> answer a key or a list of keys, \<open>None\<close> for an
  error (a missing key is one for \<open>get\<close>) and, inside the list, for a missing key.\<close>

record redis_client =
  rc_get :: "string \<Rightarrow> string option"
  rc_mget :: "string list \<Rightarrow> string option list option"

definition redis_Get :: "redis_client \<Rightarrow> string \<Rightarrow> string \<Rightarrow> string \<Rightarrow> (store_err, string) outcome" where
  "redis_Get c driver store key =
     (if driver \<noteq> ''redis'' then Err ErrUnknownDriver
      else case rc_get c key of None \<Rightarrow> Err StoreFailed | Some raw \<Rightarrow> Ok raw)"

definition redis_GetMany ::
  "redis_client \<Rightarrow> string \<Rightarrow> string \<Rightarrow> string list \<Rightarrow> (store_err, string option list) outcome" where
  "redis_GetMany c driver store keys =
     (if driver \<noteq> ''redis'' then Err ErrUnknownDriver
      else if keys = [] then Ok []
      else case rc_mget c keys of
        None \<Rightarrow> Err StoreFailed
      | Some vals \<Rightarrow> if length vals \<noteq> length keys then Err StoreFailed else Ok vals)"

definition redis_store :: "redis_client \<Rightarrow> store_ops" where
  "redis_store c = \<lparr>st_get = redis_Get c, st_many = Some (redis_GetMany c)\<rparr>"

end
