(* ===== verification/Body_Props.thy ===== *)
theory Body_Props
  imports Body
begin

text \<open>
  What the loader guarantees: an object it hands out has the digest the locator asks for, every
  fault is an unavailable object, and loading several objects in one request to Redis gives what
  loading them one by one gives.
\<close>

section \<open>One object\<close>

lemma check_digest_ok:
  "Available (check_digest l loc raw) \<Longrightarrow>
     bd_data (check_digest l loc raw) = raw \<and>
     (wanted_digest loc = [] \<or> wanted_digest loc = sha256_hex (ld_lib l) raw)"
  by (auto simp: check_digest_def Let_def Available_def body_fault_def split: if_splits)

lemma check_digest_fault: "Failed (check_digest l loc raw) \<longleftrightarrow> \<not> Available (check_digest l loc raw)"
  by (auto simp: check_digest_def Let_def Available_def Failed_def body_fault_def)

lemma body_fault_simps [simp]:
  "Failed (body_fault w)" "bd_data (body_fault w) = []" "bd_unavailable (body_fault w) = w"
  by (simp_all add: body_fault_def Failed_def body_zero_def)

lemma finish_cases:
  assumes "finish l loc raw = Ok b"
  obtains plain where "b = check_digest l loc plain" | "b = body_fault unavailableDecryptFail"
  using assms by (auto simp: finish_def split: option.splits outcome.splits)

lemma Load_faults:
  assumes "Load l loc = Ok b" and "Failed b"
  shows "\<not> Available b \<and> bd_data b = []"
proof (cases "\<exists>raw. loc \<noteq> None \<and> finish l (the loc) raw = Ok b")
  case True
  then obtain raw where "finish l (the loc) raw = Ok b" by blast
  then show ?thesis
    by (rule finish_cases)
      (use assms(2) in \<open>auto simp: Available_def check_digest_def Let_def Failed_def split: if_splits\<close>)
next
  case False
  then show ?thesis
    using assms
    by (auto simp: Load_def Available_def Failed_def body_zero_def split: option.splits if_splits outcome.splits store_err.splits)
qed

lemma Load_digest:
  assumes "Load l (Some loc) = Ok b" and "loc_driver loc \<noteq> []" and "Available b"
  shows "wanted_digest loc = [] \<or> wanted_digest loc = sha256_hex (ld_lib l) (bd_data b)"
proof -
  have "loc_unavailable loc = []"
    using assms by (auto simp: Load_def Available_def split: if_splits)
  then obtain raw where "finish l loc raw = Ok b"
    using assms by (auto simp: Load_def Available_def split: option.splits outcome.splits store_err.splits)
  then show ?thesis
    by (rule finish_cases)
      (use assms(3) check_digest_ok [of l loc] in \<open>auto simp: Available_def\<close>)
qed

lemma finish_Panic:
  "finish l loc raw = Panic \<longleftrightarrow>
     (\<exists>e keys key nonce. loc_enc loc = Some e \<and> ld_keys l = Some keys \<and> enc_alg e = ''aes-256-gcm'' \<and>
        keys (enc_kid e) = Some key \<and> length key \<in> {16, 24, 32} \<and>
        b64_decode (enc_nonce e) = Some nonce \<and> length nonce \<noteq> 12)"
  by (auto simp: finish_def decrypt_def split: option.splits outcome.splits if_splits)

lemma Load_not_Err: "Load l loc \<noteq> Err e"
  by (auto simp: Load_def finish_def split: option.splits outcome.splits store_err.splits)

section \<open>Several objects\<close>

text \<open>The documented behaviour of the client: \<open>MGET\<close> answers every key as \<open>GET\<close> does.\<close>

definition mget_agrees :: "redis_client \<Rightarrow> bool" where
  "mget_agrees c \<longleftrightarrow> (\<forall>keys. rc_mget c keys = Some (map (rc_get c) keys))"

definition batchable :: "locator option \<Rightarrow> (string \<times> string) option \<Rightarrow> bool" where
  "batchable loc' b \<longleftrightarrow> (\<exists>loc. loc' = Some loc \<and> loc_unavailable loc = [] \<and> loc_driver loc \<noteq> [] \<and>
     b = Some (loc_driver loc, loc_store loc))"

definition scan_inv :: "(locator option \<Rightarrow> body) \<Rightarrow> locator option list \<Rightarrow> nat \<Rightarrow> many_state \<Rightarrow> bool" where
  "scan_inv f locs i s \<longleftrightarrow>
     length (lm_out s) = length locs \<and>
     lm_keys s = map (\<lambda>j. loc_key (the (locs ! j))) (lm_at s) \<and>
     (\<forall>j \<in> set (lm_at s). j < i \<and> batchable (locs ! j) (lm_batch s)) \<and>
     (lm_batch s = None \<longrightarrow> lm_at s = []) \<and>
     (\<forall>j < i. j \<notin> set (lm_at s) \<longrightarrow> lm_out s ! j = f (locs ! j))"

lemma scan_inv_alone:
  assumes "scan_inv f locs i s" and "i < length locs"
  shows "scan_inv f locs (Suc i) (set_out i s (f (locs ! i)))"
  using assms by (auto simp: scan_inv_def set_out_def less_Suc_eq nth_list_update)

lemma scan_inv_key:
  assumes "scan_inv f locs i s" and "i < length locs" and "\<not> alone s (locs ! i)"
  shows "scan_inv f locs (Suc i) (add_key i (the (locs ! i)) s)"
proof -
  obtain loc where loc: "locs ! i = Some loc" "loc_unavailable loc = []" "loc_driver loc \<noteq> []"
      "lm_batch s = None \<or> lm_batch s = Some (loc_driver loc, loc_store loc)"
    using assms(3) by (auto simp: alone_def split: option.splits)
  then show ?thesis
    using assms(1) by (auto simp: scan_inv_def add_key_def batchable_def less_Suc_eq)
qed

lemma many_scan_inv:
  assumes "\<forall>loc \<in> set locs. Load l loc = Ok (f loc)" and "scan_inv f locs i s" and "i \<le> length locs"
  shows "\<exists>s'. many_scan l i (drop i locs) s = Ok s' \<and> scan_inv f locs (length locs) s'"
  using assms(2,3)
proof (induction "length locs - i" arbitrary: i s)
  case 0
  then show ?case by auto
next
  case (Suc n)
  then have i: "i < length locs" by simp
  then have d: "drop i locs = locs ! i # drop (Suc i) locs" by (simp add: Cons_nth_drop_Suc)
  have l: "Load l (locs ! i) = Ok (f (locs ! i))" using assms(1) i by simp
  show ?case
  proof (cases "alone s (locs ! i)")
    case True
    then show ?thesis
      using Suc.hyps(1) [of "Suc i" "set_out i s (f (locs ! i))"] Suc.hyps(2) i
        scan_inv_alone [OF Suc.prems(1) i] by (simp add: d l)
  next
    case False
    then show ?thesis
      using Suc.hyps(1) [of "Suc i" "add_key i (the (locs ! i)) s"] Suc.hyps(2) i
        scan_inv_key [OF Suc.prems(1) i False] by (simp add: d)
  qed
qed

text \<open>\<open>filled\<close>: the results are in place but for the positions that are still to do.\<close>

definition filled :: "(locator option \<Rightarrow> body) \<Rightarrow> locator option list \<Rightarrow> nat list \<Rightarrow> body list \<Rightarrow> bool" where
  "filled f locs is out \<longleftrightarrow>
     length out = length locs \<and> (\<forall>j < length locs. j \<notin> set is \<longrightarrow> out ! j = f (locs ! j))"

lemma filled_step: "filled f locs (i # is) out \<Longrightarrow> filled f locs is (out[i := f (locs ! i)])"
  unfolding filled_def by (metis length_list_update nth_list_update_eq nth_list_update_neq set_ConsD)

lemma filled_Nil: "filled f locs [] out \<Longrightarrow> out = map f locs"
  by (auto simp: filled_def intro: nth_equalityI)

lemma load_each_all:
  assumes "\<forall>i \<in> set is. Load l (locs ! i) = Ok (f (locs ! i))" and "filled f locs is out"
  shows "load_each l locs is out = Ok (map f locs)"
  using assms
  by (induction "is" arbitrary: out) (auto dest: filled_step filled_Nil)

lemma finish_each_all:
  assumes "\<forall>i \<in> set is. (case g i of None \<Rightarrow> f (locs ! i) = body_fault unavailableStoreError
        | Some raw \<Rightarrow> finish l (the (locs ! i)) raw = Ok (f (locs ! i)))"
    and "filled f locs is out"
  shows "finish_each l locs is (map g is) out = Ok (map f locs)"
  using assms
proof (induction "is" arbitrary: out)
  case (Cons i "is")
  from Cons.IH [OF _ filled_step [OF Cons.prems(2)]] Cons.prems(1) show ?case
    by (auto split: option.splits)
qed (simp add: filled_Nil)

lemma set_all_all:
  assumes "\<forall>i \<in> set is. f (locs ! i) = b" and "filled f locs is out"
  shows "set_all is b out = map f locs"
  using assms
proof (induction "is" arbitrary: out)
  case (Cons i "is")
  from Cons.IH [OF _ filled_step [OF Cons.prems(2)]] Cons.prems(1) show ?case
    by (auto simp: set_all_def)
qed (simp add: filled_Nil set_all_def)

lemma Load_redis:
  assumes "ld_store l = Some (redis_store c)" and "Load l loc' = Ok b" and "batchable loc' (Some (dr, st))"
  shows "loc_driver (the loc') = dr \<and>
    (if dr \<noteq> ''redis'' then b = body_fault unavailableUnknownDrv
     else case rc_get c (loc_key (the loc')) of
        None \<Rightarrow> b = body_fault unavailableStoreError
      | Some raw \<Rightarrow> finish l (the loc') raw = Ok b)"
  using assms by (auto simp: batchable_def Load_def redis_store_def redis_Get_def split: if_splits option.splits)

lemma LoadMany_Load:
  assumes st: "ld_store l = Some (redis_store c)" and mget: "mget_agrees c"
    and np: "\<forall>loc \<in> set locs. Load l loc = Ok (f loc)"
  shows "LoadMany l locs = Ok (map f locs)"
proof -
  have "scan_inv f locs 0 (many_state0 (length locs))" by (simp add: scan_inv_def many_state0_def)
  then obtain s where scan: "many_scan l 0 locs (many_state0 (length locs)) = Ok s"
      and inv: "scan_inv f locs (length locs) s"
    using many_scan_inv [OF np, of 0] by auto
  have rest: "filled f locs (lm_at s) (lm_out s)"
    and keys: "lm_keys s = map (\<lambda>j. loc_key (the (locs ! j))) (lm_at s)"
    and at: "\<And>j. j \<in> set (lm_at s) \<Longrightarrow> j < length locs \<and> batchable (locs ! j) (lm_batch s)"
    and none: "lm_batch s = None \<Longrightarrow> lm_at s = []"
    using inv by (auto simp: scan_inv_def filled_def)
  have ok: "Load l (locs ! j) = Ok (f (locs ! j))" if "j \<in> set (lm_at s)" for j
    using np at [OF that] by simp
  show ?thesis
  proof (cases "length (lm_keys s) < 2")
    case True
    then show ?thesis
      using load_each_all [OF _ rest, of l] ok scan st by (simp add: LoadMany_def redis_store_def)
  next
    case False
    then obtain dr sto where b: "lm_batch s = Some (dr, sto)" using none keys by (cases "lm_batch s") auto
    note each = Load_redis [OF st ok at [THEN conjunct2, unfolded b]]
    show ?thesis
    proof (cases "dr = ''redis''")
      case False
      then have "\<forall>i \<in> set (lm_at s). f (locs ! i) = body_fault unavailableUnknownDrv" using each by auto
      from set_all_all [OF this rest] show ?thesis
        using \<open>\<not> length (lm_keys s) < 2\<close> scan st b False
        by (simp add: LoadMany_def redis_store_def redis_GetMany_def)
    next
      case True
      let ?g = "\<lambda>j. rc_get c (loc_key (the (locs ! j)))"
      have "\<forall>i \<in> set (lm_at s). (case ?g i of None \<Rightarrow> f (locs ! i) = body_fault unavailableStoreError
          | Some raw \<Rightarrow> finish l (the (locs ! i)) raw = Ok (f (locs ! i)))"
        using each True by (auto split: if_splits)
      from finish_each_all [OF this rest] show ?thesis
        using \<open>\<not> length (lm_keys s) < 2\<close> scan st b True mget keys
        by (auto simp: LoadMany_def redis_store_def redis_GetMany_def mget_agrees_def comp_def)
    qed
  qed
qed

end
