(* ===== verification/Body_Claims.thy ===== *)
theory Body_Claims
  imports Body_Props
begin

text \<open>The property of the object loader, \<open>internal/body\<close>.\<close>

text \<open>C16: loading several objects in one request to Redis gives exactly what loading them one by one
  gives, for any mix of objects that are absent, unavailable, on other stores or encrypted, when
  \<open>MGET\<close> answers each key as \<open>GET\<close> does; and an object that is handed out has the digest its locator
  asks for.\<close>

theorem LoadMany_exact:
  assumes "ld_store l = Some (redis_store c)" and "mget_agrees c"
    and "\<forall>loc \<in> set locs. Load l loc = Ok (f loc)"
  shows "LoadMany l locs = Ok (map f locs) \<and>
    (\<forall>loc. Some loc \<in> set locs \<longrightarrow> loc_driver loc \<noteq> [] \<longrightarrow> Available (f (Some loc)) \<longrightarrow>
       wanted_digest loc = [] \<or> wanted_digest loc = sha256_hex (ld_lib l) (bd_data (f (Some loc))))"
  using LoadMany_Load [OF assms] Load_digest assms(3) by blast

definition echo_client :: redis_client where
  "echo_client = \<lparr>rc_get = Some, rc_mget = (\<lambda>keys. Some (map Some keys))\<rparr>"

definition echo_loader :: loader where
  "echo_loader = \<lparr>ld_lib = ascii_lib, ld_store = Some (redis_store echo_client), ld_keys = None, ld_gcm = (\<lambda>_ _ _. None)\<rparr>"

definition echo_loc :: "string \<Rightarrow> string \<Rightarrow> locator" where
  "echo_loc key sha =
     \<lparr>loc_store = ''s'', loc_driver = ''redis'', loc_key = key, loc_unavailable = [], loc_size = 0, loc_declared_size = 0,
      loc_sha256 = sha, loc_processed_sha256 = [], loc_transformed = False, loc_complete = True, loc_truncated = False,
      loc_encoding = [], loc_expires_at = 0, loc_hint = [], loc_enc = None\<rparr>"

definition echo_load :: "locator option \<Rightarrow> body" where
  "echo_load loc = (case Load echo_loader loc of Ok b \<Rightarrow> b | _ \<Rightarrow> body_zero)"

definition echo_locs :: "locator option list" where
  "echo_locs = [Some (echo_loc ''a'' ''a''), None, Some (echo_loc ''b'' ''c'')]"

theorem LoadMany_exact_witness:
  "LoadMany echo_loader echo_locs = Ok (map echo_load echo_locs) \<and>
     map bd_data (map echo_load echo_locs) = [''a'', [], []] \<and>
     map Available (map echo_load echo_locs) = [True, True, False]"
proof -
  have "list_all (\<lambda>loc. case Load echo_loader loc of Ok _ \<Rightarrow> True | _ \<Rightarrow> False) echo_locs" by code_simp
  then have "\<forall>loc \<in> set echo_locs. Load echo_loader loc = Ok (echo_load loc)"
    by (auto simp: list_all_iff echo_load_def split: outcome.splits)
  moreover have "mget_agrees echo_client" by (auto simp: mget_agrees_def echo_client_def)
  moreover have "ld_store echo_loader = Some (redis_store echo_client)" by (simp add: echo_loader_def)
  moreover have "map bd_data (map echo_load echo_locs) = [''a'', [], []] \<and>
      map Available (map echo_load echo_locs) = [True, True, False]" by code_simp
  ultimately show ?thesis using LoadMany_exact by blast
qed

end
