(* ===== verification/Siphash.thy ===== *)
theory Siphash
  imports Go_Prelude
begin

text \<open>
  \<open>internal/livelist/siphash.go\<close>: SipHash-2-4 over 64-bit words. A key and a message are byte
  strings; the code reads a key as an array of 16 bytes. \<open>sip_spec\<close> is the definition of the
  function: the message is padded to whole words, with its length in the last byte, and the words
  are compressed one by one.
\<close>

unbundle bit_operations_syntax

type_synonym u64 = "64 word"

definition byte_word :: "char \<Rightarrow> u64" where
  "byte_word c = word_of_int (byte c)"

text \<open>\<open>binary.LittleEndian\<close>: the bytes, least significant first, shifted into place and joined. The
  first argument is the shift of the first byte.\<close>

fun le_word :: "nat \<Rightarrow> string \<Rightarrow> u64" where
  "le_word n [] = 0"
| "le_word n (c # s) = push_bit n (byte_word c) OR le_word (n + 8) s"

definition Uint64 :: "string \<Rightarrow> u64" where
  "Uint64 b = le_word 0 (take 8 b)"

definition rotl :: "u64 \<Rightarrow> nat \<Rightarrow> u64" where
  "rotl x b = push_bit b x OR drop_bit (64 - b) x"

record sip_state =
  v0 :: u64
  v1 :: u64
  v2 :: u64
  v3 :: u64

definition sipRound :: "sip_state \<Rightarrow> sip_state" where
  "sipRound s =
     (let a = v0 s + v1 s; b = rotl (v1 s) 13; b = b XOR a; a = rotl a 32;
          c = v2 s + v3 s; d = rotl (v3 s) 16; d = d XOR c;
          a = a + d; d = rotl d 21; d = d XOR a;
          c = c + b; b = rotl b 17; b = b XOR c; c = rotl c 32
      in \<lparr>v0 = a, v1 = b, v2 = c, v3 = d\<rparr>)"

definition sip_init :: "string \<Rightarrow> sip_state" where
  "sip_init k =
     (let k0 = Uint64 (take 8 k); k1 = Uint64 (take 8 (drop 8 k))
      in \<lparr>v0 = k0 XOR 0x736f6d6570736575, v1 = k1 XOR 0x646f72616e646f6d,
          v2 = k0 XOR 0x6c7967656e657261, v3 = k1 XOR 0x7465646279746573\<rparr>)"

definition sip_block :: "u64 \<Rightarrow> sip_state \<Rightarrow> sip_state" where
  "sip_block m s =
     (let s = s\<lparr>v3 := v3 s XOR m\<rparr>; s = sipRound (sipRound s) in s\<lparr>v0 := v0 s XOR m\<rparr>)"

definition sip_final :: "sip_state \<Rightarrow> u64" where
  "sip_final s =
     (let s = s\<lparr>v2 := v2 s XOR 0xff\<rparr>; s = sipRound (sipRound (sipRound (sipRound s)))
      in v0 s XOR v1 s XOR v2 s XOR v3 s)"

text \<open>The loop over the whole words, and the loop that joins the bytes left over to the length.\<close>

function sip_loop :: "string \<Rightarrow> sip_state \<Rightarrow> sip_state \<times> string" where
  "sip_loop b s =
     (if length b < 8 then (s, b) else sip_loop (drop 8 b) (sip_block (Uint64 (take 8 b)) s))"
  by pat_completeness auto
termination
  by (relation "measure (\<lambda>(b, s). length b)") auto

declare sip_loop.simps [simp del]

fun sip_tail :: "u64 \<Rightarrow> nat \<Rightarrow> string \<Rightarrow> u64" where
  "sip_tail acc i [] = acc"
| "sip_tail acc i (c # s) = sip_tail (acc OR push_bit (8 * i) (byte_word c)) (Suc i) s"

definition SipHashBytes :: "string \<Rightarrow> string \<Rightarrow> u64" where
  "SipHashBytes k b =
     (case sip_loop b (sip_init k) of
        (s, rest) \<Rightarrow>
          sip_final (sip_block (sip_tail (push_bit 56 (word_of_int (int (length b)))) 0 rest) s))"

definition SipHash :: "string \<Rightarrow> string \<Rightarrow> u64" where
  "SipHash k s = SipHashBytes k s"

section \<open>The definition of SipHash-2-4\<close>

definition sip_pad :: "string \<Rightarrow> string" where
  "sip_pad b = b @ replicate (7 - length b mod 8) (char_of (0::int)) @ [char_of (int (length b) mod 256)]"

function sip_words :: "string \<Rightarrow> u64 list" where
  "sip_words b = (if length b < 8 then [] else Uint64 (take 8 b) # sip_words (drop 8 b))"
  by pat_completeness auto
termination
  by (relation "measure length") auto

declare sip_words.simps [simp del]

definition sip_spec :: "string \<Rightarrow> string \<Rightarrow> u64" where
  "sip_spec k b = sip_final (fold sip_block (sip_words (sip_pad b)) (sip_init k))"

section \<open>The code computes it\<close>

lemma le_word_zeros: "le_word n (replicate k (char_of (0::int)) @ s) = le_word (n + 8 * k) s"
proof (induction k arbitrary: n)
  case (Suc k)
  have "byte_word (char_of (0::int)) = 0" by (simp add: byte_word_def)
  then show ?case using Suc [of "n + 8"] by (simp add: ac_simps)
qed simp

lemma le_word_append: "le_word n (s @ t) = le_word n s OR le_word (n + 8 * length s) t"
  by (induction s arbitrary: n) (auto simp: or.assoc ac_simps)

lemma sip_tail_eq: "sip_tail acc i s = acc OR le_word (8 * i) s"
  by (induction s arbitrary: acc i) (auto simp: or.assoc ac_simps)

lemma push_bit_56_mod: "push_bit 56 (word_of_int (n mod 256)) = (push_bit 56 (word_of_int n) :: u64)"
proof (rule bit_word_eqI)
  fix i assume "i < LENGTH(64)"
  have "bit (n mod 256) (i - 56) = bit n (i - 56)" if "i < 64" "56 \<le> i"
    using that by (auto simp: bit_take_bit_iff simp flip: take_bit_eq_mod [of 8 n, simplified])
  then show "bit (push_bit 56 (word_of_int (n mod 256)) :: u64) i = bit (push_bit 56 (word_of_int n) :: u64) i"
    by (auto simp: bit_push_bit_iff bit_simps)
qed

lemma le_word_tail:
  assumes "length r < 8"
  shows "Uint64 (r @ replicate (7 - length r) (char_of (0::int)) @ [char_of (n mod 256)]) =
    sip_tail (push_bit 56 (word_of_int n)) 0 r"
proof -
  have "le_word 0 (r @ replicate (7 - length r) (char_of (0::int)) @ [char_of (n mod 256)]) =
      le_word 0 r OR le_word (8 * length r + 8 * (7 - length r)) [char_of (n mod 256)]"
    by (simp only: le_word_append [of _ r] le_word_zeros) simp
  also have "8 * length r + 8 * (7 - length r) = 56" using assms by simp
  also have "le_word 56 [char_of (n mod 256)] = push_bit 56 (word_of_int n)"
    by (simp add: byte_word_def push_bit_56_mod)
  finally show ?thesis
    using assms by (simp add: Uint64_def sip_tail_eq or.commute)
qed

lemma sip_loop_spec:
  "fold sip_block (sip_words (b @ replicate (7 - length b mod 8) (char_of (0::int)) @ [char_of (n mod 256)])) s =
    (case sip_loop b s of (s', r) \<Rightarrow> sip_block (sip_tail (push_bit 56 (word_of_int n)) 0 r) s')"
proof (induction b s rule: sip_loop.induct)
  case (1 b s)
  show ?case
  proof (cases "length b < 8")
    case True
    then have len: "length (b @ replicate (7 - length b mod 8) (char_of (0::int)) @ [char_of (n mod 256)]) = 8" by simp
    then have "sip_words (b @ replicate (7 - length b mod 8) (char_of (0::int)) @ [char_of (n mod 256)]) =
        [Uint64 (b @ replicate (7 - length b) (char_of (0::int)) @ [char_of (n mod 256)])]"
      using True by (subst sip_words.simps) (simp add: sip_words.simps [of "[]"])
    then show ?thesis using le_word_tail [OF True, of n] True by (simp add: sip_loop.simps [of b])
  next
    case False
    have "length (drop 8 b) mod 8 = length b mod 8" using False by (simp add: le_mod_geq)
    then show ?thesis
      using False 1 [OF False] by (subst sip_words.simps) (simp add: sip_loop.simps [of b])
  qed
qed

lemma SipHashBytes_sip_spec: "SipHashBytes k b = sip_spec k b"
  using sip_loop_spec [of b "int (length b)" "sip_init k"]
  by (simp add: SipHashBytes_def sip_spec_def sip_pad_def split: prod.splits)

section \<open>Test vectors\<close>

text \<open>The inputs of the published test vectors: the key \<open>00 01 ... 0f\<close> and the messages
  \<open>00 01 ... \<close> of a given length.\<close>

definition byte_seq :: "int \<Rightarrow> string" where
  "byte_seq n = map char_of [0..n - 1]"

lemma sip_vector_rounds:
  "sipRound \<lparr>v0 = 0x7469686173716475, v1 = 0x6b617f6d656e6665, v2 = 0x6b7f62616d677361, v3 = 0x7c6d6c6a717c6d7b\<rparr> =
     \<lparr>v0 = 0x64668a929363847f, v1 = 0x4ed232083d9aa8dc, v2 = 0xf2f74892d8141a2e, v3 = 0x9290f9810552f4a8\<rparr>"
  "sipRound \<lparr>v0 = 0x64668a929363847f, v1 = 0x4ed232083d9aa8dc, v2 = 0xf2f74892d8141a2e, v3 = 0x9290f9810552f4a8\<rparr> =
     \<lparr>v0 = 0x4d07749cdd0858e0, v1 = 0xd52f6f62a4f59a4, v2 = 0x634cb3577b01fd3d, v3 = 0xa5224d6f55c7d9c8\<rparr>"
  "sipRound \<lparr>v0 = 0x4a017198de0a59e0, v1 = 0xd52f6f62a4f59a4, v2 = 0x634cb3577b01fd3d, v3 = 0xaa2c40635ecdd0c0\<rparr> =
     \<lparr>v0 = 0x557560fb6063d060, v1 = 0x4c8e675bd961133e, v2 = 0xbd3d002b1703a181, v3 = 0xfb9441179a4a7315\<rparr>"
  "sipRound \<lparr>v0 = 0x557560fb6063d060, v1 = 0x4c8e675bd961133e, v2 = 0xbd3d002b1703a181, v3 = 0xfb9441179a4a7315\<rparr> =
     \<lparr>v0 = 0x338bbea7645fb759, v1 = 0x414fc3fb98efe374, v2 = 0xccf13ea527b9f4bd, v3 = 0x5293f5da84008f82\<rparr>"
  "sipRound \<lparr>v0 = 0x3c85b3ab6f55be51, v1 = 0x414fc3fb98efe374, v2 = 0xccf13ea527b9f442, v3 = 0x5293f5da84008f82\<rparr> =
     \<lparr>v0 = 0xf2a55244a20e48fe, v1 = 0xac5ad16ccc3ca6e4, v2 = 0x9fe5adb0a52f393a, v3 = 0xfd41d55e88f30308\<rparr>"
  "sipRound \<lparr>v0 = 0xf2a55244a20e48fe, v1 = 0xac5ad16ccc3ca6e4, v2 = 0x9fe5adb0a52f393a, v3 = 0xfd41d55e88f30308\<rparr> =
     \<lparr>v0 = 0xb6c3fbdecc2ae4b4, v1 = 0x1638c86adc6b3cf0, v2 = 0x28b8b6ab62553d46, v3 = 0xc9465e86ec43eb95\<rparr>"
  "sipRound \<lparr>v0 = 0xb6c3fbdecc2ae4b4, v1 = 0x1638c86adc6b3cf0, v2 = 0x28b8b6ab62553d46, v3 = 0xc9465e86ec43eb95\<rparr> =
     \<lparr>v0 = 0x58101b167209a5e6, v1 = 0xf8792ae75b66e7dd, v2 = 0x1da14c3ec7f0b4f7, v3 = 0x7624ba8a41bc4ad9\<rparr>"
  "sipRound \<lparr>v0 = 0x58101b167209a5e6, v1 = 0xf8792ae75b66e7dd, v2 = 0x1da14c3ec7f0b4f7, v3 = 0x7624ba8a41bc4ad9\<rparr> =
     \<lparr>v0 = 0xf6bcd53893fecff1, v1 = 0x54b9964c7ea0d937, v2 = 0x1b38329c099bb55a, v3 = 0x1814bb89ad7be679\<rparr>"
  by (simp_all add: sipRound_def rotl_def Let_def)

lemma sip_vector_init: "sip_init (byte_seq 16) =
    \<lparr>v0 = 0x7469686173716475, v1 = 0x6b617f6d656e6665, v2 = 0x6b7f62616d677361, v3 = 0x7b6b696e727e6c7b\<rparr>"
  by (simp add: sip_init_def byte_seq_def Uint64_def byte_word_def upto_rec1)

lemma sip_vector_block0: "sip_block 0x706050403020100 \<lparr>v0 = 0x7469686173716475, v1 = 0x6b617f6d656e6665, v2 = 0x6b7f62616d677361, v3 = 0x7b6b696e727e6c7b\<rparr> =
    \<lparr>v0 = 0x4a017198de0a59e0, v1 = 0xd52f6f62a4f59a4, v2 = 0x634cb3577b01fd3d, v3 = 0xa5224d6f55c7d9c8\<rparr>"
  by (simp add: sip_block_def sip_vector_rounds Let_def)

lemma sip_vector_block1: "sip_block 0xf0e0d0c0b0a0908 \<lparr>v0 = 0x4a017198de0a59e0, v1 = 0xd52f6f62a4f59a4, v2 = 0x634cb3577b01fd3d, v3 = 0xa5224d6f55c7d9c8\<rparr> =
    \<lparr>v0 = 0x3c85b3ab6f55be51, v1 = 0x414fc3fb98efe374, v2 = 0xccf13ea527b9f4bd, v3 = 0x5293f5da84008f82\<rparr>"
  by (simp add: sip_block_def sip_vector_rounds Let_def)

lemma sip_vector_final: "sip_final \<lparr>v0 = 0x3c85b3ab6f55be51, v1 = 0x414fc3fb98efe374, v2 = 0xccf13ea527b9f4bd, v3 = 0x5293f5da84008f82\<rparr> = 0xa129ca6149be45e5"
  by (simp add: sip_final_def sip_vector_rounds Let_def)

lemma sip_vector_words:
  "length (byte_seq 15) = 15" "Uint64 (take 8 (byte_seq 15)) = 0x706050403020100"
  "sip_tail 0xf00000000000000 0 (drop 8 (byte_seq 15)) = 0xf0e0d0c0b0a0908"
  by (simp_all add: byte_seq_def upto_rec1 Uint64_def byte_word_def)

lemma sip_vector: "SipHashBytes (byte_seq 16) (byte_seq 15) = 0xa129ca6149be45e5"
proof -
  have "sip_loop (byte_seq 15) s = (sip_block (Uint64 (take 8 (byte_seq 15))) s, drop 8 (byte_seq 15))" for s
    by (simp add: sip_loop.simps [of "byte_seq 15"] sip_loop.simps [of "drop 8 (byte_seq 15)"] sip_vector_words)
  then show ?thesis
    unfolding SipHashBytes_def sip_vector_init
    by (simp add: sip_vector_words sip_vector_block0 sip_vector_block1 sip_vector_final)
qed

text \<open>C32: \<open>SipHashBytes\<close> computes SipHash-2-4 for every key and message: the two loops of the code
  agree with padding the message and compressing it word by word. The code reproduces the test
  vector of the paper, the message of 15 bytes.\<close>

theorem SipHashBytes_correct:
  "SipHashBytes k b = sip_spec k b \<and>
   SipHashBytes (byte_seq 16) (byte_seq 15) = 0xa129ca6149be45e5"
  using SipHashBytes_sip_spec sip_vector by simp

end
