(* ===== verification/Netip.thy ===== *)
theory Netip
  imports Go_Prelude
begin

text \<open>
  The package \<open>net/netip\<close> as the inspector uses it: addresses, prefixes, their masking, and the
  textual forms \<open>ParseAddr\<close> and \<open>ParsePrefix\<close> accept. An address is the zero value, a 32-bit
  IPv4 address or a 128-bit IPv6 address with its zone; a prefix that is out of range has
  \<open>Bits() = -1\<close>, as in Go.
\<close>

datatype addr = AddrZero | IPv4 "32 word" | IPv6 "128 word" string

definition Is4 :: "addr \<Rightarrow> bool" where
  "Is4 a = (case a of IPv4 _ \<Rightarrow> True | _ \<Rightarrow> False)"

definition IsValid :: "addr \<Rightarrow> bool" where
  "IsValid a = (a \<noteq> AddrZero)"

definition BitLen :: "addr \<Rightarrow> nat" where
  "BitLen a = (case a of AddrZero \<Rightarrow> 0 | IPv4 _ \<Rightarrow> 32 | IPv6 _ _ \<Rightarrow> 128)"

definition Unmap :: "addr \<Rightarrow> addr" where
  "Unmap a = (case a of IPv6 w z \<Rightarrow> if drop_bit 32 w = 0xffff then IPv4 (ucast w) else a | _ \<Rightarrow> a)"

definition withoutZone :: "addr \<Rightarrow> addr" where
  "withoutZone a = (case a of IPv6 w _ \<Rightarrow> IPv6 w [] | _ \<Rightarrow> a)"

definition keep_top :: "nat \<Rightarrow> 'a::len word \<Rightarrow> 'a word" where
  "keep_top n w = push_bit (LENGTH('a) - n) (drop_bit (LENGTH('a) - n) w)"

record ip_prefix =
  pfx_addr :: addr
  pfx_bits :: int

definition prefix_zero :: ip_prefix where
  "prefix_zero = \<lparr>pfx_addr = AddrZero, pfx_bits = -1\<rparr>"

definition PrefixFrom :: "addr \<Rightarrow> int \<Rightarrow> ip_prefix" where
  "PrefixFrom a b =
     \<lparr>pfx_addr = withoutZone a,
      pfx_bits = (if IsValid a \<and> 0 \<le> b \<and> b \<le> int (BitLen a) then b else -1)\<rparr>"

definition Masked :: "ip_prefix \<Rightarrow> ip_prefix" where
  "Masked p =
     (if pfx_bits p < 0 \<or> pfx_bits p > int (BitLen (pfx_addr p)) then prefix_zero
      else case pfx_addr p of
        AddrZero \<Rightarrow> prefix_zero
      | IPv4 w \<Rightarrow> PrefixFrom (IPv4 (keep_top (nat (pfx_bits p)) w)) (pfx_bits p)
      | IPv6 w z \<Rightarrow> PrefixFrom (IPv6 (keep_top (nat (pfx_bits p)) w) z) (pfx_bits p))"

section \<open>Parsing\<close>

definition octet :: "string \<Rightarrow> int option" where
  "octet s =
     (if s = [] \<or> \<not> list_all is_digit s \<or> length s > 3 then None
      else if length s > 1 \<and> hd s = CHR ''0'' then None
      else if dec_val s > 255 then None
      else Some (dec_val s))"

definition parseIPv4Fields :: "string \<Rightarrow> int list option" where
  "parseIPv4Fields s =
     (case map octet (Split s CHR ''.'') of
        [Some a, Some b, Some c, Some d] \<Rightarrow> Some [a, b, c, d]
      | _ \<Rightarrow> None)"

definition be_word :: "int list \<Rightarrow> 'a::len word" where
  "be_word bs = word_of_int (foldl (\<lambda>n b. 256 * n + b) 0 bs)"

text \<open>The loop of \<open>parseIPv6\<close>: the bytes read so far, the position of the ellipsis, the rest of
  the text. Every round reads one or two bytes more, so sixteen rounds are enough; the first
  argument counts them down.\<close>

fun ipv6_loop :: "nat \<Rightarrow> int list \<Rightarrow> nat option \<Rightarrow> string \<Rightarrow> (int list \<times> nat option \<times> string) option" where
  "ipv6_loop 0 bs ell s = Some (bs, ell, s)"
| "ipv6_loop (Suc k) bs ell s =
     (if length bs \<ge> 16 then Some (bs, ell, s)
      else let h = takeWhile is_hex s; r = dropWhile is_hex s;
               acc = foldl (\<lambda>n c. 16 * n + hex_val c) 0 h
      in if length h > 4 \<or> h = [] then None
         else if r \<noteq> [] \<and> hd r = CHR ''.'' then
           (if ell = None \<and> length bs \<noteq> 12 \<or> length bs + 4 > 16 then None
            else case parseIPv4Fields s of None \<Rightarrow> None | Some f \<Rightarrow> Some (bs @ f, ell, []))
         else let bs' = bs @ [acc div 256, acc mod 256]
         in if r = [] then Some (bs', ell, [])
            else if hd r \<noteq> CHR '':'' \<or> length r = 1 then None
            else let t = tl r
            in if hd t = CHR '':'' then
                 (if ell \<noteq> None then None
                  else if tl t = [] then Some (bs', Some (length bs'), [])
                  else ipv6_loop k bs' (Some (length bs')) (tl t))
               else ipv6_loop k bs' ell t)"

definition parseIPv6 :: "string \<Rightarrow> addr option" where
  "parseIPv6 s0 =
     (let (s1, zone, has) = Cut s0 CHR ''%''
      in if has \<and> zone = [] then None
         else let lead = prefix ''::'' s1;
                  s = (if lead then drop 2 s1 else s1)
         in if lead \<and> s = [] then Some (IPv6 0 zone)
            else case ipv6_loop 16 [] (if lead then Some 0 else None) s of
              None \<Rightarrow> None
            | Some (bs, ell, rest) \<Rightarrow>
                if rest \<noteq> [] then None
                else if length bs < 16 then
                  (case ell of None \<Rightarrow> None
                   | Some e \<Rightarrow>
                       Some (IPv6 (be_word (take e bs @ replicate (16 - length bs) 0 @ drop e bs)) zone))
                else if ell \<noteq> None then None
                else Some (IPv6 (be_word bs) zone))"

fun ParseAddr_scan :: "string \<Rightarrow> string \<Rightarrow> addr option" where
  "ParseAddr_scan s [] = None"
| "ParseAddr_scan s (c # t) =
     (if c = CHR ''.'' then map_option (\<lambda>f. IPv4 (be_word f)) (parseIPv4Fields s)
      else if c = CHR '':'' then parseIPv6 s
      else if c = CHR ''%'' then None
      else ParseAddr_scan s t)"

definition ParseAddr :: "string \<Rightarrow> addr option" where
  "ParseAddr s = ParseAddr_scan s s"

definition ParsePrefix :: "string \<Rightarrow> ip_prefix option" where
  "ParsePrefix s =
     (if CHR ''/'' \<notin> set s then None
      else let bits = rev (takeWhile (\<lambda>c. c \<noteq> CHR ''/'') (rev s));
               host = take (length s - length bits - 1) s
      in case ParseAddr host of
           None \<Rightarrow> None
         | Some a \<Rightarrow>
             if withoutZone a \<noteq> a then None
             else if length bits > 1 \<and> (hd bits = CHR ''0'' \<or> \<not> is_digit (hd bits)) then None
             else case Atoi bits of
               None \<Rightarrow> None
             | Some n \<Rightarrow> if n < 0 \<or> n > int (BitLen a) then None else Some (PrefixFrom a n))"

section \<open>Coverage of an address by a prefix\<close>

text \<open>The specification: a prefix covers an address when they are of one family and agree on the
  first \<open>Bits()\<close> bits. IPv4-mapped addresses count as IPv4, and a zone is ignored.\<close>

definition covers :: "ip_prefix \<Rightarrow> addr \<Rightarrow> bool" where
  "covers p a =
     (case (pfx_addr p, Unmap a) of
        (IPv4 v, IPv4 w) \<Rightarrow> 0 \<le> pfx_bits p \<and> pfx_bits p \<le> 32 \<and>
          (\<forall>i < 32. 32 - nat (pfx_bits p) \<le> i \<longrightarrow> bit v i = bit w i)
      | (IPv6 v _, IPv6 w _) \<Rightarrow> 0 \<le> pfx_bits p \<and> pfx_bits p \<le> 128 \<and>
          (\<forall>i < 128. 128 - nat (pfx_bits p) \<le> i \<longrightarrow> bit v i = bit w i)
      | _ \<Rightarrow> False)"

text \<open>A prefix as the lists store it: masked, unmapped and within range.\<close>

definition canonical :: "ip_prefix \<Rightarrow> bool" where
  "canonical p = (0 \<le> pfx_bits p \<and> Masked p = p)"

lemma bit_keep_top:
  fixes w :: "'a::len word"
  assumes "n \<le> LENGTH('a)"
  shows "bit (keep_top n w) i \<longleftrightarrow> LENGTH('a) - n \<le> i \<and> bit w i"
  using assms bit_imp_le_length [of w i]
  by (auto simp: keep_top_def bit_push_bit_iff bit_drop_bit_eq)

lemma keep_top_eq_iff:
  fixes v w :: "'a::len word"
  assumes "n \<le> LENGTH('a)" and "keep_top n v = v"
  shows "keep_top n w = v \<longleftrightarrow> (\<forall>i < LENGTH('a). LENGTH('a) - n \<le> i \<longrightarrow> bit v i = bit w i)"
proof
  assume "keep_top n w = v"
  then show "\<forall>i < LENGTH('a). LENGTH('a) - n \<le> i \<longrightarrow> bit v i = bit w i"
    using bit_keep_top [OF assms(1), of w] by auto
next
  assume a: "\<forall>i < LENGTH('a). LENGTH('a) - n \<le> i \<longrightarrow> bit v i = bit w i"
  show "keep_top n w = v"
  proof (rule bit_word_eqI)
    fix i assume "i < LENGTH('a)"
    then show "bit (keep_top n w) i = bit v i"
      using a bit_keep_top [OF assms(1), of w i] bit_keep_top [OF assms(1), of v i] assms(2) by auto
  qed
qed

lemma keep_top_idem: "n \<le> LENGTH('a) \<Longrightarrow> keep_top n (keep_top n w) = keep_top n (w :: 'a::len word)"
  by (rule bit_word_eqI) (simp add: bit_keep_top)

lemma Unmap_idem [simp]: "Unmap (Unmap a) = Unmap a"
  by (auto simp: Unmap_def split: addr.splits)

lemma Unmap_valid [simp]: "IsValid (Unmap a) = IsValid a"
  by (auto simp: Unmap_def IsValid_def split: addr.splits)

lemma canonical_cases:
  assumes "canonical p"
  obtains (v4) v where "p = \<lparr>pfx_addr = IPv4 v, pfx_bits = pfx_bits p\<rparr>" "pfx_bits p \<le> 32"
      "keep_top (nat (pfx_bits p)) v = v" "0 \<le> pfx_bits p"
  | (v6) v where "p = \<lparr>pfx_addr = IPv6 v [], pfx_bits = pfx_bits p\<rparr>" "pfx_bits p \<le> 128"
      "keep_top (nat (pfx_bits p)) v = v" "0 \<le> pfx_bits p"
  using assms
  by (cases p) (auto simp: canonical_def Masked_def prefix_zero_def PrefixFrom_def withoutZone_def
      IsValid_def BitLen_def split: if_splits addr.splits)

text \<open>The step of the lookup: masking an unmapped address to the length of a canonical prefix
  gives that prefix exactly when the prefix covers the address.\<close>

lemma Masked_PrefixFrom_eq_iff:
  assumes "canonical p"
  shows "Masked (PrefixFrom (Unmap a) (pfx_bits p)) = p \<longleftrightarrow> covers p a"
  using assms
proof (cases rule: canonical_cases)
  case (v4 v)
  obtain b where p: "p = \<lparr>pfx_addr = IPv4 v, pfx_bits = b\<rparr>" using v4(1) by metis
  have "nat b \<le> 32" and "0 \<le> b" and "keep_top (nat b) v = v" using v4 p by auto
  then show ?thesis
    using keep_top_eq_iff [of "nat b" v]
    by (auto simp: p covers_def Masked_def PrefixFrom_def withoutZone_def IsValid_def BitLen_def
        prefix_zero_def split: addr.splits)
next
  case (v6 v)
  obtain b where p: "p = \<lparr>pfx_addr = IPv6 v [], pfx_bits = b\<rparr>" using v6(1) by metis
  have "nat b \<le> 128" and "0 \<le> b" and "keep_top (nat b) v = v" using v6 p by auto
  then show ?thesis
    using keep_top_eq_iff [of "nat b" v]
    by (auto simp: p covers_def Masked_def PrefixFrom_def withoutZone_def IsValid_def BitLen_def
        prefix_zero_def split: addr.splits)
qed

lemma canonical_Masked:
  assumes "0 \<le> pfx_bits (Masked p)"
  shows "canonical (Masked p)"
  using assms
  by (cases p) (auto simp: canonical_def Masked_def prefix_zero_def PrefixFrom_def withoutZone_def
      IsValid_def BitLen_def keep_top_idem split: if_splits addr.splits)

lemma Masked_bits: "pfx_bits (Masked p) = pfx_bits p \<or> pfx_bits (Masked p) = -1"
  by (auto simp: Masked_def prefix_zero_def PrefixFrom_def split: addr.splits)

lemma BitLen_withoutZone [simp]: "BitLen (withoutZone a) = BitLen a"
  by (simp add: BitLen_def withoutZone_def split: addr.splits)

lemma IsValid_withoutZone [simp]: "IsValid (withoutZone a) = IsValid a"
  by (simp add: IsValid_def withoutZone_def split: addr.splits)

lemma withoutZone_idem [simp]: "withoutZone (withoutZone a) = withoutZone a"
  by (simp add: withoutZone_def split: addr.splits)

lemma Unmap_withoutZone: "Unmap (withoutZone a) = withoutZone (Unmap a)"
  by (simp add: Unmap_def withoutZone_def split: addr.splits)

lemma Masked_PrefixFrom_ok:
  "IsValid a \<Longrightarrow> 0 \<le> b \<Longrightarrow> b \<le> int (BitLen a) \<Longrightarrow> pfx_bits (Masked (PrefixFrom a b)) = b"
  by (auto simp: Masked_def PrefixFrom_def withoutZone_def IsValid_def BitLen_def split: addr.splits)

lemma Masked_PrefixFrom_bad:
  "\<not> (0 \<le> b \<and> b \<le> int (BitLen a)) \<Longrightarrow> Masked (PrefixFrom a b) = prefix_zero"
  by (auto simp: Masked_def PrefixFrom_def)

lemma ParseAddr_valid: "ParseAddr s = Some a \<Longrightarrow> IsValid a"
proof -
  have "ParseAddr_scan s t = Some a \<Longrightarrow> IsValid a" for t
    by (induction t)
      (auto simp: IsValid_def parseIPv6_def Let_def split: if_splits option.splits prod.splits)
  then show "ParseAddr s = Some a \<Longrightarrow> IsValid a" by (simp add: ParseAddr_def)
qed

lemma ParsePrefix_ok:
  assumes "ParsePrefix s = Some p"
  shows "IsValid (pfx_addr p) \<and> withoutZone (pfx_addr p) = pfx_addr p \<and>
     0 \<le> pfx_bits p \<and> pfx_bits p \<le> int (BitLen (pfx_addr p))"
  using assms ParseAddr_valid
  by (fastforce simp: ParsePrefix_def Let_def PrefixFrom_def split: if_splits option.splits)

lemma canonical_bits: "canonical p \<Longrightarrow> 0 \<le> pfx_bits p \<and> pfx_bits p \<le> int (BitLen (pfx_addr p))"
  by (auto simp: canonical_def Masked_def prefix_zero_def split: if_splits)

end
