(* ===== verification/Go_Time.thy ===== *)
theory Go_Time
  imports Go_Prelude
begin

text \<open>
  The package \<open>time\<close> as the inspector uses it: a duration is a signed 64-bit count of
  nanoseconds, kept here as an \<^typ>\<open>int\<close> with the wrap-around of the multiplications written
  out, and \<open>time.ParseDuration\<close> is translated with its overflow checks.
\<close>

type_synonym duration = int

definition wrap64 :: "int \<Rightarrow> int" where
  "wrap64 x = (x + 2 ^ 63) mod 2 ^ 64 - 2 ^ 63"

abbreviation Millisecond :: duration where "Millisecond \<equiv> 1000000"
abbreviation Second :: duration where "Second \<equiv> 1000000000"
abbreviation Hour :: duration where "Hour \<equiv> 3600000000000"

lemma wrap64_id: "- (2 ^ 63) \<le> x \<Longrightarrow> x < 2 ^ 63 \<Longrightarrow> wrap64 x = x"
  by (simp add: wrap64_def)

lemma wrap64_range: "- (2 ^ 63) \<le> wrap64 x \<and> wrap64 x < 2 ^ 63"
  using pos_mod_bound [of "2 ^ 64" "x + 2 ^ 63"] pos_mod_sign [of "2 ^ 64" "x + 2 ^ 63"]
  by (simp add: wrap64_def)

section \<open>\<open>time.ParseDuration\<close>\<close>

fun leading_int :: "int \<Rightarrow> string \<Rightarrow> (int \<times> string) option" where
  "leading_int x [] = Some (x, [])"
| "leading_int x (c # s) =
     (if \<not> is_digit c then Some (x, c # s)
      else if x > 2 ^ 63 div 10 then None
      else if 10 * x + digit_val c > 2 ^ 63 then None
      else leading_int (10 * x + digit_val c) s)"

fun leading_fraction :: "int \<Rightarrow> int \<Rightarrow> bool \<Rightarrow> string \<Rightarrow> int \<times> int \<times> string" where
  "leading_fraction x scale overflow [] = (x, scale, [])"
| "leading_fraction x scale overflow (c # s) =
     (if \<not> is_digit c then (x, scale, c # s)
      else if overflow \<or> x > (2 ^ 63 - 1) div 10 \<or> 10 * x + digit_val c > 2 ^ 63
        then leading_fraction x scale True s
      else leading_fraction (10 * x + digit_val c) (10 * scale) False s)"

definition unit_map :: "string \<Rightarrow> int option" where
  "unit_map u =
     (if u = ''ns'' then Some 1
      else if u = ''us'' \<or> map of_char u = [194, 181, 115::int] \<or> map of_char u = [206, 188, 115::int]
        then Some 1000
      else if u = ''ms'' then Some 1000000
      else if u = ''s'' then Some 1000000000
      else if u = ''m'' then Some 60000000000
      else if u = ''h'' then Some 3600000000000
      else None)"

definition unit_char :: "char \<Rightarrow> bool" where
  "unit_char c = (c \<noteq> CHR ''.'' \<and> \<not> is_digit c)"

text \<open>One round of the loop: a number with an optional fraction and its unit.\<close>

definition duration_item :: "go_lib \<Rightarrow> string \<Rightarrow> (int \<times> string) option" where
  "duration_item L s =
     (if s = [] \<or> \<not> (hd s = CHR ''.'' \<or> is_digit (hd s)) then None
      else case leading_int 0 s of
        None \<Rightarrow> None
      | Some (v, s1) \<Rightarrow>
          let pre = (length s1 \<noteq> length s);
              dot = (s1 \<noteq> [] \<and> hd s1 = CHR ''.'');
              (f, scale, s2) = (if dot then leading_fraction 0 1 False (tl s1) else (0, 1, s1));
              post = (dot \<and> length s2 \<noteq> length (tl s1));
              u = takeWhile unit_char s2;
              s3 = dropWhile unit_char s2
          in if \<not> pre \<and> \<not> post then None
             else if u = [] then None
             else case unit_map u of
               None \<Rightarrow> None
             | Some unit \<Rightarrow>
                 if v > 2 ^ 63 div unit then None
                 else let w = (if f > 0 then (v * unit + frac_ns L f scale unit) mod 2 ^ 64
                               else v * unit)
                      in if f > 0 \<and> w > 2 ^ 63 then None else Some (w, s3))"

lemma leading_int_length: "leading_int x s = Some (y, t) \<Longrightarrow> length t \<le> length s"
  by (induction x s rule: leading_int.induct) (auto split: if_splits)

lemma leading_fraction_length: "leading_fraction x sc ov s = (y, z, t) \<Longrightarrow> length t \<le> length s"
  by (induction x sc ov s rule: leading_fraction.induct) (auto split: if_splits)

lemma duration_item_shorter: "duration_item L s = Some (v, t) \<Longrightarrow> length t < length s"
proof -
  assume a: "duration_item L s = Some (v, t)"
  from a obtain n s1 where li: "leading_int 0 s = Some (n, s1)"
    by (auto simp: duration_item_def split: if_splits option.splits)
  define dot where "dot = (s1 \<noteq> [] \<and> hd s1 = CHR ''.'')"
  obtain f scale s2 where fr:
    "(if dot then leading_fraction 0 1 False (tl s1) else (0, 1, s1)) = (f, scale, s2)"
    by (metis prod_cases3)
  have t: "t = dropWhile unit_char s2 \<and> takeWhile unit_char s2 \<noteq> []"
    using a li fr unfolding dot_def
    by (auto simp: duration_item_def Let_def split: if_splits option.splits)
  have "length s2 \<le> length s1"
    using fr by (auto split: if_splits dest!: leading_fraction_length)
  moreover have "length s1 \<le> length s"
    using li by (rule leading_int_length)
  moreover have "length t < length s2"
  proof -
    have "length s2 = length (takeWhile unit_char s2) + length (dropWhile unit_char s2)"
      by (metis length_append takeWhile_dropWhile_id)
    then show ?thesis using t by simp
  qed
  ultimately show ?thesis by simp
qed

function duration_loop :: "go_lib \<Rightarrow> int \<Rightarrow> string \<Rightarrow> int option" where
  "duration_loop L d s =
     (if s = [] then Some d
      else case duration_item L s of
        None \<Rightarrow> None
      | Some (v, t) \<Rightarrow>
          if (d + v) mod 2 ^ 64 > 2 ^ 63 then None else duration_loop L ((d + v) mod 2 ^ 64) t)"
  by pat_completeness auto
termination
  by (relation "measure (\<lambda>(L, d, s). length s)") (auto dest: duration_item_shorter)

declare duration_loop.simps [simp del]

definition ParseDuration :: "go_lib \<Rightarrow> string \<Rightarrow> duration option" where
  "ParseDuration L s0 =
     (let neg = (s0 \<noteq> [] \<and> hd s0 = CHR ''-'');
          s = (if s0 \<noteq> [] \<and> (hd s0 = CHR ''-'' \<or> hd s0 = CHR ''+'') then tl s0 else s0)
      in if s = ''0'' then Some 0
         else if s = [] then None
         else case duration_loop L 0 s of
           None \<Rightarrow> None
         | Some d \<Rightarrow>
             if neg then Some (- d)
             else if d > 2 ^ 63 - 1 then None
             else Some d)"

lemma duration_loop_bound:
  "0 \<le> d \<Longrightarrow> d \<le> 2 ^ 63 \<Longrightarrow> duration_loop L d s = Some r \<Longrightarrow> 0 \<le> r \<and> r \<le> 2 ^ 63"
proof (induction L d s rule: duration_loop.induct)
  case (1 L d s)
  then show ?case
    by (subst (asm) (2) duration_loop.simps) (auto split: if_splits option.splits)
qed

lemma ParseDuration_range:
  "ParseDuration L s = Some d \<Longrightarrow> - (2 ^ 63) \<le> d \<and> d < 2 ^ 63"
  using duration_loop_bound [of 0 L]
  by (fastforce simp: ParseDuration_def Let_def split: if_splits option.splits)

end
