(* ===== verification/Wafs.thy ===== *)
theory Wafs
  imports Siphash Netip Go_Time
begin

text \<open>
  \<open>internal/livelist/wafs.go\<close>: the WAFS object, a snapshot of a dynamic list or a package of
  changes to it. The position in the buffer is the rest of the buffer here; a slice or a fixed
  width read past its end panics, and the guards of the code are what keeps it from happening.
  \<open>pack\<close> writes the format down: it is what the reader expects, not code of the inspector.
\<close>

abbreviation kindSnapshot :: int where "kindSnapshot \<equiv> 1"
abbreviation kindPackage :: int where "kindPackage \<equiv> 2"
abbreviation typeCIDR :: int where "typeCIDR \<equiv> 1"
abbreviation typeString :: int where "typeString \<equiv> 2"
abbreviation recAdd :: int where "recAdd \<equiv> 1"
abbreviation recRemove :: int where "recRemove \<equiv> 2"
abbreviation packHeader :: nat where "packHeader \<equiv> 52"

definition packMagic :: string where "packMagic = ''WAFS''"

record pack_head =
  hd_kind :: int
  hd_typ :: int
  hd_flags :: int
  hd_epoch :: u64
  hd_seq :: u64
  hd_hash :: u64
  hd_key :: string
  hd_count :: u64

record pack_record =
  rc_op :: int
  rc_prefix :: ip_prefix
  rc_value :: string
  rc_exp :: int
  rc_reason :: string

definition addr_bytes :: "addr \<Rightarrow> string" where
  "addr_bytes a =
     (case a of
        IPv4 w \<Rightarrow> map (\<lambda>i. char_of (uint (drop_bit (8 * i) w) mod 256)) (rev [0..<4])
      | IPv6 w _ \<Rightarrow> map (\<lambda>i. char_of (uint (drop_bit (8 * i) w) mod 256)) (rev [0..<16])
      | AddrZero \<Rightarrow> replicate 16 (char_of (0::int)))"

definition prefixMaterial :: "ip_prefix \<Rightarrow> string" where
  "prefixMaterial p =
     (if Is4 (pfx_addr p) then char_of (4::int) # char_of (pfx_bits p mod 256) # addr_bytes (pfx_addr p)
      else char_of (6::int) # char_of (pfx_bits p mod 256) # addr_bytes (pfx_addr p))"

section \<open>Reading\<close>

datatype pack_err = PackShort | PackMagic | PackVersion | PackFamily int | PackSetType int

definition slice :: "nat \<Rightarrow> string \<Rightarrow> (pack_err, string \<times> string) outcome" where
  "slice n s = (if length s < n then Panic else Ok (take n s, drop n s))"

definition guard :: "nat \<Rightarrow> string \<Rightarrow> (pack_err, unit) outcome" where
  "guard n s = (if length s < n then Err PackShort else Ok ())"

definition byte_at :: "string \<Rightarrow> nat \<Rightarrow> int" where
  "byte_at s i = byte (s ! i)"

definition be_bytes :: "string \<Rightarrow> int list" where
  "be_bytes s = map of_char s"

text \<open>The address of a record, after its family and length.\<close>

definition read_prefix :: "string \<Rightarrow> (pack_err, ip_prefix \<times> string) outcome" where
  "read_prefix s =
     obind (guard 2 s) (\<lambda>_. obind (slice 2 s) (\<lambda>(fb, s).
       let fam = byte_at fb 0; bits = byte_at fb 1
       in if fam = 4 then
            obind (guard (4 + 8) s) (\<lambda>_. obind (slice 4 s) (\<lambda>(b, s).
              Ok (PrefixFrom (IPv4 (be_word (be_bytes b))) bits, s)))
          else if fam = 6 then
            obind (guard (16 + 8) s) (\<lambda>_. obind (slice 16 s) (\<lambda>(b, s).
              Ok (PrefixFrom (IPv6 (be_word (be_bytes b)) []) bits, s)))
          else Err (PackFamily fam)))"

definition read_text :: "nat \<Rightarrow> string \<Rightarrow> (pack_err, string \<times> string) outcome" where
  "read_text extra s =
     obind (guard 2 s) (\<lambda>_. obind (slice 2 s) (\<lambda>(nb, s).
       let n = unat (le_word 0 nb)
       in obind (guard (n + extra) s) (\<lambda>_. slice n s)))"

definition read_record :: "int \<Rightarrow> int \<Rightarrow> string \<Rightarrow> (pack_err, pack_record \<times> string) outcome" where
  "read_record typ flags s =
     obind (guard 1 s) (\<lambda>_. obind (slice 1 s) (\<lambda>(ob, s).
     obind (if typ = typeCIDR then obind (read_prefix s) (\<lambda>(p, s). Ok (p, [], s))
            else if typ = typeString then obind (read_text 8 s) (\<lambda>(v, s). Ok (prefix_zero, v, s))
            else Err (PackSetType typ)) (\<lambda>(p, v, s).
     obind (slice 8 s) (\<lambda>(eb, s).
     obind (if typ = typeString \<and> flags AND 1 \<noteq> 0 then read_text 0 s else Ok ([], s)) (\<lambda>(reason, s).
       Ok (\<lparr>rc_op = byte_at ob 0, rc_prefix = p, rc_value = v, rc_exp = sint (le_word 0 eb),
            rc_reason = reason\<rparr>, s))))))"

fun read_records :: "nat \<Rightarrow> int \<Rightarrow> int \<Rightarrow> string \<Rightarrow> (pack_err, pack_record list) outcome" where
  "read_records 0 typ flags s = Ok []"
| "read_records (Suc n) typ flags s =
     obind (read_record typ flags s) (\<lambda>(r, s). obind (read_records n typ flags s) (\<lambda>rs. Ok (r # rs)))"

definition read_head :: "string \<Rightarrow> pack_head" where
  "read_head data =
     \<lparr>hd_kind = byte_at data 5, hd_typ = byte_at data 6, hd_flags = byte_at data 7,
      hd_epoch = Uint64 (drop 8 data), hd_seq = Uint64 (drop 16 data), hd_hash = Uint64 (drop 24 data),
      hd_key = take 16 (drop 32 data), hd_count = le_word 0 (take 4 (drop 48 data))\<rparr>"

definition unpack :: "string \<Rightarrow> (pack_err, pack_head \<times> pack_record list) outcome" where
  "unpack data =
     (if length data < packHeader then Err PackShort
      else if take 4 data \<noteq> packMagic then Err PackMagic
      else if byte_at data 4 \<noteq> 1 then Err PackVersion
      else let head = read_head data
      in obind (read_records (unat (hd_count head)) (hd_typ head) (hd_flags head) (drop packHeader data))
           (\<lambda>recs. Ok (head, recs)))"

section \<open>The format\<close>

fun le_bytes :: "nat \<Rightarrow> u64 \<Rightarrow> string" where
  "le_bytes 0 w = []"
| "le_bytes (Suc k) w = char_of (uint w mod 256) # le_bytes k (drop_bit 8 w)"

definition pack_text :: "string \<Rightarrow> string" where
  "pack_text v = le_bytes 2 (word_of_nat (length v)) @ v"

definition pack_record_bytes :: "int \<Rightarrow> int \<Rightarrow> pack_record \<Rightarrow> string" where
  "pack_record_bytes typ flags r =
     char_of (rc_op r) #
     (if typ = typeCIDR then prefixMaterial (rc_prefix r) else pack_text (rc_value r)) @
     le_bytes 8 (word_of_int (rc_exp r)) @
     (if typ = typeString \<and> flags AND 1 \<noteq> 0 then pack_text (rc_reason r) else [])"

definition pack :: "pack_head \<Rightarrow> pack_record list \<Rightarrow> string" where
  "pack h rs =
     packMagic @ [char_of (1::int), char_of (hd_kind h), char_of (hd_typ h), char_of (hd_flags h)] @
     le_bytes 8 (hd_epoch h) @ le_bytes 8 (hd_seq h) @ le_bytes 8 (hd_hash h) @ hd_key h @
     le_bytes 4 (hd_count h) @ concat (map (pack_record_bytes (hd_typ h) (hd_flags h)) rs)"

section \<open>Reading never runs past the end\<close>

lemma guard_slice: "obind (guard n s) (\<lambda>_. obind (slice m s) f) \<noteq> Panic"
  if "m \<le> n" and "\<And>x y. f (x, y) \<noteq> Panic"
  using that by (auto simp: guard_def slice_def)

lemma guard_Ok: "guard n s = Ok u \<longleftrightarrow> n \<le> length s"
  by (auto simp: guard_def)

lemma guard_not_Panic [simp]: "guard n s \<noteq> Panic"
  by (simp add: guard_def)

lemma slice_Panic: "slice n s = Panic \<longleftrightarrow> length s < n"
  by (simp add: slice_def)

lemma slice_Ok: "slice n s = Ok (a, b) \<longleftrightarrow> n \<le> length s \<and> a = take n s \<and> b = drop n s"
  by (auto simp: slice_def)

lemma read_prefix_ok:
  "read_prefix s \<noteq> Panic \<and> (read_prefix s = Ok (p, t) \<longrightarrow> 8 \<le> length t)"
  by (auto simp: read_prefix_def Let_def obind_Panic obind_Ok guard_Ok slice_Panic slice_Ok split: if_splits)

lemma read_text_ok:
  "read_text n s \<noteq> Panic \<and> (read_text n s = Ok (v, t) \<longrightarrow> n \<le> length t)"
  by (auto simp: read_text_def Let_def obind_Panic obind_Ok guard_Ok slice_Panic slice_Ok)

lemma read_record_not_Panic: "read_record typ flags s \<noteq> Panic"
  using read_prefix_ok read_text_ok
  by (auto simp: read_record_def obind_Panic obind_Ok guard_Ok slice_Panic slice_Ok not_less split: if_splits)

lemma read_records_not_Panic: "read_records n typ flags s \<noteq> Panic"
  by (induction n arbitrary: s) (auto simp: obind_Panic read_record_not_Panic)

lemma unpack_not_Panic: "unpack data \<noteq> Panic"
  by (auto simp: unpack_def Let_def obind_Panic read_records_not_Panic)

section \<open>Reading inverts the format\<close>

lemma length_le_bytes [simp]: "length (le_bytes k w) = k"
  by (induction k arbitrary: w) auto

lemma byte_word_low: "byte_word (char_of (uint w)) = take_bit 8 w"
proof -
  have "byte (char_of (uint w)) = take_bit 8 (uint w)" by (simp add: take_bit_eq_mod)
  then show ?thesis
    unfolding byte_word_def by (intro bit_word_eqI) (auto simp: bit_simps)
qed

lemma le_word_bytes: "le_word n (le_bytes k w) = push_bit n (take_bit (8 * k) w)"
proof (induction k arbitrary: n w)
  case (Suc k)
  have "push_bit n (take_bit 8 w) OR push_bit (n + 8) (take_bit (8 * k) (drop_bit 8 w)) =
      push_bit n (take_bit (8 * Suc k) w)"
  proof (rule bit_word_eqI)
    fix i assume i: "i < LENGTH(64)"
    show "bit (push_bit n (take_bit 8 w) OR push_bit (n + 8) (take_bit (8 * k) (drop_bit 8 w))) i =
        bit (push_bit n (take_bit (8 * Suc k) w)) i"
    proof (cases "n + 8 \<le> i")
      case True
      then have "8 + (i - (n + 8)) = i - n" by simp
      then show ?thesis using True i by (auto simp: bit_simps)
    next
      case False
      then show ?thesis using i by (auto simp: bit_simps)
    qed
  qed
  then show ?case using Suc by (simp add: byte_word_low)
qed simp

lemma foldl_be:
  "foldl (\<lambda>n b. 256 * n + b) a (map (\<lambda>i. x div 256 ^ i mod 256) (rev [0..<k])) = a * 256 ^ k + x mod 256 ^ k"
  for x a :: int
proof (induction k arbitrary: a)
  case (Suc k)
  have "x mod 256 ^ Suc k = 256 ^ k * (x div 256 ^ k mod 256) + x mod 256 ^ k"
    using zmod_zmult2_eq [of 256 x "256 ^ k"] by (simp add: mult.commute)
  then show ?case by (simp add: Suc) (simp add: distrib_right)
qed simp

definition head_ok :: "pack_head \<Rightarrow> bool" where
  "head_ok h \<longleftrightarrow> hd_kind h \<in> {0..255} \<and> hd_typ h \<in> {typeCIDR, typeString} \<and> hd_flags h \<in> {0..255} \<and>
     length (hd_key h) = 16 \<and> hd_count h < 2 ^ 32"

definition pack_record_ok :: "int \<Rightarrow> int \<Rightarrow> pack_record \<Rightarrow> bool" where
  "pack_record_ok typ flags r \<longleftrightarrow>
     rc_op r \<in> {0..255} \<and> - (2 ^ 63) \<le> rc_exp r \<and> rc_exp r < 2 ^ 63 \<and>
     (if typ = typeCIDR
      then rc_value r = [] \<and> 0 \<le> pfx_bits (rc_prefix r) \<and>
        (\<exists>a. IsValid a \<and> rc_prefix r = PrefixFrom a (pfx_bits (rc_prefix r)))
      else rc_prefix r = prefix_zero \<and> length (rc_value r) < 2 ^ 16) \<and>
     (if typ = typeString \<and> flags AND 1 \<noteq> 0 then length (rc_reason r) < 2 ^ 16 else rc_reason r = [])"

lemma le_bytes_word8: "le_word 0 (le_bytes 8 w) = w"
  by (rule bit_word_eqI) (simp add: le_word_bytes bit_simps)

lemma uint_drop_byte: "uint (drop_bit (8 * i) x) = uint x div 256 ^ i"
proof -
  have "uint (drop_bit (8 * i) x) = drop_bit (8 * i) (uint x)" by transfer (simp add: drop_bit_take_bit)
  then show ?thesis by (simp add: drop_bit_eq_div power_mult)
qed

lemma be_word_fold:
  assumes "LENGTH('a::len) = 8 * k"
  shows "be_word (be_bytes (map (\<lambda>i. char_of (uint (drop_bit (8 * i) w) mod 256)) (rev [0..<k]))) = (w :: 'a word)"
proof -
  have "be_bytes (map (\<lambda>i. char_of (uint (drop_bit (8 * i) w) mod 256)) (rev [0..<k])) =
      map (\<lambda>i. uint w div 256 ^ i mod 256) (rev [0..<k])"
    by (simp add: be_bytes_def uint_drop_byte)
  moreover have "uint w mod 256 ^ k = uint w"
    using uint_lt2p [of w] assms by (simp add: power_mult)
  ultimately show ?thesis by (simp add: be_word_def foldl_be)
qed

lemma be_word_addr:
  "be_word (be_bytes (addr_bytes (IPv4 w))) = w" "be_word (be_bytes (addr_bytes (IPv6 u z))) = u"
  using be_word_fold [of 4 w] be_word_fold [of 16 u] by (simp_all add: addr_bytes_def)

lemma length_addr_bytes [simp]: "length (addr_bytes (IPv4 w)) = 4" "length (addr_bytes (IPv6 u z)) = 16"
  by (simp_all add: addr_bytes_def)

lemma slice_append [simp]: "length a = n \<Longrightarrow> slice n (a @ b) = Ok (a, b)"
  by (simp add: slice_def)

lemma guard_append [simp]: "n \<le> length a + length b \<Longrightarrow> guard n (a @ b) = Ok ()"
  by (simp add: guard_def)

lemma read_text_pack:
  assumes "length v < 2 ^ 16" and "extra \<le> length t"
  shows "read_text extra (pack_text v @ t) = Ok (v, t)"
proof -
  have "unat (le_word 0 (le_bytes 2 (word_of_nat (length v)))) = length v"
    using assms(1) by (simp add: le_word_bytes unsigned_take_bit_eq unsigned_of_nat take_bit_nat_eq_self)
  then show ?thesis
    using assms(2) by (simp add: read_text_def pack_text_def guard_def Let_def slice_append)
qed

lemma read_prefix_bytes:
  assumes "0 \<le> b" and "b < 256" and "8 \<le> length t"
  shows "read_prefix (char_of (4::int) # char_of b # addr_bytes (IPv4 w) @ t) = Ok (PrefixFrom (IPv4 w) b, t)"
    and "read_prefix (char_of (6::int) # char_of b # addr_bytes (IPv6 u []) @ t) = Ok (PrefixFrom (IPv6 u []) b, t)"
proof -
  have two: "guard 2 (x # y # s) = Ok ()" "slice 2 (x # y # s) = Ok ([x, y], s)" for x y s
    by (simp_all add: guard_def slice_def)
  have "byte (char_of b) = b" using assms(1,2) by simp
  then show "read_prefix (char_of (4::int) # char_of b # addr_bytes (IPv4 w) @ t) = Ok (PrefixFrom (IPv4 w) b, t)"
    and "read_prefix (char_of (6::int) # char_of b # addr_bytes (IPv6 u []) @ t) = Ok (PrefixFrom (IPv6 u []) b, t)"
    using assms(3) by (simp_all add: read_prefix_def two byte_at_def be_word_addr Let_def)
qed

lemma read_prefix_pack:
  assumes "IsValid a" and "p = PrefixFrom a (pfx_bits p)" and "0 \<le> pfx_bits p" and "8 \<le> length t"
  shows "read_prefix (prefixMaterial p @ t) = Ok (p, t)"
proof -
  obtain b where p: "p = \<lparr>pfx_addr = withoutZone a, pfx_bits = b\<rparr>" and b: "0 \<le> b" "b \<le> int (BitLen a)"
    using assms(1-3) by (cases p) (auto simp: PrefixFrom_def split: if_splits)
  show ?thesis
  proof (cases a)
    case (IPv4 w)
    then show ?thesis
      using b read_prefix_bytes(1) [of b t w] assms(4)
      by (simp add: p prefixMaterial_def withoutZone_def Is4_def BitLen_def PrefixFrom_def IsValid_def)
  next
    case (IPv6 u z)
    then show ?thesis
      using b read_prefix_bytes(2) [of b t u] assms(4)
      by (simp add: p prefixMaterial_def withoutZone_def Is4_def BitLen_def PrefixFrom_def IsValid_def)
  qed (use assms(1) in \<open>simp add: IsValid_def\<close>)
qed

lemma read_record_pack:
  assumes "pack_record_ok typ flags r" and "typ \<in> {typeCIDR, typeString}"
  shows "read_record typ flags (pack_record_bytes typ flags r @ t) = Ok (r, t)"
proof -
  let ?e = "le_bytes 8 (word_of_int (rc_exp r))"
  let ?tl = "(if typ = typeString \<and> flags AND 1 \<noteq> 0 then pack_text (rc_reason r) else []) @ t"
  have one: "guard (Suc 0) (x # s) = Ok ()" "slice (Suc 0) (x # s) = Ok ([x], s)" for x s
    by (simp_all add: guard_def slice_def)
  have op: "rc_op r mod 256 = rc_op r" using assms(1) by (simp add: pack_record_ok_def)
  have exp: "sint (word_of_int (rc_exp r) :: u64) = rc_exp r"
    using assms(1) by (simp add: pack_record_ok_def signed_of_int signed_take_bit_int_eq_self)
  have key: "(if typ = typeCIDR then obind (read_prefix (prefixMaterial (rc_prefix r) @ ?e @ ?tl)) (\<lambda>(p, s). Ok (p, [], s))
      else if typ = typeString then obind (read_text 8 (pack_text (rc_value r) @ ?e @ ?tl)) (\<lambda>(v, s). Ok (prefix_zero, v, s))
      else Err (PackSetType typ)) = Ok (rc_prefix r, rc_value r, ?e @ ?tl)"
    using assms read_prefix_pack [of _ "rc_prefix r" "?e @ ?tl"] read_text_pack [of "rc_value r" 8 "?e @ ?tl"]
    by (auto simp: pack_record_ok_def)
  have reason: "(if typ = typeString \<and> flags AND 1 \<noteq> 0 then read_text 0 ?tl else Ok ([], ?tl)) = Ok (rc_reason r, t)"
    using assms read_text_pack [of "rc_reason r" 0 t] by (auto simp: pack_record_ok_def)
  show ?thesis
  proof (cases "typ = typeCIDR")
    case True
    then have "rc_reason r = []" using assms(1) by (simp add: pack_record_ok_def)
    then show ?thesis using True key
      by (simp add: read_record_def pack_record_bytes_def one byte_at_def op le_bytes_word8 exp)
  next
    case False
    then have ty: "typ = typeString" using assms(2) by simp
    have "flags AND 1 = 0 \<Longrightarrow> rc_reason r = []" using assms(1) ty by (simp add: pack_record_ok_def)
    then show ?thesis using key reason ty
      by (cases "flags AND 1 = 0")
        (simp_all add: read_record_def pack_record_bytes_def one byte_at_def op le_bytes_word8 exp)
  qed
qed

lemma read_records_pack:
  "\<forall>r \<in> set rs. pack_record_ok typ flags r \<Longrightarrow> typ \<in> {typeCIDR, typeString} \<Longrightarrow>
     read_records (length rs) typ flags (concat (map (pack_record_bytes typ flags) rs) @ t) = Ok rs"
  by (induction rs) (auto simp: read_record_pack)

lemma read_head_pack:
  assumes "head_ok h"
  shows "read_head (pack h rs @ t) = h" and "take 4 (pack h rs @ t) = packMagic"
    and "byte_at (pack h rs @ t) 4 = 1" and "packHeader \<le> length (pack h rs @ t)"
    and "drop packHeader (pack h rs @ t) = concat (map (pack_record_bytes (hd_typ h) (hd_flags h)) rs) @ t"
proof -
  let ?rest = "concat (map (pack_record_bytes (hd_typ h) (hd_flags h)) rs) @ t"
  define a where "a = packMagic @ [char_of (1::int), char_of (hd_kind h), char_of (hd_typ h), char_of (hd_flags h)]"
  have a8: "length a = 8" by (simp add: a_def packMagic_def)
  have eq: "pack h rs @ t = a @ le_bytes 8 (hd_epoch h) @ le_bytes 8 (hd_seq h) @ le_bytes 8 (hd_hash h) @ hd_key h @
      le_bytes 4 (hd_count h) @ ?rest"
    by (simp add: pack_def a_def)
  have k16: "length (hd_key h) = 16" using assms by (simp add: head_ok_def)
  have bytes: "byte_at a 4 = 1" "byte_at a 5 = hd_kind h" "byte_at a 6 = hd_typ h" "byte_at a 7 = hd_flags h"
    using assms by (auto simp: a_def packMagic_def byte_at_def head_ok_def)
  then have b: "byte_at (pack h rs @ t) 4 = 1" "byte_at (pack h rs @ t) 5 = hd_kind h"
      "byte_at (pack h rs @ t) 6 = hd_typ h" "byte_at (pack h rs @ t) 7 = hd_flags h"
    unfolding eq byte_at_def by (simp_all add: nth_append a8)
  have d8: "drop (8 + n) (a @ x) = drop n x" "drop (8 + n) (le_bytes 8 w @ x) = drop n x" for n x w
    by (simp_all add: a8)
  have d: "drop 8 (a @ x) = x" "drop 16 (a @ le_bytes 8 u @ x) = x" "drop 24 (a @ le_bytes 8 u @ le_bytes 8 v @ x) = x"
      "drop 32 (a @ le_bytes 8 u @ le_bytes 8 v @ le_bytes 8 w @ x) = x" for x u v w
    using a8 by simp_all
  have d48: "drop 48 (pack h rs @ t) = le_bytes 4 (hd_count h) @ ?rest" and
    d52: "drop packHeader (pack h rs @ t) = ?rest"
    unfolding eq using a8 k16 by simp_all
  have count: "le_word 0 (le_bytes 4 (hd_count h)) = hd_count h"
    using assms by (simp add: le_word_bytes head_ok_def take_bit_eq_mod mod_word_less)
  have u: "Uint64 (le_bytes 8 w @ x) = w" for w x by (simp add: Uint64_def le_bytes_word8)
  have parts: "Uint64 (drop 8 (pack h rs @ t)) = hd_epoch h" "Uint64 (drop 16 (pack h rs @ t)) = hd_seq h"
      "Uint64 (drop 24 (pack h rs @ t)) = hd_hash h" "take 16 (drop 32 (pack h rs @ t)) = hd_key h"
    unfolding eq d u using k16 by simp_all
  have "le_word 0 (take 4 (drop 48 (pack h rs @ t))) = hd_count h" unfolding d48 using count by simp
  then show "read_head (pack h rs @ t) = h" unfolding read_head_def b parts by simp
  show "take 4 (pack h rs @ t) = packMagic" unfolding eq by (simp add: a_def packMagic_def)
  show "byte_at (pack h rs @ t) 4 = 1" by (rule b)
  show "packHeader \<le> length (pack h rs @ t)" unfolding eq using a8 k16 by simp
  show "drop packHeader (pack h rs @ t) = ?rest" by (rule d52)
qed

lemma unpack_pack:
  assumes "head_ok h" and "\<forall>r \<in> set rs. pack_record_ok (hd_typ h) (hd_flags h) r"
    and "hd_count h = word_of_nat (length rs)" and "length rs < 2 ^ 32"
  shows "unpack (pack h rs @ t) = Ok (h, rs)"
proof -
  have n: "unat (hd_count h) = length rs" using assms(3,4) by (simp add: unsigned_of_nat take_bit_nat_eq_self)
  show ?thesis
    using read_head_pack [OF assms(1), of rs t] read_records_pack [OF assms(2), of t] assms(1)
    by (simp add: unpack_def n Let_def head_ok_def not_less [symmetric])
qed

end
