(* ===== verification/Prefix_Table.thy ===== *)
theory Prefix_Table
  imports Netip
begin

text \<open>
  The address lookup the two list components share: \<open>staticSet\<close> in \<open>internal/policy/static.go\<close>
  and \<open>composition\<close> in \<open>internal/livelist/livelist.go\<close> both keep a set of prefixes and a table
  counting them by family and length, and try the lengths from the longest down, skipping those
  with a zero count. The locale states what a table promises; both components interpret it.
\<close>

type_synonym len_table = "nat \<Rightarrow> int \<Rightarrow> int"

definition family :: "ip_prefix \<Rightarrow> nat" where
  "family p = (if Is4 (pfx_addr p) then 0 else 1)"

text \<open>The array \<open>[2][129]int\<close> panics outside its range.\<close>

definition len_ok :: "ip_prefix \<Rightarrow> bool" where
  "len_ok p = (0 \<le> pfx_bits p \<and> pfx_bits p \<le> 128)"

definition len_add :: "len_table \<Rightarrow> ip_prefix \<Rightarrow> int \<Rightarrow> len_table" where
  "len_add t p d = t(family p := (t (family p))(pfx_bits p := t (family p) (pfx_bits p) + d))"

text \<open>The loop \<open>for bits := ip.BitLen(); bits >= 0; bits--\<close>, which returns at the first hit.\<close>

fun scan_down :: "(nat \<Rightarrow> bool) \<Rightarrow> nat \<Rightarrow> bool" where
  "scan_down f 0 = f 0"
| "scan_down f (Suc n) = (if f (Suc n) then True else scan_down f n)"

lemma scan_down_iff: "scan_down f n \<longleftrightarrow> (\<exists>i \<le> n. f i)"
  by (induction n) (auto simp: le_Suc_eq)

definition count_len :: "ip_prefix list \<Rightarrow> nat \<Rightarrow> int \<Rightarrow> int" where
  "count_len ps fam bits = int (length (filter (\<lambda>p. family p = fam \<and> pfx_bits p = bits) ps))"

lemma count_len_pos: "p \<in> set ps \<Longrightarrow> count_len ps (family p) (pfx_bits p) \<noteq> 0"
  by (auto simp: count_len_def filter_empty_conv)

lemma count_len_Nil: "count_len [] = (\<lambda>_ _. 0)"
  by (simp add: count_len_def fun_eq_iff)

lemma count_len_Cons: "count_len (p # ps) = len_add (count_len ps) p 1"
  by (auto simp: count_len_def len_add_def fun_eq_iff)

lemma count_len_append: "count_len (ps @ qs) fam b = count_len ps fam b + count_len qs fam b"
  by (simp add: count_len_def)

locale prefix_table =
  fixes member :: "'t \<Rightarrow> ip_prefix \<Rightarrow> bool"
    and live :: "'t \<Rightarrow> ip_prefix \<Rightarrow> bool"
    and count :: "'t \<Rightarrow> len_table"
    and invar :: "'t \<Rightarrow> bool"
  assumes count_nonzero: "invar t \<Longrightarrow> member t p \<Longrightarrow> canonical p \<Longrightarrow> count t (family p) (pfx_bits p) \<noteq> 0"
begin

lemma family_Masked:
  "0 \<le> b \<Longrightarrow> b \<le> int (BitLen a) \<Longrightarrow> IsValid a \<Longrightarrow>
     family (Masked (PrefixFrom a b)) = (if Is4 a then 0 else 1) \<and> pfx_bits (Masked (PrefixFrom a b)) = b"
  by (auto simp: family_def Masked_def PrefixFrom_def withoutZone_def Is4_def BitLen_def IsValid_def
      split: addr.splits)

text \<open>The scan over the lengths finds an address exactly when a stored, live, canonical prefix
  covers it: skipping the lengths with a zero count loses nothing.\<close>

lemma scan_iff_covers:
  assumes inv: "invar t"
    and valid: "IsValid ip"
  shows "scan_down (\<lambda>bits. count t (if Is4 (Unmap ip) then 0 else 1) (int bits) \<noteq> 0 \<and>
             member t (Masked (PrefixFrom (Unmap ip) (int bits))) \<and>
             live t (Masked (PrefixFrom (Unmap ip) (int bits)))) (BitLen (Unmap ip)) \<longleftrightarrow>
         (\<exists>p. member t p \<and> live t p \<and> canonical p \<and> covers p ip)"
    (is "scan_down ?f _ \<longleftrightarrow> ?R")
proof
  assume "scan_down ?f (BitLen (Unmap ip))"
  then obtain i where i: "i \<le> BitLen (Unmap ip)" and f: "?f i"
    by (auto simp: scan_down_iff)
  let ?p = "Masked (PrefixFrom (Unmap ip) (int i))"
  have b: "pfx_bits ?p = int i" using i valid family_Masked [of "int i" "Unmap ip"] by simp
  then have c: "canonical ?p" by (intro canonical_Masked) simp
  have "covers ?p ip" using Masked_PrefixFrom_eq_iff [OF c, of ip] b by simp
  with c f show ?R by blast
next
  assume ?R
  then obtain p where p: "member t p" "live t p" "canonical p" "covers p ip" by blast
  have eq: "Masked (PrefixFrom (Unmap ip) (pfx_bits p)) = p"
    using p(3,4) by (simp add: Masked_PrefixFrom_eq_iff)
  have bits: "0 \<le> pfx_bits p" "pfx_bits p \<le> int (BitLen (Unmap ip))"
    using p(4) by (auto simp: covers_def BitLen_def split: addr.splits)
  have "family p = (if Is4 (Unmap ip) then 0 else 1)"
    using family_Masked [OF bits] valid eq by simp
  then have "?f (nat (pfx_bits p))"
    using count_nonzero [OF inv p(1,3)] bits eq p(1,2) by simp
  then show "scan_down ?f (BitLen (Unmap ip))"
    using bits by (auto simp: scan_down_iff intro!: exI [of _ "nat (pfx_bits p)"])
qed

end

end
