(* ===== verification/Livelist.thy ===== *)
theory Livelist
  imports Wafs Prefix_Table Body
begin

text \<open>
  \<open>internal/livelist/livelist.go\<close>: the mirror of a dynamic list. A composition is the contents of
  a list with its digest, the exclusive or of the hashes of its entries; a set follows the keeper:
  it starts from a snapshot and applies packages one by one, each of them checked against the
  digest the keeper sends.

  The bus and the store answer through the record \<open>keeper\<close>: the reply to a snapshot request (none
  when the request fails, and a flag that says whether it decodes), an object by its key, and several packages by their keys. One run of
  \<open>onFrame\<close> asks for a snapshot at most once and for a key at most once, so one answer per question
  and frame is enough.
\<close>

section \<open>Compositions\<close>

record entry =
  en_exp :: int
  en_reason :: string

record composition =
  c_entries :: "(string \<times> entry) list"
  c_nets :: "(ip_prefix \<times> int) list"
  c_lens :: len_table
  c_hash :: u64

definition newComposition :: composition where
  "newComposition = \<lparr>c_entries = [], c_nets = [], c_lens = (\<lambda>_ _. 0), c_hash = 0\<rparr>"

definition apply_net :: "string \<Rightarrow> pack_record \<Rightarrow> composition \<Rightarrow> (unit, composition) outcome" where
  "apply_net key r c =
     (let p = rc_prefix r; had = (map_of (c_nets c) p \<noteq> None); h = SipHashBytes key (prefixMaterial p)
      in if rc_op r = recAdd then
           (if had then Ok (c\<lparr>c_nets := AList.update p (rc_exp r) (c_nets c)\<rparr>)
            else if \<not> len_ok p then Panic
            else Ok (c\<lparr>c_hash := c_hash c XOR h, c_lens := len_add (c_lens c) p 1,
                       c_nets := AList.update p (rc_exp r) (c_nets c)\<rparr>))
         else if had then
           (if \<not> len_ok p then Panic
            else Ok (c\<lparr>c_hash := c_hash c XOR h, c_lens := len_add (c_lens c) p (-1),
                       c_nets := AList.delete p (c_nets c)\<rparr>))
         else Ok c)"

definition apply_entry :: "string \<Rightarrow> pack_record \<Rightarrow> composition \<Rightarrow> composition" where
  "apply_entry key r c =
     (let v = rc_value r; had = (map_of (c_entries c) v \<noteq> None); h = SipHash key v
      in if rc_op r = recAdd then
           (let c' = (if had then c else c\<lparr>c_hash := c_hash c XOR h\<rparr>)
            in c'\<lparr>c_entries := AList.update v \<lparr>en_exp = rc_exp r, en_reason = rc_reason r\<rparr> (c_entries c')\<rparr>)
         else if had then c\<lparr>c_hash := c_hash c XOR h, c_entries := AList.delete v (c_entries c)\<rparr>
         else c)"

definition comp_apply :: "string \<Rightarrow> int \<Rightarrow> pack_record \<Rightarrow> composition \<Rightarrow> (unit, composition) outcome" where
  "comp_apply key typ r c = (if typ = typeCIDR then apply_net key r c else Ok (apply_entry key r c))"

fun apply_all :: "string \<Rightarrow> int \<Rightarrow> pack_record list \<Rightarrow> composition \<Rightarrow> (unit, composition) outcome" where
  "apply_all key typ [] c = Ok c"
| "apply_all key typ (r # rs) c = obind (comp_apply key typ r c) (apply_all key typ rs)"

definition alive :: "int \<Rightarrow> int \<Rightarrow> bool" where
  "alive exp now = (exp = 0 \<or> exp > now)"

definition net_alive :: "composition \<Rightarrow> ip_prefix \<Rightarrow> int \<Rightarrow> bool" where
  "net_alive c p now = (case map_of (c_nets c) p of None \<Rightarrow> False | Some exp \<Rightarrow> alive exp now)"

definition comp_containsAddr :: "composition \<Rightarrow> addr \<Rightarrow> int \<Rightarrow> bool" where
  "comp_containsAddr c ip0 now =
     (let ip = Unmap ip0; fam = (if Is4 ip then 0 else 1)
      in scan_down (\<lambda>bits. c_lens c fam (int bits) \<noteq> 0 \<and> net_alive c (Masked (PrefixFrom ip (int bits))) now)
           (BitLen ip))"

definition comp_size :: "composition \<Rightarrow> nat" where
  "comp_size c = length (c_entries c) + length (c_nets c)"

section \<open>Sets\<close>

record frame =
  f_v :: int
  f_set :: string
  f_epoch :: string
  f_seq :: u64
  f_opr :: string
  f_digest :: string
  f_inline :: string
  f_object :: string

record list_set =
  ls_name :: string
  ls_ready :: bool
  ls_epoch :: u64
  ls_seq :: u64
  ls_key :: string
  ls_typ :: int
  ls_comp :: composition
  ls_lastSeen :: int
  ls_silent :: bool
  ls_syncing :: bool
  ls_refused :: string
  ls_snapBad :: bool

record keeper =
  kp_request :: "frame option"
  kp_decodes :: bool
  kp_object :: "string \<Rightarrow> string option option"
  kp_objects :: "string list \<Rightarrow> string option list option"
  kp_blobs :: bool

abbreviation ListVersion :: int where "ListVersion \<equiv> 3"
abbreviation packagesPerRead :: int where "packagesPerRead \<equiv> 256"

text \<open>The set \<open>Ensure\<close> creates.\<close>

definition new_set :: "string \<Rightarrow> int \<Rightarrow> list_set" where
  "new_set name now =
     \<lparr>ls_name = name, ls_ready = False, ls_epoch = 0, ls_seq = 0, ls_key = replicate 16 (char_of (0::int)),
      ls_typ = 0, ls_comp = newComposition, ls_lastSeen = now, ls_silent = False, ls_syncing = False,
      ls_refused = [], ls_snapBad = False\<rparr>"

definition hexOf :: "u64 \<Rightarrow> string" where
  "hexOf v = hex_digits 16 (uint v)"

definition diffKey :: "string \<Rightarrow> u64 \<Rightarrow> string" where
  "diffKey name seq = ''waf:diff:'' @ name @ '':'' @ itoa (unat seq)"

definition install :: "pack_head \<Rightarrow> composition \<Rightarrow> list_set \<Rightarrow> list_set" where
  "install h cm st =
     st\<lparr>ls_epoch := hd_epoch h, ls_key := hd_key h, ls_seq := hd_seq h, ls_typ := hd_typ h, ls_comp := cm,
        ls_ready := True, ls_snapBad := (c_hash cm \<noteq> hd_hash h)\<rparr>"

definition install_object :: "string \<Rightarrow> list_set \<Rightarrow> (unit, list_set) outcome" where
  "install_object data st =
     (case unpack data of
        Panic \<Rightarrow> Panic
      | Err _ \<Rightarrow> Ok st
      | Ok (h, rs) \<Rightarrow>
          if hd_kind h \<noteq> kindSnapshot then Ok st
          else obind (apply_all (hd_key h) (hd_typ h) rs newComposition) (\<lambda>cm. Ok (install h cm st)))"

text \<open>\<open>snapshot\<close>; \<open>syncing\<close> is reset on every return.\<close>

definition take_snapshot :: "keeper \<Rightarrow> list_set \<Rightarrow> (unit, list_set) outcome" where
  "take_snapshot k st =
     (if ls_syncing st then Ok st
      else if ls_snapBad st then Ok st
      else case kp_request k of
        None \<Rightarrow> Ok st
      | Some ref \<Rightarrow>
          if \<not> kp_decodes k \<or> f_opr ref \<noteq> ''snapshot'' \<or> f_object ref = []
          then Ok (st\<lparr>ls_refused := (if f_opr ref = [] then ''bad reply'' else f_opr ref)\<rparr>)
          else let st = st\<lparr>ls_refused := []\<rparr>
          in if \<not> kp_blobs k then Ok st
             else case kp_object k (f_object ref) of
               None \<Rightarrow> Ok st
             | Some None \<Rightarrow> Ok st
             | Some (Some data) \<Rightarrow> install_object data st)"

definition verify :: "keeper \<Rightarrow> string \<Rightarrow> list_set \<Rightarrow> (unit, bool \<times> list_set) outcome" where
  "verify k want st =
     (if want = [] \<or> hexOf (c_hash (ls_comp st)) = want then Ok (True, st)
      else if ls_snapBad st then Ok (False, st)
      else obind (take_snapshot k st) (\<lambda>st. Ok (False, st)))"

definition applyPackage :: "keeper \<Rightarrow> string \<Rightarrow> u64 \<Rightarrow> list_set \<Rightarrow> (unit, bool \<times> list_set) outcome" where
  "applyPackage k data want st =
     (case unpack data of
        Panic \<Rightarrow> Panic
      | Err _ \<Rightarrow> obind (take_snapshot k st) (\<lambda>st. Ok (False, st))
      | Ok (h, rs) \<Rightarrow>
          if hd_kind h \<noteq> kindPackage \<or> hd_epoch h \<noteq> ls_epoch st \<or> hd_seq h \<noteq> want \<or> hd_typ h \<noteq> ls_typ st
          then obind (take_snapshot k st) (\<lambda>st. Ok (False, st))
          else obind (apply_all (ls_key st) (hd_typ h) rs (ls_comp st)) (\<lambda>cm.
            verify k (hexOf (hd_hash h)) (st\<lparr>ls_comp := cm, ls_seq := hd_seq h\<rparr>)))"

text \<open>The packages of one read: the flag says whether all were applied.\<close>

fun apply_packages ::
  "keeper \<Rightarrow> u64 \<Rightarrow> string option list \<Rightarrow> list_set \<Rightarrow> (unit, bool \<times> list_set) outcome" where
  "apply_packages k want [] st = Ok (True, st)"
| "apply_packages k want (d # ds) st =
     (case d of
        None \<Rightarrow> obind (take_snapshot k st) (\<lambda>st. Ok (False, st))
      | Some data \<Rightarrow>
          obind (applyPackage k data want st) (\<lambda>(ok, st).
            if ok then apply_packages k (want + 1) ds st else Ok (False, st)))"

definition package_keys :: "string \<Rightarrow> u64 \<Rightarrow> nat \<Rightarrow> string list" where
  "package_keys name seq n = map (\<lambda>i. diffKey name (seq + 1 + word_of_nat i)) [0..<n]"

text \<open>The loop of \<open>catchUp\<close> may not end when the store answers with no packages at all; the
  fuel counts its rounds, and \<open>Err ()\<close> is running out of it.\<close>

fun catchUp_loop :: "nat \<Rightarrow> keeper \<Rightarrow> u64 \<Rightarrow> string \<Rightarrow> list_set \<Rightarrow> (unit, list_set) outcome" where
  "catchUp_loop 0 k goal digest st = Err ()"
| "catchUp_loop (Suc fuel) k goal digest st =
     (if ls_seq st \<ge> goal then obind (verify k digest st) (\<lambda>(_, st). Ok st)
      else let n = min (unat (goal - ls_seq st)) (nat packagesPerRead)
      in case kp_objects k (package_keys (ls_name st) (ls_seq st) n) of
           None \<Rightarrow> Ok st
         | Some objs \<Rightarrow>
             obind (apply_packages k (ls_seq st + 1) objs st) (\<lambda>(ok, st).
               if ok then catchUp_loop fuel k goal digest st else Ok st))"

definition catchUp :: "keeper \<Rightarrow> u64 \<Rightarrow> string \<Rightarrow> list_set \<Rightarrow> (unit, list_set) outcome" where
  "catchUp k goal digest st =
     (if \<not> kp_blobs k then Ok st
      else catchUp_loop (Suc (unat (goal - ls_seq st))) k goal digest st)"

definition onFrame :: "keeper \<Rightarrow> int \<Rightarrow> frame \<Rightarrow> list_set \<Rightarrow> (unit, list_set) outcome" where
  "onFrame k now f st0 =
     (if f_v f \<noteq> ListVersion then Ok st0
      else let st = (if f_opr f \<noteq> ''resync'' then st0\<lparr>ls_lastSeen := now, ls_silent := False\<rparr> else st0)
      in if \<not> ls_ready st then take_snapshot k st
         else if f_opr f = ''resync'' then Ok st
         else case parse_hex64 (f_epoch f) of
           None \<Rightarrow> Ok st
         | Some epoch \<Rightarrow>
             if epoch \<noteq> ls_epoch st then take_snapshot k (st\<lparr>ls_snapBad := False\<rparr>)
             else if f_seq f < ls_seq st then Ok st
             else if f_seq f = ls_seq st then
               (if f_opr f = ''tick'' \<or> f_opr f = ''diff''
                then obind (verify k (f_digest f) st) (\<lambda>(_, st). Ok st) else Ok st)
             else if f_opr f = ''diff'' \<and> f_inline f \<noteq> [] \<and> f_seq f = ls_seq st + 1 \<and> b64_decode (f_inline f) \<noteq> None
               then obind (applyPackage k (the (b64_decode (f_inline f))) (f_seq f) st) (\<lambda>(_, st). Ok st)
             else catchUp k (f_seq f) (f_digest f) st)"

text \<open>The pass of \<open>resync\<close> over one set: whether a frame is queued, and the silence mark.\<close>

abbreviation silenceAfter :: duration where "silenceAfter \<equiv> 6000000000"

definition resync_set :: "int \<Rightarrow> list_set \<Rightarrow> bool \<times> list_set" where
  "resync_set now st =
     (let quiet = (\<not> ls_silent st \<and> now - ls_lastSeen st > silenceAfter)
      in (\<not> ls_ready st, if ls_ready st \<and> quiet then st\<lparr>ls_silent := True\<rparr> else st))"

section \<open>Lookups\<close>

definition set_Contains :: "list_set option \<Rightarrow> string \<Rightarrow> int \<Rightarrow> bool \<times> bool" where
  "set_Contains st' value now =
     (case st' of
        None \<Rightarrow> (False, False)
      | Some st \<Rightarrow>
          if value = [] \<or> \<not> ls_ready st then (False, False)
          else if ls_typ st = typeCIDR then
            (case ParseAddr value of
               Some a \<Rightarrow> (comp_containsAddr (ls_comp st) a now, True)
             | None \<Rightarrow>
                 (case ParsePrefix value of
                    Some p \<Rightarrow>
                      (net_alive (ls_comp st) (Masked (PrefixFrom (Unmap (pfx_addr p)) (pfx_bits p))) now, True)
                  | None \<Rightarrow> (False, True)))
          else (case map_of (c_entries (ls_comp st)) value of
                  None \<Rightarrow> (False, True)
                | Some e \<Rightarrow> (alive (en_exp e) now, True)))"

definition set_ContainsAddr :: "list_set option \<Rightarrow> addr \<Rightarrow> int \<Rightarrow> bool \<times> bool" where
  "set_ContainsAddr st' ip now =
     (case st' of
        None \<Rightarrow> (False, False)
      | Some st \<Rightarrow>
          if \<not> IsValid ip \<or> \<not> ls_ready st then (False, False)
          else (comp_containsAddr (ls_comp st) ip now, True))"

definition set_Lookup :: "list_set option \<Rightarrow> string \<Rightarrow> int \<Rightarrow> entry option \<times> bool" where
  "set_Lookup st' value now =
     (case st' of
        None \<Rightarrow> (None, False)
      | Some st \<Rightarrow>
          if value = [] \<or> \<not> ls_ready st then (None, False)
          else (case map_of (c_entries (ls_comp st)) value of
                  None \<Rightarrow> (None, True)
                | Some e \<Rightarrow> (if alive (en_exp e) now then Some e else None, True)))"

end
