(* ===== verification/Livelist_Props.thy ===== *)
theory Livelist_Props
  imports Livelist "HOL-Library.Multiset"
begin

text \<open>
  What the mirror guarantees. \<open>content\<close> is a list as the keeper means it: a finite map of prefixes
  or values. \<open>replay\<close> applies records to it, \<open>digest\<close> is its digest, and \<open>comp_inv\<close> says that the
  length table and the running hash of a composition are those of its contents. The lookup is
  the client of the locale \<open>prefix_table\<close>, interpreted here on compositions.
\<close>

section \<open>Contents\<close>

record content =
  ct_nets :: "ip_prefix \<rightharpoonup> int"
  ct_entries :: "string \<rightharpoonup> entry"

definition content_of :: "composition \<Rightarrow> content" where
  "content_of c = \<lparr>ct_nets = map_of (c_nets c), ct_entries = map_of (c_entries c)\<rparr>"

definition empty_content :: content where
  "empty_content = \<lparr>ct_nets = Map.empty, ct_entries = Map.empty\<rparr>"

definition replay1 :: "int \<Rightarrow> pack_record \<Rightarrow> content \<Rightarrow> content" where
  "replay1 typ r m =
     (if typ = typeCIDR then
        m\<lparr>ct_nets := (ct_nets m)(rc_prefix r := (if rc_op r = recAdd then Some (rc_exp r) else None))\<rparr>
      else
        m\<lparr>ct_entries := (ct_entries m)(rc_value r :=
           (if rc_op r = recAdd then Some \<lparr>en_exp = rc_exp r, en_reason = rc_reason r\<rparr> else None))\<rparr>)"

definition replay :: "int \<Rightarrow> pack_record list \<Rightarrow> content \<Rightarrow> content" where
  "replay typ rs m = fold (replay1 typ) rs m"

section \<open>Digests\<close>

definition xor_mset :: "u64 multiset \<Rightarrow> u64" where
  "xor_mset M = fold_mset (XOR) 0 M"

lemma xor_comp_fun_commute: "comp_fun_commute ((XOR) :: u64 \<Rightarrow> u64 \<Rightarrow> u64)"
  by unfold_locales (auto simp: fun_eq_iff xor.left_commute)

lemma xor_mset_simps [simp]:
  "xor_mset {#} = 0" "xor_mset (add_mset x M) = x XOR xor_mset M"
  by (simp_all add: xor_mset_def comp_fun_commute.fold_mset_add_mset [OF xor_comp_fun_commute])

lemma xor_mset_union: "xor_mset (M + N) = xor_mset M XOR xor_mset N"
  by (induction M) (auto simp: xor.assoc)

definition net_hash :: "string \<Rightarrow> ip_prefix \<Rightarrow> u64" where
  "net_hash key p = SipHashBytes key (prefixMaterial p)"

definition digest :: "string \<Rightarrow> content \<Rightarrow> u64" where
  "digest key m =
     xor_mset (image_mset (net_hash key) (mset_set (dom (ct_nets m)))) XOR
     xor_mset (image_mset (SipHash key) (mset_set (dom (ct_entries m))))"

definition finite_content :: "content \<Rightarrow> bool" where
  "finite_content m \<longleftrightarrow> finite (dom (ct_nets m)) \<and> finite (dom (ct_entries m))"

lemma xor_insert:
  fixes h :: "'a \<Rightarrow> u64"
  assumes "finite A" and "x \<notin> A"
  shows "xor_mset (image_mset h (mset_set (insert x A))) = h x XOR xor_mset (image_mset h (mset_set A))"
  using assms by simp

lemma xor_delete:
  fixes h :: "'a \<Rightarrow> u64"
  assumes "finite A" and "x \<in> A"
  shows "xor_mset (image_mset h (mset_set (A - {x}))) = xor_mset (image_mset h (mset_set A)) XOR h x"
proof -
  have "xor_mset (image_mset h (mset_set A)) = h x XOR xor_mset (image_mset h (mset_set (A - {x})))"
    using xor_insert [of "A - {x}" x h] assms by (simp add: insert_absorb)
  then show ?thesis by (simp add: xor.assoc xor.commute xor.left_commute)
qed

section \<open>The invariant of a composition\<close>

definition comp_inv :: "string \<Rightarrow> composition \<Rightarrow> bool" where
  "comp_inv key c \<longleftrightarrow>
     distinct (map fst (c_nets c)) \<and> distinct (map fst (c_entries c)) \<and>
     c_lens c = count_len (map fst (c_nets c)) \<and> (\<forall>p \<in> fst ` set (c_nets c). len_ok p) \<and>
     c_hash c = digest key (content_of c)"

lemma comp_inv_new: "comp_inv key newComposition" and content_new: "content_of newComposition = empty_content"
  by (simp_all add: comp_inv_def newComposition_def content_of_def digest_def count_len_Nil empty_content_def)

lemma finite_content_of: "finite_content (content_of c)"
  by (simp add: finite_content_def content_of_def finite_dom_map_of)

lemma count_len_same: "mset ps = mset qs \<Longrightarrow> count_len ps = count_len qs"
proof -
  assume eq: "mset ps = mset qs"
  have "length (filter P ps) = length (filter P qs)" for P using eq by (metis mset_filter size_mset)
  then show ?thesis by (simp add: count_len_def fun_eq_iff)
qed

lemma len_add_inverse: "len_add (len_add t p 1) p (-1) = t"
  by (auto simp: len_add_def fun_eq_iff)

lemma count_len_remove:
  assumes "distinct ps" and "p \<in> set ps"
  shows "count_len (removeAll p ps) = len_add (count_len ps) p (-1)"
proof -
  have "mset ps = mset (p # removeAll p ps)"
    using assms by (simp add: distinct_remove1_removeAll [symmetric])
  then have "count_len ps = len_add (count_len (removeAll p ps)) p 1"
    using count_len_same [of ps "p # removeAll p ps"] by (simp add: count_len_Cons)
  then show ?thesis by (simp add: len_add_inverse)
qed

lemma dom_map_of_fst: "(map_of al k \<noteq> None) = (k \<in> fst ` set al)"
  by (simp add: map_of_eq_None_iff)

text \<open>The three ways a record changes a composition: it refreshes a member, adds one or removes
  one. Each is stated once for prefixes and once for values.\<close>

lemma apply_net_cases:
  assumes "apply_net key r c = Ok c'"
  obtains (same) "rc_op r = recAdd" and "map_of (c_nets c) (rc_prefix r) \<noteq> None"
      and "c' = c\<lparr>c_nets := AList.update (rc_prefix r) (rc_exp r) (c_nets c)\<rparr>"
    | (add) "rc_op r = recAdd" and "map_of (c_nets c) (rc_prefix r) = None" and "len_ok (rc_prefix r)"
      and "c' = c\<lparr>c_hash := c_hash c XOR net_hash key (rc_prefix r),
                  c_lens := len_add (c_lens c) (rc_prefix r) 1,
                  c_nets := AList.update (rc_prefix r) (rc_exp r) (c_nets c)\<rparr>"
    | (del) "rc_op r \<noteq> recAdd" and "map_of (c_nets c) (rc_prefix r) \<noteq> None"
      and "c' = c\<lparr>c_hash := c_hash c XOR net_hash key (rc_prefix r),
                  c_lens := len_add (c_lens c) (rc_prefix r) (-1),
                  c_nets := AList.delete (rc_prefix r) (c_nets c)\<rparr>"
    | (none) "rc_op r \<noteq> recAdd" and "map_of (c_nets c) (rc_prefix r) = None" and "c' = c"
proof -
  note eq = assms [unfolded apply_net_def Let_def net_hash_def [symmetric]]
  show thesis
  proof (cases "map_of (c_nets c) (rc_prefix r) = None"; cases "rc_op r = recAdd")
    assume "map_of (c_nets c) (rc_prefix r) = None" "rc_op r = recAdd"
    with eq show thesis by (cases "len_ok (rc_prefix r)") (auto intro: add)
  next
    assume "map_of (c_nets c) (rc_prefix r) = None" "rc_op r \<noteq> recAdd"
    with eq show thesis by (auto intro: none)
  next
    assume "map_of (c_nets c) (rc_prefix r) \<noteq> None" "rc_op r = recAdd"
    with eq show thesis by (auto intro: same)
  next
    assume "map_of (c_nets c) (rc_prefix r) \<noteq> None" "rc_op r \<noteq> recAdd"
    with eq show thesis by (cases "len_ok (rc_prefix r)") (auto intro: del)
  qed
qed

lemma digest_add_net:
  assumes "ct_nets m p = None" and "finite_content m"
  shows "digest key (m\<lparr>ct_nets := (ct_nets m)(p \<mapsto> e)\<rparr>) = digest key m XOR net_hash key p"
proof -
  have "p \<notin> dom (ct_nets m)" "finite (dom (ct_nets m))"
    using assms by (simp_all add: finite_content_def domIff)
  then show ?thesis by (simp add: digest_def xor_insert ac_simps)
qed

lemma digest_del_net:
  assumes "ct_nets m p \<noteq> None" and "finite_content m"
  shows "digest key (m\<lparr>ct_nets := (ct_nets m)(p := None)\<rparr>) = digest key m XOR net_hash key p"
proof -
  have "p \<in> dom (ct_nets m)" "finite (dom (ct_nets m))"
    using assms by (simp_all add: finite_content_def domIff)
  then show ?thesis by (simp add: digest_def xor_delete ac_simps)
qed

lemma digest_same_net:
  "ct_nets m p \<noteq> None \<Longrightarrow> digest key (m\<lparr>ct_nets := (ct_nets m)(p \<mapsto> e)\<rparr>) = digest key m"
  by (simp add: digest_def insert_absorb domIff)

lemma digest_add_entry:
  assumes "ct_entries m v = None" and "finite_content m"
  shows "digest key (m\<lparr>ct_entries := (ct_entries m)(v \<mapsto> e)\<rparr>) = digest key m XOR SipHash key v"
proof -
  have "v \<notin> dom (ct_entries m)" "finite (dom (ct_entries m))"
    using assms by (simp_all add: finite_content_def domIff)
  then show ?thesis by (simp add: digest_def xor_insert ac_simps)
qed

lemma digest_del_entry:
  assumes "ct_entries m v \<noteq> None" and "finite_content m"
  shows "digest key (m\<lparr>ct_entries := (ct_entries m)(v := None)\<rparr>) = digest key m XOR SipHash key v"
proof -
  have "v \<in> dom (ct_entries m)" "finite (dom (ct_entries m))"
    using assms by (simp_all add: finite_content_def domIff)
  then show ?thesis by (simp add: digest_def xor_delete ac_simps)
qed

lemma digest_same_entry:
  "ct_entries m v \<noteq> None \<Longrightarrow> digest key (m\<lparr>ct_entries := (ct_entries m)(v \<mapsto> e)\<rparr>) = digest key m"
  by (simp add: digest_def insert_absorb domIff)

lemma content_fields [simp]:
  "ct_nets (content_of c) = map_of (c_nets c)" "ct_entries (content_of c) = map_of (c_entries c)"
  by (simp_all add: content_of_def)

lemma content_of_cong: "c_nets c = c_nets d \<Longrightarrow> c_entries c = c_entries d \<Longrightarrow> content_of c = content_of d"
  by (simp add: content_of_def)

lemma content_of_update:
  "content_of (c\<lparr>c_nets := AList.update p e (c_nets c)\<rparr>) = (content_of c)\<lparr>ct_nets := (map_of (c_nets c))(p \<mapsto> e)\<rparr>"
  "content_of (c\<lparr>c_nets := AList.delete p (c_nets c)\<rparr>) = (content_of c)\<lparr>ct_nets := (map_of (c_nets c))(p := None)\<rparr>"
  "content_of (c\<lparr>c_entries := AList.update v x (c_entries c)\<rparr>) =
     (content_of c)\<lparr>ct_entries := (map_of (c_entries c))(v \<mapsto> x)\<rparr>"
  "content_of (c\<lparr>c_entries := AList.delete v (c_entries c)\<rparr>) =
     (content_of c)\<lparr>ct_entries := (map_of (c_entries c))(v := None)\<rparr>"
  by (simp_all add: content_of_def update_conv' delete_conv')

lemma content_of_ignore [simp]:
  "content_of (c\<lparr>c_hash := h\<rparr>) = content_of c" "content_of (c\<lparr>c_lens := t\<rparr>) = content_of c"
  by (simp_all add: content_of_def)

lemma keys_add_new:
  "map_of al k = None \<Longrightarrow> map fst (AList.update k v al) = map fst al @ [k]"
  by (simp add: update_keys map_of_eq_None_iff)

lemma keys_add_old:
  "map_of al k \<noteq> None \<Longrightarrow> map fst (AList.update k v al) = map fst al"
  by (auto simp: update_keys map_of_eq_None_iff)

lemma keys_delete: "map fst (AList.delete k al) = removeAll k (map fst al)"
  by (simp add: delete_keys)

definition table_inv :: "composition \<Rightarrow> bool" where
  "table_inv c \<longleftrightarrow>
     distinct (map fst (c_nets c)) \<and> distinct (map fst (c_entries c)) \<and>
     c_lens c = count_len (map fst (c_nets c)) \<and> (\<forall>p \<in> set (map fst (c_nets c)). len_ok p)"

lemma comp_inv_table: "comp_inv key c \<longleftrightarrow> table_inv c \<and> c_hash c = digest key (content_of c)"
  by (auto simp: comp_inv_def table_inv_def)

lemma table_inv_add:
  assumes "table_inv c" and "map_of (c_nets c) p = None" and "len_ok p"
  shows "table_inv (c\<lparr>c_hash := h, c_lens := len_add (c_lens c) p 1, c_nets := AList.update p e (c_nets c)\<rparr>)"
proof -
  have "count_len (map fst (c_nets c) @ [p]) = len_add (c_lens c) p 1"
    using assms(1) count_len_same [of "map fst (c_nets c) @ [p]" "p # map fst (c_nets c)"]
    by (simp add: count_len_Cons table_inv_def)
  moreover have "p \<notin> set (map fst (c_nets c))" using assms(2) by (simp add: map_of_eq_None_iff)
  ultimately show ?thesis using assms unfolding table_inv_def by (simp add: keys_add_new del: set_map)
qed

lemma table_inv_del:
  assumes "table_inv c" and "map_of (c_nets c) p \<noteq> None"
  shows "table_inv (c\<lparr>c_hash := h, c_lens := len_add (c_lens c) p (-1), c_nets := AList.delete p (c_nets c)\<rparr>)"
proof -
  have p: "p \<in> set (map fst (c_nets c))" using assms(2) by (auto simp: map_of_eq_None_iff)
  have "distinct (map fst (c_nets c))" "c_lens c = count_len (map fst (c_nets c))"
    using assms(1) by (simp_all add: table_inv_def)
  from count_len_remove [OF this(1) p] this(2)
  show ?thesis using assms(1) unfolding table_inv_def
    by (simp add: keys_delete distinct_removeAll del: set_map)
qed

lemma apply_net_refines:
  assumes "comp_inv key c" and "apply_net key r c = Ok c'"
  shows "content_of c' = replay1 typeCIDR r (content_of c) \<and> comp_inv key c'"
  using assms(2)
proof (cases rule: apply_net_cases)
  case same
  then have "table_inv c'" using assms(1)
    unfolding comp_inv_table table_inv_def by (simp add: keys_add_old)
  with same assms(1) show ?thesis
    using digest_same_net [of "content_of c" "rc_prefix r" key "rc_exp r"]
    by (simp add: comp_inv_table content_of_update replay1_def)
next
  case add
  then have "table_inv c'" using assms(1) by (simp add: comp_inv_table table_inv_add)
  with add assms(1) show ?thesis
    using content_of_update(1) [where c = "c\<lparr>c_hash := c_hash c XOR net_hash key (rc_prefix r),
       c_lens := len_add (c_lens c) (rc_prefix r) 1\<rparr>"]
      digest_add_net [of "content_of c" "rc_prefix r" key "rc_exp r"]
    by (simp add: comp_inv_table replay1_def finite_content_of)
next
  case del
  then have "table_inv c'" using assms(1) by (simp add: comp_inv_table table_inv_del)
  with del assms(1) show ?thesis
    using content_of_update(2) [where c = "c\<lparr>c_hash := c_hash c XOR net_hash key (rc_prefix r),
       c_lens := len_add (c_lens c) (rc_prefix r) (-1)\<rparr>"]
      digest_del_net [of "content_of c" "rc_prefix r" key]
    by (simp add: comp_inv_table replay1_def finite_content_of)
next
  case none
  then have "(map_of (c_nets c))(rc_prefix r := None) = map_of (c_nets c)" by (simp add: fun_upd_idem)
  then show ?thesis using none assms(1) by (simp add: content_of_def replay1_def)
qed

lemma apply_entry_refines:
  assumes inv: "comp_inv key c" and other: "t \<noteq> typeCIDR"
  shows "content_of (apply_entry key r c) = replay1 t r (content_of c) \<and> comp_inv key (apply_entry key r c)"
proof -
  let ?v = "rc_value r" and ?E = "c_entries c" and ?e = "\<lparr>en_exp = rc_exp r, en_reason = rc_reason r\<rparr>"
  let ?c = "c\<lparr>c_hash := c_hash c XOR SipHash key (rc_value r)\<rparr>"
  have t: "table_inv c" and h: "c_hash c = digest key (content_of c)" using inv by (simp_all add: comp_inv_table)
  have "distinct (map fst (AList.update ?v x ?E))" "distinct (map fst (AList.delete ?v ?E))" for x
    using t unfolding table_inv_def by (simp_all add: distinct_update keys_delete distinct_removeAll)
  then have t': "table_inv (c\<lparr>c_entries := AList.update ?v x ?E\<rparr>)"
    "table_inv (c\<lparr>c_hash := d, c_entries := AList.update ?v x ?E\<rparr>)"
    "table_inv (c\<lparr>c_hash := d, c_entries := AList.delete ?v ?E\<rparr>)" for x d
    using t unfolding table_inv_def by simp_all
  note upd = content_of_update(3) [where c = ?c] content_of_update(4) [where c = ?c]
  show ?thesis
  proof (cases "map_of ?E ?v = None")
    case True
    then have "(map_of ?E)(?v := None) = map_of ?E" by (simp add: fun_upd_idem)
    then have none: "replay1 t r (content_of c) = content_of c" if "rc_op r \<noteq> recAdd"
      using that other by (simp add: replay1_def content_of_def)
    show ?thesis
    proof (cases "rc_op r = recAdd")
      case added: True
      with True inv other t' h upd digest_add_entry [of "content_of c" ?v key ?e] show ?thesis
        by (simp add: apply_entry_def Let_def comp_inv_table replay1_def finite_content_of)
    next
      case False
      with True inv none show ?thesis by (simp add: apply_entry_def Let_def)
    qed
  next
    case False
    with inv other t' h upd digest_del_entry [of "content_of c" ?v key] digest_same_entry [of "content_of c" ?v key ?e]
    show ?thesis
      by (cases "rc_op r = recAdd")
        (simp_all add: apply_entry_def Let_def comp_inv_table replay1_def finite_content_of content_of_update)
  qed
qed

lemma comp_apply_refines:
  assumes "comp_inv key c" and "comp_apply key t r c = Ok c'"
  shows "content_of c' = replay1 t r (content_of c) \<and> comp_inv key c'"
proof (cases "t = typeCIDR")
  case True
  then show ?thesis using assms apply_net_refines [of key c r c'] by (simp add: comp_apply_def)
next
  case False
  then show ?thesis using assms apply_entry_refines [of key c t r] by (auto simp: comp_apply_def)
qed

text \<open>Applying the records of an object replays them on the contents and keeps the invariant; so
  the running hash is the digest of the contents whatever the order in which they were built.\<close>

lemma apply_all_refines:
  "comp_inv key c \<Longrightarrow> apply_all key typ rs c = Ok c' \<Longrightarrow>
     content_of c' = replay typ rs (content_of c) \<and> comp_inv key c'"
proof (induction rs arbitrary: c)
  case (Cons r rs)
  then obtain c1 where c1: "comp_apply key typ r c = Ok c1" and r: "apply_all key typ rs c1 = Ok c'"
    by (auto simp: obind_Ok)
  from comp_apply_refines [OF Cons.prems(1) c1] Cons.IH [OF _ r] show ?case by (simp add: replay_def)
qed (simp add: replay_def)

section \<open>Lookups\<close>

interpretation cp: prefix_table
  "\<lambda>c p. map_of (c_nets c) p \<noteq> None" "\<lambda>c p. net_alive c p now" c_lens table_inv for now
proof unfold_locales
  fix t :: composition and p :: ip_prefix
  assume "table_inv t" and mem: "map_of (c_nets t) p \<noteq> None"
  then have "c_lens t = count_len (map fst (c_nets t))" by (simp add: table_inv_def)
  moreover have "p \<in> set (map fst (c_nets t))" using mem by (auto simp: map_of_eq_None_iff)
  ultimately show "c_lens t (family p) (pfx_bits p) \<noteq> 0" by (simp add: count_len_pos)
qed

lemma net_alive_iff: "net_alive c p now \<longleftrightarrow> (\<exists>e. map_of (c_nets c) p = Some e \<and> alive e now)"
  by (auto simp: net_alive_def split: option.splits)

lemma comp_containsAddr_iff:
  assumes "table_inv c" and "IsValid ip"
  shows "comp_containsAddr c ip now \<longleftrightarrow>
    (\<exists>p e. map_of (c_nets c) p = Some e \<and> alive e now \<and> canonical p \<and> covers p ip)"
proof -
  have "comp_containsAddr c ip now \<longleftrightarrow>
      scan_down (\<lambda>bits. c_lens c (if Is4 (Unmap ip) then 0 else 1) (int bits) \<noteq> 0 \<and>
             map_of (c_nets c) (Masked (PrefixFrom (Unmap ip) (int bits))) \<noteq> None \<and>
             net_alive c (Masked (PrefixFrom (Unmap ip) (int bits))) now) (BitLen (Unmap ip))"
    by (auto simp: comp_containsAddr_def Let_def net_alive_iff scan_down_iff)
  also have "\<dots> \<longleftrightarrow> (\<exists>p. map_of (c_nets c) p \<noteq> None \<and> net_alive c p now \<and> canonical p \<and> covers p ip)"
    by (rule cp.scan_iff_covers [OF assms])
  finally show ?thesis by (auto simp: net_alive_iff)
qed

section \<open>Panics\<close>

text \<open>A record crashes the mirror exactly when it adds a new prefix whose length is outside the
  length table: the reader does not check the length of a prefix against its family.\<close>

lemma apply_net_Panic:
  assumes "table_inv c"
  shows "apply_net key r c = Panic \<longleftrightarrow>
    rc_op r = recAdd \<and> map_of (c_nets c) (rc_prefix r) = None \<and> \<not> len_ok (rc_prefix r)"
proof -
  have "len_ok (rc_prefix r)" if "map_of (c_nets c) (rc_prefix r) \<noteq> None"
    using that assms unfolding table_inv_def by (auto simp: map_of_eq_None_iff)
  then show ?thesis by (auto simp: apply_net_def Let_def)
qed

lemma apply_net_not_Err: "apply_net key r c \<noteq> Err e"
  by (simp add: apply_net_def Let_def)

lemma comp_apply_not_Err: "comp_apply key t r c \<noteq> Err e"
  by (simp add: comp_apply_def apply_net_not_Err)

definition sane :: "int \<Rightarrow> pack_record \<Rightarrow> bool" where
  "sane t r \<longleftrightarrow> (t = typeCIDR \<and> rc_op r = recAdd \<longrightarrow> len_ok (rc_prefix r))"

lemma comp_apply_sane:
  assumes "comp_inv key c" and "sane t r"
  obtains c' where "comp_apply key t r c = Ok c'"
  using assms apply_net_Panic [of c key r]
  by (cases "comp_apply key t r c") (auto simp: apply_net_not_Err comp_inv_table comp_apply_def sane_def split: if_splits)

lemma apply_all_Ok_iff:
  assumes "comp_inv key c"
  shows "(\<exists>c'. apply_all key t rs c = Ok c') \<longleftrightarrow> (\<forall>r \<in> set rs. sane t r)"
  using assms
proof (induction rs arbitrary: c)
  case (Cons r rs)
  show ?case
  proof (cases "sane t r")
    case True
    then obtain c1 where c1: "comp_apply key t r c = Ok c1" by (rule comp_apply_sane [OF Cons.prems])
    then have "comp_inv key c1" using comp_apply_refines [OF Cons.prems] by blast
    with Cons.IH c1 True show ?thesis by simp
  next
    case False
    then have bad: "t = typeCIDR" "rc_op r = recAdd" "\<not> len_ok (rc_prefix r)" by (auto simp: sane_def)
    then have "map_of (c_nets c) (rc_prefix r) = None"
      using Cons.prems unfolding comp_inv_table table_inv_def by (auto simp: map_of_eq_None_iff)
    then have "comp_apply key t r c = Panic"
      using bad Cons.prems by (simp add: comp_apply_def apply_net_Panic comp_inv_table)
    with False show ?thesis by simp
  qed
qed simp

lemma apply_all_not_Err: "apply_all key t rs c \<noteq> Err e"
proof (induction rs arbitrary: c)
  case (Cons r rs)
  then show ?case using comp_apply_not_Err [of key t r c] by (cases "comp_apply key t r c") auto
qed simp

end
