(* ===== verification/Livelist_Sync.thy ===== *)
theory Livelist_Sync
  imports Livelist_Props
begin

text \<open>
  Following the keeper. A set keeps the invariant of its composition through every message; a
  package is accepted only with the digest of its sender; the loop of \<open>catchUp\<close> ends; and with an
  honest store a set that is behind arrives at the contents the keeper has.
\<close>

section \<open>Hexadecimal digests\<close>

lemma hex_char_val: "0 \<le> d \<Longrightarrow> d < 16 \<Longrightarrow> is_hex (hex_char d) \<and> hex_val (hex_char d) = d"
  by (auto simp: hex_char_def is_hex_def hex_val_def is_digit_def)

lemma hex_digits_all: "list_all is_hex (hex_digits k n)"
  by (induction k arbitrary: n) (auto simp: hex_char_val)

lemma hex_digits_val: "foldl (\<lambda>n c. 16 * n + hex_val c) 0 (hex_digits k n) = n mod 16 ^ k"
proof (induction k arbitrary: n)
  case (Suc k)
  have "n mod 16 ^ Suc k = 16 * (n div 16 mod 16 ^ k) + n mod 16"
    using zmod_zmult2_eq [of "16 ^ k" n 16] by simp
  then show ?case using Suc hex_char_val [of "n mod 16"] by simp
qed simp

lemma length_hex_digits: "length (hex_digits k n) = k"
  by (induction k arbitrary: n) auto

lemma hexOf_nonempty: "hexOf v \<noteq> []"
  using length_hex_digits [of 16 "uint v"] unfolding hexOf_def by (metis list.size(3) zero_neq_numeral)

lemma parse_hexOf: "parse_hex64 (hexOf v) = Some v"
proof -
  have "uint v < 16 ^ 16" using uint_lt2p [of v] by simp
  then have "foldl (\<lambda>n c. 16 * n + hex_val c) 0 (hexOf v) = uint v"
    unfolding hexOf_def hex_digits_val by simp
  moreover have "uint v < 2 ^ 64" using uint_lt2p [of v] by simp
  moreover have "list_all is_hex (hexOf v)" unfolding hexOf_def by (rule hex_digits_all)
  ultimately show ?thesis using hexOf_nonempty [of v] by (simp add: parse_hex64_def Let_def)
qed

lemma hexOf_inject [simp]: "hexOf u = hexOf v \<longleftrightarrow> u = v"
  by (metis parse_hexOf option.inject)

section \<open>The invariant of a set\<close>

definition set_inv :: "list_set \<Rightarrow> bool" where
  "set_inv st \<longleftrightarrow> comp_inv (ls_key st) (ls_comp st)"

lemma set_inv_new [simp]: "set_inv (new_set name now)"
  by (simp add: set_inv_def new_set_def comp_inv_new)

lemma install_object_cases:
  assumes "install_object data st = Ok st'"
  obtains (kept) "st' = st"
    | (installed) h rs cm where "unpack data = Ok (h, rs)" and "hd_kind h = kindSnapshot"
      and "apply_all (hd_key h) (hd_typ h) rs newComposition = Ok cm" and "st' = install h cm st"
  using assms kept installed unfolding install_object_def
  by (auto simp: obind_Ok split: if_splits outcome.splits)

lemma take_snapshot_cases:
  assumes "take_snapshot k st = Ok st'"
  obtains (kept) r where "st' = st\<lparr>ls_refused := r\<rparr>"
    | (installed) h rs cm data key where "unpack data = Ok (h, rs)" and "hd_kind h = kindSnapshot"
      and "kp_object k key = Some (Some data)"
      and "apply_all (hd_key h) (hd_typ h) rs newComposition = Ok cm" and "st' = install h cm (st\<lparr>ls_refused := []\<rparr>)"
proof -
  note run = assms [unfolded take_snapshot_def Let_def]
  consider "st' = st" | r where "st' = st\<lparr>ls_refused := r\<rparr>"
    | data key where "kp_object k key = Some (Some data)" "install_object data (st\<lparr>ls_refused := []\<rparr>) = Ok st'"
    using run by (simp split: if_splits option.splits) (blast+)
  then show thesis
  proof cases
    case 1
    then show ?thesis using kept [of "ls_refused st"] by simp
  next
    case (2 r)
    then show ?thesis by (rule kept)
  next
    case (3 data key)
    from 3(2) show ?thesis
    proof (cases rule: install_object_cases)
      case kept': kept
      then show ?thesis by (rule kept)
    next
      case inst: (installed h rs cm)
      show ?thesis by (rule installed [OF inst(1,2) 3(1) inst(3,4)])
    qed
  qed
qed

lemma take_snapshot_inv:
  assumes "set_inv st" and "take_snapshot k st = Ok st'"
  shows "set_inv st' \<and> ls_name st' = ls_name st"
  using assms(2)
proof (cases rule: take_snapshot_cases)
  case (kept r)
  then show ?thesis using assms(1) by (simp add: set_inv_def)
next
  case (installed h rs cm data key)
  then show ?thesis
    using apply_all_refines [OF comp_inv_new installed(4)] by (simp add: set_inv_def install_def)
qed

lemma obind_Err_iff: "obind r f = Err e \<longleftrightarrow> r = Err e \<or> (\<exists>x. r = Ok x \<and> f x = Err e)"
  by (cases r) auto

lemma install_object_not_Err: "install_object data st \<noteq> Err e"
  by (auto simp: install_object_def obind_Err_iff apply_all_not_Err split: outcome.splits)

lemma take_snapshot_not_Err: "take_snapshot k st \<noteq> Err e"
  by (simp add: take_snapshot_def Let_def install_object_not_Err split: option.split)

lemma verify_not_Err: "verify k want st \<noteq> Err e"
  by (simp add: verify_def obind_Err_iff take_snapshot_not_Err)

lemma verify_True:
  assumes "verify k want st = Ok (True, st')"
  shows "st' = st \<and> (want = [] \<or> hexOf (c_hash (ls_comp st)) = want)"
  using assms by (auto simp: verify_def obind_Ok split: if_splits)

lemma verify_inv:
  assumes "set_inv st" and "verify k want st = Ok (b, st')"
  shows "set_inv st' \<and> ls_name st' = ls_name st"
  using assms take_snapshot_inv [OF assms(1)] by (auto simp: verify_def obind_Ok split: if_splits)

section \<open>Packages\<close>

lemma applyPackage_not_Err: "applyPackage k data want st \<noteq> Err e"
  by (auto simp: applyPackage_def obind_Err_iff take_snapshot_not_Err apply_all_not_Err verify_not_Err
      split: outcome.splits)

lemma applyPackage_inv:
  assumes inv: "set_inv st" and run: "applyPackage k data want st = Ok (b, st')"
  shows "set_inv st' \<and> ls_name st' = ls_name st"
proof -
  have snap: "set_inv u \<and> ls_name u = ls_name st" if "take_snapshot k st = Ok u" for u
    using take_snapshot_inv [OF inv that] .
  have app: "set_inv (st\<lparr>ls_comp := cm, ls_seq := s\<rparr>)" if "apply_all (ls_key st) t rs (ls_comp st) = Ok cm" for cm s t rs
    using apply_all_refines [OF _ that] inv by (simp add: set_inv_def)
  show ?thesis
    using run snap app verify_inv [OF app]
    by (auto simp: applyPackage_def obind_Ok split: outcome.splits if_splits)
qed

text \<open>A package that is accepted is the next one of the set's own epoch, its records have been
  replayed on the contents, and the digest of the result is the digest the keeper put in it.\<close>

lemma applyPackage_True:
  assumes inv: "set_inv st" and run: "applyPackage k data want st = Ok (True, st')"
  obtains h rs where "unpack data = Ok (h, rs)" and "hd_kind h = kindPackage" and "hd_epoch h = ls_epoch st"
    and "hd_seq h = want" and "hd_typ h = ls_typ st"
    and "content_of (ls_comp st') = replay (ls_typ st) rs (content_of (ls_comp st))"
    and "digest (ls_key st) (content_of (ls_comp st')) = hd_hash h"
    and "st' = st\<lparr>ls_comp := ls_comp st', ls_seq := want\<rparr>"
proof -
  obtain h rs where un: "unpack data = Ok (h, rs)"
    and m: "hd_kind h = kindPackage" "hd_epoch h = ls_epoch st" "hd_seq h = want" "hd_typ h = ls_typ st"
    and rest: "obind (apply_all (ls_key st) (hd_typ h) rs (ls_comp st)) (\<lambda>cm.
      verify k (hexOf (hd_hash h)) (st\<lparr>ls_comp := cm, ls_seq := hd_seq h\<rparr>)) = Ok (True, st')"
    using run by (auto simp: applyPackage_def obind_Ok split: outcome.splits if_splits)
  then obtain cm where cm: "apply_all (ls_key st) (hd_typ h) rs (ls_comp st) = Ok cm"
    and v: "verify k (hexOf (hd_hash h)) (st\<lparr>ls_comp := cm, ls_seq := hd_seq h\<rparr>) = Ok (True, st')"
    by (auto simp: obind_Ok)
  have ref: "content_of cm = replay (ls_typ st) rs (content_of (ls_comp st))" "comp_inv (ls_key st) cm"
    using apply_all_refines [OF _ cm] inv m(4) by (auto simp: set_inv_def)
  have st': "st' = st\<lparr>ls_comp := cm, ls_seq := want\<rparr>" and hash: "c_hash cm = hd_hash h"
    using verify_True [OF v] m(3) hexOf_nonempty by auto
  show thesis
    using that [OF un m] ref st' hash by (simp add: comp_inv_table)
qed

lemma apply_packages_inv:
  "set_inv st \<Longrightarrow> apply_packages k want ds st = Ok (b, st') \<Longrightarrow> set_inv st' \<and> ls_name st' = ls_name st"
proof (induction ds arbitrary: want st)
  case (Cons d ds)
  show ?case
  proof (cases d)
    case None
    then show ?thesis using Cons.prems take_snapshot_inv [OF Cons.prems(1)] by (auto simp: obind_Ok)
  next
    case (Some data)
    with Cons.prems obtain ok u where u: "applyPackage k data want st = Ok (ok, u)"
      and rest: "(if ok then apply_packages k (want + 1) ds u else Ok (False, u)) = Ok (b, st')"
      by (auto simp: obind_Ok)
    from applyPackage_inv [OF Cons.prems(1) u] Cons.IH [of u "want + 1"] rest
    show ?thesis by (cases ok) auto
  qed
qed simp

lemma apply_packages_not_Err: "apply_packages k want ds st \<noteq> Err e"
  by (induction ds arbitrary: want st)
    (auto simp: obind_Err_iff take_snapshot_not_Err applyPackage_not_Err split: option.splits)

lemma apply_packages_seq:
  assumes "set_inv st" and "apply_packages k want ds st = Ok (True, st')" and "want = ls_seq st + 1"
  shows "ls_seq st' = ls_seq st + word_of_nat (length ds)"
  using assms
proof (induction ds arbitrary: want st)
  case (Cons d ds)
  then obtain data u where d: "d = Some data" and u: "applyPackage k data want st = Ok (True, u)"
    and rest: "apply_packages k (want + 1) ds u = Ok (True, st')"
    by (auto simp: obind_Ok split: option.splits if_splits)
  from Cons.prems(1) u have "ls_seq u = want"
  proof (rule applyPackage_True)
    assume eq: "u = st\<lparr>ls_comp := ls_comp u, ls_seq := want\<rparr>"
    show ?thesis by (subst eq) simp
  qed
  with Cons.IH [OF _ rest] applyPackage_inv [OF Cons.prems(1) u] Cons.prems(3) show ?case by (simp add: ac_simps)
qed simp

section \<open>Catching up ends\<close>

text \<open>Redis answers \<open>MGET\<close> with one value for each key.\<close>

definition store_total :: "keeper \<Rightarrow> bool" where
  "store_total k \<longleftrightarrow> (\<forall>keys objs. kp_objects k keys = Some objs \<longrightarrow> length objs = length keys)"

definition batch :: "u64 \<Rightarrow> u64 \<Rightarrow> nat" where
  "batch goal seq = min (unat (goal - seq)) (nat packagesPerRead)"

lemma batch_step:
  assumes "seq < goal"
  shows "1 \<le> batch goal seq" and "batch goal seq \<le> unat goal - unat seq"
    and "unat (seq + word_of_nat (batch goal seq)) = unat seq + batch goal seq"
proof -
  have le: "unat seq \<le> unat goal" and ne: "unat seq < unat goal" using assms by (simp_all add: word_le_nat_alt word_less_nat_alt)
  have d: "unat (goal - seq) = unat goal - unat seq" using assms by (simp add: unat_sub word_less_nat_alt word_le_nat_alt)
  show b1: "1 \<le> batch goal seq" and b2: "batch goal seq \<le> unat goal - unat seq"
    using ne d by (simp_all add: batch_def)
  have "unat goal < 2 ^ 64" using unsigned_less [of goal] by simp
  then have "unat seq + batch goal seq < 2 ^ 64" using b2 le by linarith
  then show "unat (seq + word_of_nat (batch goal seq)) = unat seq + batch goal seq"
    by (simp add: unat_word_ariths unsigned_of_nat take_bit_eq_mod)
qed

lemma catchUp_loop_ends:
  assumes "store_total k" and "set_inv st" and "unat goal - unat (ls_seq st) < fuel"
  shows "catchUp_loop fuel k goal d st \<noteq> Err e"
  using assms(2,3)
proof (induction fuel arbitrary: st)
  case (Suc fuel)
  show ?case
  proof (cases "goal \<le> ls_seq st")
    case True
    then show ?thesis by (simp add: obind_Err_iff verify_not_Err split: prod.split)
  next
    case False
    then have lt: "ls_seq st < goal" by simp
    let ?n = "batch goal (ls_seq st)"
    have step: "catchUp_loop fuel k goal d u \<noteq> Err e"
      if ks: "kp_objects k (package_keys (ls_name st) (ls_seq st) ?n) = Some objs"
        and run: "apply_packages k (ls_seq st + 1) objs st = Ok (True, u)" for objs u
    proof -
      have len: "length objs = ?n" using assms(1) ks by (auto simp: store_total_def package_keys_def)
      have "ls_seq u = ls_seq st + word_of_nat ?n"
        using apply_packages_seq [OF Suc.prems(1) run] len by simp
      then have "unat (ls_seq u) = unat (ls_seq st) + ?n" using batch_step(3) [OF lt] by simp
      with batch_step(1,2) [OF lt] Suc.prems(2) have "unat goal - unat (ls_seq u) < fuel" by linarith
      with Suc.IH apply_packages_inv [OF Suc.prems(1) run] show ?thesis by blast
    qed
    show ?thesis
      using False step [unfolded batch_def]
      by (auto simp: Let_def obind_Err_iff apply_packages_not_Err split: option.split)
  qed
qed simp

lemma catchUp_ends:
  assumes "store_total k" and "set_inv st"
  shows "catchUp k goal d st \<noteq> Err e"
proof (cases "ls_seq st \<le> goal")
  case True
  then have "unat goal - unat (ls_seq st) < Suc (unat (goal - ls_seq st))" by (simp add: unat_sub word_le_nat_alt)
  then show ?thesis using catchUp_loop_ends [OF assms] by (simp add: catchUp_def del: catchUp_loop.simps)
next
  case False
  then have "goal \<le> ls_seq st" by simp
  then show ?thesis by (simp add: catchUp_def obind_Err_iff verify_not_Err split: prod.split)
qed

lemma onFrame_ends:
  "store_total k \<Longrightarrow> set_inv st \<Longrightarrow> onFrame k now f st \<noteq> Err e"
  by (auto simp: onFrame_def Let_def obind_Err_iff take_snapshot_not_Err verify_not_Err applyPackage_not_Err
      catchUp_ends set_inv_def split: option.split)

section \<open>Every message keeps the invariant\<close>

lemma catchUp_loop_inv:
  "set_inv st \<Longrightarrow> catchUp_loop fuel k goal d st = Ok st' \<Longrightarrow> set_inv st' \<and> ls_name st' = ls_name st"
proof (induction fuel arbitrary: st)
  case (Suc fuel)
  show ?case
  proof (cases "goal \<le> ls_seq st")
    case True
    then show ?thesis using Suc.prems verify_inv [OF Suc.prems(1)] by (auto simp: obind_Ok)
  next
    case False
    let ?keys = "package_keys (ls_name st) (ls_seq st) (batch goal (ls_seq st))"
    show ?thesis
    proof (cases "kp_objects k ?keys")
      case None
      then show ?thesis using Suc.prems False by (simp add: Let_def batch_def)
    next
      case (Some objs)
      with Suc.prems False obtain ok u where u: "apply_packages k (ls_seq st + 1) objs st = Ok (ok, u)"
        and rest: "(if ok then catchUp_loop fuel k goal d u else Ok u) = Ok st'"
        by (auto simp: Let_def batch_def obind_Ok)
      from apply_packages_inv [OF Suc.prems(1) u] rest Suc.IH [of u] show ?thesis by (cases ok) auto
    qed
  qed
qed simp

lemma catchUp_inv:
  "set_inv st \<Longrightarrow> catchUp k goal d st = Ok st' \<Longrightarrow> set_inv st' \<and> ls_name st' = ls_name st"
  using catchUp_loop_inv by (auto simp: catchUp_def simp del: catchUp_loop.simps split: if_splits)

definition touched :: "int \<Rightarrow> frame \<Rightarrow> list_set \<Rightarrow> list_set" where
  "touched now f st = (if f_opr f \<noteq> ''resync'' then st\<lparr>ls_lastSeen := now, ls_silent := False\<rparr> else st)"

lemma touched_fields [simp]:
  "ls_name (touched now f st) = ls_name st" "ls_key (touched now f st) = ls_key st"
  "ls_comp (touched now f st) = ls_comp st" "ls_seq (touched now f st) = ls_seq st"
  "ls_epoch (touched now f st) = ls_epoch st" "ls_typ (touched now f st) = ls_typ st"
  "ls_ready (touched now f st) = ls_ready st" "set_inv (touched now f st) = set_inv st"
  "ls_snapBad (touched now f st) = ls_snapBad st" "ls_syncing (touched now f st) = ls_syncing st"
  by (simp_all add: touched_def set_inv_def)

lemma onFrame_inv:
  assumes inv: "set_inv st" and run: "onFrame k now f st = Ok st'"
  shows "set_inv st' \<and> ls_name st' = ls_name st"
proof -
  let ?t = "touched now f st"
  have t: "set_inv ?t" "set_inv (?t\<lparr>ls_snapBad := False\<rparr>)" using inv by (simp_all add: set_inv_def)
  have "st' = st \<or> st' = ?t \<or> take_snapshot k ?t = Ok st' \<or> take_snapshot k (?t\<lparr>ls_snapBad := False\<rparr>) = Ok st' \<or>
      (\<exists>b. verify k (f_digest f) ?t = Ok (b, st')) \<or>
      (\<exists>b data. applyPackage k data (f_seq f) ?t = Ok (b, st')) \<or> catchUp k (f_seq f) (f_digest f) ?t = Ok st'"
    using run unfolding onFrame_def Let_def touched_def [symmetric]
    by (simp add: obind_Ok split: if_splits option.splits) blast+
  then show ?thesis
    using inv take_snapshot_inv [OF t(1)] take_snapshot_inv [OF t(2)] verify_inv [OF t(1)]
      applyPackage_inv [OF t(1)] catchUp_inv [OF t(1)] by auto
qed

section \<open>Following an honest keeper\<close>

text \<open>The keeper's contents after package \<open>s\<close> is \<open>hist s\<close>. A package is honest when it is the one
  that leads from \<open>hist (s - 1)\<close> to \<open>hist s\<close> and carries the digest of the result.\<close>

definition honest_package :: "list_set \<Rightarrow> (u64 \<Rightarrow> content) \<Rightarrow> u64 \<Rightarrow> string \<Rightarrow> bool" where
  "honest_package st hist s data \<longleftrightarrow>
     (\<exists>h rs. unpack data = Ok (h, rs) \<and> hd_kind h = kindPackage \<and> hd_epoch h = ls_epoch st \<and> hd_seq h = s \<and>
        hd_typ h = ls_typ st \<and> (\<forall>r \<in> set rs. sane (ls_typ st) r) \<and>
        hist s = replay (ls_typ st) rs (hist (s - 1)) \<and> hd_hash h = digest (ls_key st) (hist s))"

definition honest_store :: "keeper \<Rightarrow> list_set \<Rightarrow> (u64 \<Rightarrow> content) \<Rightarrow> u64 \<Rightarrow> bool" where
  "honest_store k st hist goal \<longleftrightarrow> kp_blobs k \<and>
     (\<exists>db. (\<forall>keys. kp_objects k keys = Some (map db keys)) \<and>
        (\<forall>s. ls_seq st < s \<longrightarrow> s \<le> goal \<longrightarrow>
           (\<exists>data. db (diffKey (ls_name st) s) = Some data \<and> honest_package st hist s data)))"

text \<open>What stays the same while packages are applied.\<close>

definition moved :: "(u64 \<Rightarrow> content) \<Rightarrow> list_set \<Rightarrow> u64 \<Rightarrow> list_set \<Rightarrow> bool" where
  "moved hist st s st' \<longleftrightarrow>
     st' = st\<lparr>ls_comp := ls_comp st', ls_seq := s\<rparr> \<and> set_inv st' \<and> content_of (ls_comp st') = hist s"

lemma moved_self: "set_inv st \<Longrightarrow> content_of (ls_comp st) = hist (ls_seq st) \<Longrightarrow> moved hist st (ls_seq st) st"
  by (simp add: moved_def)

lemma moved_fields:
  assumes "moved hist st s st'"
  shows "ls_seq st' = s" "ls_name st' = ls_name st" "ls_epoch st' = ls_epoch st" "ls_typ st' = ls_typ st"
    "ls_key st' = ls_key st" "ls_ready st' = ls_ready st" "set_inv st'" "content_of (ls_comp st') = hist s"
proof -
  have eq: "st' = st\<lparr>ls_comp := ls_comp st', ls_seq := s\<rparr>" using assms by (simp add: moved_def)
  show "ls_seq st' = s" "ls_name st' = ls_name st" "ls_epoch st' = ls_epoch st" "ls_typ st' = ls_typ st"
    "ls_key st' = ls_key st" "ls_ready st' = ls_ready st" by (subst eq, simp)+
  show "set_inv st'" "content_of (ls_comp st') = hist s" using assms by (simp_all add: moved_def)
qed

lemma moved_trans:
  assumes "moved hist st s u" and "moved hist u t v"
  shows "moved hist st t v"
proof -
  have u: "u = st\<lparr>ls_comp := ls_comp u, ls_seq := s\<rparr>" and v: "v = u\<lparr>ls_comp := ls_comp v, ls_seq := t\<rparr>"
    using assms by (simp_all add: moved_def)
  have "v = st\<lparr>ls_comp := ls_comp v, ls_seq := t\<rparr>" by (subst v, subst u) simp
  then show ?thesis using moved_fields(7,8) [OF assms(2)] by (simp add: moved_def)
qed

lemma honest_package_moved: "moved hist st s u \<Longrightarrow> honest_package u hist t data = honest_package st hist t data"
  by (simp add: honest_package_def moved_fields)

lemma applyPackage_honest:
  assumes inv: "set_inv st" and here: "content_of (ls_comp st) = hist (s - 1)"
    and "honest_package st hist s data"
  obtains st' where "applyPackage k data s st = Ok (True, st')" and "moved hist st s st'"
proof -
  obtain h rs where h: "unpack data = Ok (h, rs)" "hd_kind h = kindPackage" "hd_epoch h = ls_epoch st" "hd_seq h = s"
      "hd_typ h = ls_typ st" "\<forall>r \<in> set rs. sane (ls_typ st) r" "hist s = replay (ls_typ st) rs (hist (s - 1))"
      "hd_hash h = digest (ls_key st) (hist s)"
    using assms(3) by (auto simp: honest_package_def)
  have ci: "comp_inv (ls_key st) (ls_comp st)" using inv by (simp add: set_inv_def)
  then obtain cm where cm: "apply_all (ls_key st) (ls_typ st) rs (ls_comp st) = Ok cm"
    using apply_all_Ok_iff [OF ci] h(6) by blast
  have r: "content_of cm = hist s" "comp_inv (ls_key st) cm"
    using apply_all_refines [OF ci cm] here h(7) by simp_all
  then have "c_hash cm = hd_hash h" using h(8) by (simp add: comp_inv_table)
  then have "applyPackage k data s st = Ok (True, st\<lparr>ls_comp := cm, ls_seq := s\<rparr>)"
    using h cm by (simp add: applyPackage_def verify_def)
  moreover have "moved hist st s (st\<lparr>ls_comp := cm, ls_seq := s\<rparr>)" using r by (simp add: moved_def set_inv_def)
  ultimately show thesis by (rule that)
qed

lemma apply_packages_honest:
  assumes "set_inv st" and "content_of (ls_comp st) = hist (ls_seq st)"
    and "\<forall>i < length ds. \<exists>data. ds ! i = Some data \<and> honest_package st hist (ls_seq st + 1 + word_of_nat i) data"
  shows "\<exists>st'. apply_packages k (ls_seq st + 1) ds st = Ok (True, st') \<and>
    moved hist st (ls_seq st + word_of_nat (length ds)) st'"
  using assms
proof (induction ds arbitrary: st)
  case (Cons d ds)
  from Cons.prems(3) [rule_format, of 0] obtain data where d: "d = Some data"
    and hp: "honest_package st hist (ls_seq st + 1) data" by auto
  have "content_of (ls_comp st) = hist (ls_seq st + 1 - 1)" using Cons.prems(2) by simp
  from applyPackage_honest [OF Cons.prems(1) this hp, of k] obtain u
    where u: "applyPackage k data (ls_seq st + 1) st = Ok (True, u)" and mv: "moved hist st (ls_seq st + 1) u" .
  have "\<forall>i < length ds. \<exists>data. ds ! i = Some data \<and> honest_package u hist (ls_seq u + 1 + word_of_nat i) data"
    using Cons.prems(3) [rule_format, of "Suc i" for i] by (simp add: honest_package_moved [OF mv] moved_fields [OF mv] add.assoc)
  from Cons.IH [OF moved_fields(7) [OF mv] _ this] moved_fields [OF mv] obtain v where
    v: "apply_packages k (ls_seq u + 1) ds u = Ok (True, v)" and mv': "moved hist u (ls_seq u + word_of_nat (length ds)) v"
    by auto
  have "moved hist st (ls_seq st + word_of_nat (length (d # ds))) v"
    using moved_trans [OF mv mv'] moved_fields(1) [OF mv] by (simp add: add.assoc)
  then show ?case using d u v moved_fields(1) [OF mv] by (simp add: add.assoc)
qed (simp add: moved_self)

lemma catchUp_loop_honest:
  assumes "honest_store k st hist goal" and "set_inv st" and "content_of (ls_comp st) = hist (ls_seq st)"
    and "ls_seq st \<le> goal" and "d = [] \<or> d = hexOf (digest (ls_key st) (hist goal))"
    and "unat goal - unat (ls_seq st) < fuel"
  shows "\<exists>st'. catchUp_loop fuel k goal d st = Ok st' \<and> moved hist st goal st'"
  using assms
proof (induction fuel arbitrary: st)
  case (Suc fuel)
  show ?case
  proof (cases "goal \<le> ls_seq st")
    case True
    then have eq: "ls_seq st = goal" using Suc.prems(4) by simp
    then have "c_hash (ls_comp st) = digest (ls_key st) (hist goal)"
      using Suc.prems(2,3) by (simp add: set_inv_def comp_inv_table)
    then have "verify k d st = Ok (True, st)" using Suc.prems(5) by (auto simp: verify_def)
    then show ?thesis using eq moved_self [OF Suc.prems(2), of hist] Suc.prems(3) by auto
  next
    case False
    then have lt: "ls_seq st < goal" by simp
    let ?n = "batch goal (ls_seq st)"
    obtain db where db: "kp_objects k keys = Some (map db keys)" and
      pk: "ls_seq st < s \<Longrightarrow> s \<le> goal \<Longrightarrow>
         \<exists>data. db (diffKey (ls_name st) s) = Some data \<and> honest_package st hist s data" for s keys
      using Suc.prems(1) unfolding honest_store_def by blast
    let ?ds = "map db (package_keys (ls_name st) (ls_seq st) ?n)"
    have between: "ls_seq st < ls_seq st + 1 + word_of_nat i \<and> ls_seq st + 1 + word_of_nat i \<le> goal" if "i < ?n" for i
    proof -
      have "unat goal < 2 ^ 64" using unsigned_less [of goal] by simp
      then have "unat (ls_seq st) + 1 + i < 2 ^ 64" and up: "unat (ls_seq st) + 1 + i \<le> unat goal"
        using that batch_step(2) [OF lt] lt by (auto simp: word_less_nat_alt)
      then have "unat (ls_seq st + 1 + word_of_nat i) = unat (ls_seq st) + 1 + i"
        by (simp add: unat_word_ariths unsigned_of_nat take_bit_eq_mod)
      then show ?thesis using up by (simp add: word_less_nat_alt word_le_nat_alt)
    qed
    have len: "length ?ds = ?n" by (simp add: package_keys_def)
    have "\<forall>i < length ?ds. \<exists>data. ?ds ! i = Some data \<and> honest_package st hist (ls_seq st + 1 + word_of_nat i) data"
      using pk between by (simp add: package_keys_def)
    from apply_packages_honest [OF Suc.prems(2,3) this, of k] len obtain u where
      u: "apply_packages k (ls_seq st + 1) ?ds st = Ok (True, u)" and mv: "moved hist st (ls_seq st + word_of_nat ?n) u"
      by auto
    have un: "unat (ls_seq u) = unat (ls_seq st) + ?n" using batch_step(3) [OF lt] moved_fields(1) [OF mv] by simp
    then have up: "ls_seq st \<le> ls_seq u" "ls_seq u \<le> goal" "unat goal - unat (ls_seq u) < fuel"
      using batch_step(1,2) [OF lt] lt Suc.prems(6) by (auto simp: word_le_nat_alt word_less_nat_alt)
    have "honest_store k u hist goal"
      using Suc.prems(1) up(1) unfolding honest_store_def honest_package_moved [OF mv] moved_fields(2) [OF mv]
      by (meson order_le_less_trans)
    then have "\<exists>v. catchUp_loop fuel k goal d u = Ok v \<and> moved hist u goal v"
      using Suc.IH [of u] up Suc.prems(5) moved_fields [OF mv] by simp
    then obtain v where v: "catchUp_loop fuel k goal d u = Ok v" "moved hist u goal v" by blast
    have "catchUp_loop (Suc fuel) k goal d st = Ok v"
      using False u v(1) db [of "package_keys (ls_name st) (ls_seq st) ?n"] by (simp add: Let_def batch_def)
    then show ?thesis using moved_trans [OF mv v(2)] by blast
  qed
qed simp

lemma catchUp_honest:
  assumes "honest_store k st hist goal" and "set_inv st" and "content_of (ls_comp st) = hist (ls_seq st)"
    and "ls_seq st \<le> goal" and "d = [] \<or> d = hexOf (digest (ls_key st) (hist goal))"
  shows "\<exists>st'. catchUp k goal d st = Ok st' \<and> moved hist st goal st'"
proof -
  have "unat goal - unat (ls_seq st) < Suc (unat (goal - ls_seq st))"
    using assms(4) by (simp add: unat_sub word_le_nat_alt)
  from catchUp_loop_honest [OF assms this] show ?thesis
    using assms(1) by (simp add: catchUp_def honest_store_def del: catchUp_loop.simps)
qed

text \<open>One message of an honest keeper brings the set to the contents the message announces.\<close>

lemma onFrame_honest:
  assumes st: "ls_ready st" "set_inv st" "content_of (ls_comp st) = hist (ls_seq st)"
    and f: "f_v f = ListVersion" "f_opr f \<in> {''tick'', ''diff''}" "f_epoch f = hexOf (ls_epoch st)" "ls_seq st \<le> f_seq f"
      "f_digest f = [] \<or> f_digest f = hexOf (digest (ls_key st) (hist (f_seq f)))"
    and store: "honest_store k st hist (f_seq f)"
    and inline: "f_inline f = [] \<or> b64_decode (f_inline f) = None \<or>
      honest_package st hist (f_seq f) (the (b64_decode (f_inline f)))"
  shows "\<exists>st'. onFrame k now f st = Ok st' \<and> ls_seq st' = f_seq f \<and> content_of (ls_comp st') = hist (f_seq f) \<and>
    set_inv st' \<and> ls_silent st' = False \<and> ls_lastSeen st' = now"
proof -
  let ?t = "touched now f st"
  have op: "f_opr f \<noteq> ''resync''" using f(2) by auto
  have t: "set_inv ?t" "content_of (ls_comp ?t) = hist (ls_seq ?t)" "ls_seq ?t \<le> f_seq f"
    "f_digest f = [] \<or> f_digest f = hexOf (digest (ls_key ?t) (hist (f_seq f)))" using st f by simp_all
  have pk: "honest_package ?t hist s data = honest_package st hist s data" for s data by (simp add: honest_package_def)
  have ht: "honest_store k ?t hist (f_seq f)" using store by (simp add: honest_store_def pk)
  have seen: "ls_silent ?t = False" "ls_lastSeen ?t = now" using op by (simp_all add: touched_def)
  have mv: "ls_silent u = False \<and> ls_lastSeen u = now" if "moved hist ?t s u" for s u
  proof -
    have eq: "u = ?t\<lparr>ls_comp := ls_comp u, ls_seq := s\<rparr>" using that by (simp add: moved_def)
    show ?thesis by (subst eq, subst (2) eq) (simp add: seen)
  qed
  have goal: ?thesis if "onFrame k now f st = Ok u" "moved hist ?t (f_seq f) u" for u
    using that moved_fields [OF that(2)] mv by auto
  have head: "onFrame k now f st =
      (if f_seq f = ls_seq st then obind (verify k (f_digest f) ?t) (\<lambda>(_, st). Ok st)
       else if f_opr f = ''diff'' \<and> f_inline f \<noteq> [] \<and> f_seq f = ls_seq st + 1 \<and> b64_decode (f_inline f) \<noteq> None
       then obind (applyPackage k (the (b64_decode (f_inline f))) (f_seq f) ?t) (\<lambda>(_, st). Ok st)
       else catchUp k (f_seq f) (f_digest f) ?t)"
    using st(1) f op unfolding onFrame_def Let_def touched_def [symmetric]
    by (simp add: parse_hexOf not_less [symmetric])
  consider (same) "f_seq f = ls_seq st"
    | (inline) "f_seq f \<noteq> ls_seq st" "f_opr f = ''diff'' \<and> f_inline f \<noteq> [] \<and> f_seq f = ls_seq st + 1 \<and> b64_decode (f_inline f) \<noteq> None"
    | (behind) "f_seq f \<noteq> ls_seq st" "\<not> (f_opr f = ''diff'' \<and> f_inline f \<noteq> [] \<and> f_seq f = ls_seq st + 1 \<and> b64_decode (f_inline f) \<noteq> None)"
    by blast
  then show ?thesis
  proof cases
    case same
    have "c_hash (ls_comp st) = digest (ls_key st) (hist (ls_seq st))"
      using st(2,3) by (simp add: set_inv_def comp_inv_table)
    then have "verify k (f_digest f) ?t = Ok (True, ?t)" using f(5) same by (auto simp: verify_def)
    then have "onFrame k now f st = Ok ?t" using head same by simp
    moreover have "moved hist ?t (f_seq f) ?t" using moved_self [of ?t hist] t(1,2) same by simp
    ultimately show ?thesis by (rule goal)
  next
    case inl: inline
    then have "honest_package ?t hist (f_seq f) (the (b64_decode (f_inline f)))" using inline pk by auto
    moreover have "content_of (ls_comp ?t) = hist (f_seq f - 1)" using inl st(3) by simp
    ultimately obtain u where "applyPackage k (the (b64_decode (f_inline f))) (f_seq f) ?t = Ok (True, u)"
      and "moved hist ?t (f_seq f) u" by (metis applyPackage_honest [OF t(1)])
    moreover from this(1) have "onFrame k now f st = Ok u" using head inl by simp
    ultimately show ?thesis by (intro goal)
  next
    case behind
    obtain u where "catchUp k (f_seq f) (f_digest f) ?t = Ok u" "moved hist ?t (f_seq f) u"
      using catchUp_honest [OF ht t] by blast
    moreover from this(1) have "onFrame k now f st = Ok u" using head behind by (simp only: if_False)
    ultimately show ?thesis by (intro goal)
  qed
qed

end
