(* ===== verification/Mirror.thy ===== *)
theory Mirror
  imports Livelist_Sync
begin

text \<open>
  The mirror: the sets by name, each with its inbox of frames and the goroutine that reads them.
  \<open>mirror_step\<close> interleaves what runs beside each other: \<open>Ensure\<close>, the subscription's callback, the
  goroutine of a set (its first snapshot, then one frame at a time), the resync ticker and \<open>Close\<close>.
  A frame is handled in one step: only its own goroutine writes the fields a frame changes,
  \<open>silent\<close> excepted, which the ticker may set in between and nothing else reads.
\<close>

record mirror_set =
  ms_set :: list_set
  ms_in :: "frame list"
  ms_running :: bool
  ms_started :: bool

record mirror =
  mi_sets :: "(string \<times> mirror_set) list"
  mi_subs :: "string list"
  mi_done :: bool

abbreviation queueDepth :: nat where "queueDepth \<equiv> 1024"

definition new_mirror :: mirror where
  "new_mirror = \<lparr>mi_sets = [], mi_subs = [], mi_done = False\<rparr>"

text \<open>\<open>Ensure\<close>: the set is registered before the subscription is made, and stays registered when
  the subscription fails; its goroutine starts only when it succeeds.\<close>

definition Ensure :: "string \<Rightarrow> int \<Rightarrow> bool \<Rightarrow> mirror \<Rightarrow> mirror" where
  "Ensure name now subscribed m =
     (if name = [] then m
      else if map_of (mi_sets m) name \<noteq> None then m
      else m\<lparr>mi_sets := AList.update name
               \<lparr>ms_set = new_set name now, ms_in = [], ms_running = subscribed, ms_started = False\<rparr> (mi_sets m),
             mi_subs := (if subscribed then mi_subs m @ [name] else mi_subs m)\<rparr>)"

text \<open>A send on the buffered channel that drops the frame when the channel is full.\<close>

definition push_frame :: "frame \<Rightarrow> mirror_set \<Rightarrow> mirror_set" where
  "push_frame f s = (if length (ms_in s) < queueDepth then s\<lparr>ms_in := ms_in s @ [f]\<rparr> else s)"

definition change_set :: "string \<Rightarrow> mirror_set \<Rightarrow> mirror \<Rightarrow> mirror" where
  "change_set name s m = m\<lparr>mi_sets := AList.update name s (mi_sets m)\<rparr>"

definition resync_frame :: frame where
  "resync_frame = \<lparr>f_v = ListVersion, f_set = [], f_epoch = [], f_seq = 0, f_opr = ''resync'', f_digest = [],
     f_inline = [], f_object = []\<rparr>"

definition resync_one :: "int \<Rightarrow> mirror_set \<Rightarrow> mirror_set" where
  "resync_one now s =
     (let (ask, st) = resync_set now (ms_set s); s' = s\<lparr>ms_set := st\<rparr>
      in if ask then push_frame resync_frame s' else s')"

definition resync_tick :: "int \<Rightarrow> mirror \<Rightarrow> mirror" where
  "resync_tick now m = m\<lparr>mi_sets := map (\<lambda>(n, s). (n, resync_one now s)) (mi_sets m)\<rparr>"

text \<open>The goroutine \<open>run\<close>: the first snapshot, then the frames of the inbox.\<close>

definition run_start :: "keeper \<Rightarrow> mirror_set \<Rightarrow> (unit, mirror_set) outcome" where
  "run_start k s = obind (take_snapshot k (ms_set s)) (\<lambda>st. Ok (s\<lparr>ms_set := st, ms_started := True\<rparr>))"

definition run_frame :: "keeper \<Rightarrow> int \<Rightarrow> mirror_set \<Rightarrow> (unit, mirror_set) outcome" where
  "run_frame k now s =
     (case ms_in s of
        [] \<Rightarrow> Ok s
      | f # fs \<Rightarrow> obind (onFrame k now f (ms_set s)) (\<lambda>st. Ok (s\<lparr>ms_set := st, ms_in := fs\<rparr>)))"

definition mirror_Close :: "mirror \<Rightarrow> mirror" where
  "mirror_Close m = m\<lparr>mi_done := True, mi_subs := []\<rparr>"

record set_stats =
  sn_name :: string
  sn_ready :: bool
  sn_epoch :: string
  sn_seq :: u64
  sn_digest :: string
  sn_entries :: nat

text \<open>\<open>Stats\<close>, in the order of the association list; Go ranges over the map in any order.\<close>

definition Stats :: "mirror \<Rightarrow> set_stats list" where
  "Stats m = map (\<lambda>(n, s). let st = ms_set s in
     \<lparr>sn_name = ls_name st, sn_ready = ls_ready st, sn_epoch = hexOf (ls_epoch st), sn_seq = ls_seq st,
      sn_digest = hexOf (c_hash (ls_comp st)), sn_entries = comp_size (ls_comp st)\<rparr>) (mi_sets m)"

definition mirror_lookup :: "mirror \<Rightarrow> string \<Rightarrow> list_set option" where
  "mirror_lookup m name = map_option ms_set (map_of (mi_sets m) name)"

definition mirror_Contains :: "mirror \<Rightarrow> string \<Rightarrow> string \<Rightarrow> int \<Rightarrow> bool \<times> bool" where
  "mirror_Contains m name v now = set_Contains (mirror_lookup m name) v now"

definition mirror_ContainsAddr :: "mirror \<Rightarrow> string \<Rightarrow> addr \<Rightarrow> int \<Rightarrow> bool \<times> bool" where
  "mirror_ContainsAddr m name ip now = set_ContainsAddr (mirror_lookup m name) ip now"

definition mirror_Lookup :: "mirror \<Rightarrow> string \<Rightarrow> string \<Rightarrow> int \<Rightarrow> entry option \<times> bool" where
  "mirror_Lookup m name v now = set_Lookup (mirror_lookup m name) v now"

section \<open>The Redis objects\<close>

text \<open>\<open>RedisBlobs\<close> on a client whose replies are a value, the answer that there is none
  (\<open>redis.Nil\<close>), or an error; a value inside an \<open>MGET\<close> reply that is not a string counts as none.\<close>

datatype get_reply = GetData string | GetNil | GetErr

record blob_client =
  bc_get :: "string \<Rightarrow> get_reply"
  bc_mget :: "string list \<Rightarrow> get_reply list option"

definition blobs_Object :: "blob_client \<Rightarrow> string \<Rightarrow> string option option" where
  "blobs_Object b key =
     (case bc_get b key of GetNil \<Rightarrow> Some None | GetErr \<Rightarrow> None | GetData data \<Rightarrow> Some (Some data))"

definition blobs_Objects :: "blob_client \<Rightarrow> string list \<Rightarrow> string option list option" where
  "blobs_Objects b keys =
     (case bc_mget b keys of
        None \<Rightarrow> None
      | Some vals \<Rightarrow> Some (map (\<lambda>v. case v of GetData s \<Rightarrow> Some s | _ \<Rightarrow> None) vals))"

text \<open>Redis answers \<open>MGET\<close> with one value for each key, so the mirror's store does.\<close>

definition mget_total :: "blob_client \<Rightarrow> bool" where
  "mget_total b \<longleftrightarrow> (\<forall>keys vals. bc_mget b keys = Some vals \<longrightarrow> length vals = length keys)"

lemma blobs_store_total: "mget_total b \<Longrightarrow> kp_objects k = blobs_Objects b \<Longrightarrow> store_total k"
  by (auto simp: mget_total_def store_total_def blobs_Objects_def split: option.splits)

section \<open>Runs\<close>

inductive mirror_step :: "mirror \<Rightarrow> mirror \<Rightarrow> bool" where
  ensure: "mirror_step m (Ensure name now ok m)"
| deliver: "name \<in> set (mi_subs m) \<Longrightarrow> map_of (mi_sets m) name = Some s \<Longrightarrow>
    mirror_step m (change_set name (push_frame f s) m)"
| start: "map_of (mi_sets m) name = Some s \<Longrightarrow> ms_running s \<Longrightarrow> \<not> ms_started s \<Longrightarrow> run_start k s = Ok s' \<Longrightarrow>
    mirror_step m (change_set name s' m)"
| frame: "map_of (mi_sets m) name = Some s \<Longrightarrow> ms_running s \<Longrightarrow> ms_started s \<Longrightarrow> ms_in s \<noteq> [] \<Longrightarrow>
    run_frame k now s = Ok s' \<Longrightarrow> mirror_step m (change_set name s' m)"
| tick: "\<not> mi_done m \<Longrightarrow> mirror_step m (resync_tick now m)"
| close: "mirror_step m (mirror_Close m)"

inductive mirror_reachable :: "mirror \<Rightarrow> bool" where
  initial: "mirror_reachable new_mirror"
| further: "mirror_reachable m \<Longrightarrow> mirror_step m m' \<Longrightarrow> mirror_reachable m'"

definition mset_inv :: "string \<Rightarrow> mirror_set \<Rightarrow> bool" where
  "mset_inv n s \<longleftrightarrow> set_inv (ms_set s) \<and> ls_name (ms_set s) = n \<and> length (ms_in s) \<le> queueDepth \<and>
     (\<not> ms_running s \<longrightarrow> \<not> ls_ready (ms_set s))"

definition mirror_inv :: "mirror \<Rightarrow> bool" where
  "mirror_inv m \<longleftrightarrow> distinct (map fst (mi_sets m)) \<and> (\<forall>n s. map_of (mi_sets m) n = Some s \<longrightarrow> mset_inv n s)"

lemma mset_inv_push: "mset_inv n s \<Longrightarrow> mset_inv n (push_frame f s)"
  by (simp add: mset_inv_def push_frame_def)

lemma mset_inv_resync: "mset_inv n s \<Longrightarrow> mset_inv n (resync_one now s)"
  by (auto simp: resync_one_def resync_set_def Let_def mset_inv_def set_inv_def push_frame_def)

lemma mset_inv_start:
  "mset_inv n s \<Longrightarrow> ms_running s \<Longrightarrow> run_start k s = Ok s' \<Longrightarrow> mset_inv n s'"
  using take_snapshot_inv by (auto simp: run_start_def mset_inv_def obind_Ok)

lemma mset_inv_frame:
  "mset_inv n s \<Longrightarrow> ms_running s \<Longrightarrow> run_frame k now s = Ok s' \<Longrightarrow> mset_inv n s'"
  using onFrame_inv by (fastforce simp: run_frame_def mset_inv_def obind_Ok split: list.splits)

lemma mirror_inv_change: "mirror_inv m \<Longrightarrow> mset_inv n s \<Longrightarrow> mirror_inv (change_set n s m)"
  by (auto simp: mirror_inv_def change_set_def update_conv' distinct_update)

lemma map_of_resync: "map_of (mi_sets (resync_tick now m)) n = map_option (resync_one now) (map_of (mi_sets m) n)"
  by (simp add: resync_tick_def map_of_map)

lemma mirror_inv_step:
  assumes "mirror_step m m'" and "mirror_inv m"
  shows "mirror_inv m'"
  using assms
proof (induction rule: mirror_step.induct)
  case (ensure m name now ok)
  have "mset_inv name \<lparr>ms_set = new_set name now, ms_in = [], ms_running = ok, ms_started = False\<rparr>"
    by (simp add: mset_inv_def) (simp add: new_set_def)
  from mirror_inv_change [OF ensure this] show ?case
    using ensure by (simp add: Ensure_def mirror_inv_def change_set_def)
next
  case (deliver name m s f)
  then have "mset_inv name s" by (simp add: mirror_inv_def)
  with deliver show ?case by (blast intro: mirror_inv_change mset_inv_push)
next
  case (start m name s k s')
  then have "mset_inv name s" by (simp add: mirror_inv_def)
  with start show ?case by (blast intro: mirror_inv_change mset_inv_start)
next
  case (frame m name s k now s')
  then have "mset_inv name s" by (simp add: mirror_inv_def)
  with frame show ?case by (blast intro: mirror_inv_change mset_inv_frame)
next
  case (tick m now)
  have "map fst (mi_sets (resync_tick now m)) = map fst (mi_sets m)"
    by (simp add: resync_tick_def case_prod_beta comp_def)
  then show ?case using tick by (auto simp: mirror_inv_def map_of_resync mset_inv_resync)
qed (simp add: mirror_Close_def mirror_inv_def)

lemma mirror_inv_reachable: "mirror_reachable m \<Longrightarrow> mirror_inv m"
proof (induction rule: mirror_reachable.induct)
  case initial
  show ?case by (simp add: mirror_inv_def new_mirror_def)
qed (rule mirror_inv_step)

end
