(* ===== verification/Livelist_Claims.thy ===== *)
theory Livelist_Claims
  imports Mirror
begin

text \<open>
  The properties of the dynamic lists: the object format, the composition with its digest, the
  lookup, and the mirror that follows a keeper. The sample values are a list of one word and a
  list of one network.
\<close>

section \<open>Samples\<close>

definition zero_key :: string where "zero_key = replicate 16 (char_of (0::int))"

definition word_record :: pack_record where
  "word_record = \<lparr>rc_op = recAdd, rc_prefix = prefix_zero, rc_value = ''bad'', rc_exp = 0, rc_reason = []\<rparr>"

definition word_hist :: "u64 \<Rightarrow> content" where
  "word_hist s = (if s = 1 then replay typeString [word_record] empty_content else empty_content)"

definition word_head :: pack_head where
  "word_head = \<lparr>hd_kind = kindPackage, hd_typ = typeString, hd_flags = 0, hd_epoch = 0, hd_seq = 1,
     hd_hash = digest zero_key (word_hist 1), hd_key = zero_key, hd_count = 1\<rparr>"

definition word_set :: list_set where
  "word_set = (new_set ''ban'' 0)\<lparr>ls_ready := True, ls_typ := typeString\<rparr>"

definition word_keeper :: keeper where
  "word_keeper = \<lparr>kp_request = None, kp_decodes = False, kp_object = (\<lambda>_. None),
     kp_objects = (\<lambda>keys. Some (map (\<lambda>_. Some (pack word_head [word_record])) keys)), kp_blobs = True\<rparr>"

definition word_frame :: frame where
  "word_frame = \<lparr>f_v = ListVersion, f_set = ''ban'', f_epoch = hexOf 0, f_seq = 1, f_opr = ''diff'',
     f_digest = hexOf (digest zero_key (word_hist 1)), f_inline = [], f_object = []\<rparr>"

lemma word_head_ok: "head_ok word_head" "pack_record_ok typeString 0 word_record"
  by (simp_all add: head_ok_def word_head_def zero_key_def pack_record_ok_def word_record_def)

lemma word_unpack: "unpack (pack word_head [word_record]) = Ok (word_head, [word_record])"
  using unpack_pack [of word_head "[word_record]" "[]"] word_head_ok by (simp add: word_head_def)

lemma word_set_inv: "set_inv word_set" "content_of (ls_comp word_set) = word_hist 0"
  by (simp_all add: word_set_def set_inv_def new_set_def comp_inv_new content_new word_hist_def)

lemma word_package: "honest_package word_set word_hist 1 (pack word_head [word_record])"
  unfolding honest_package_def
  by (rule exI [of _ word_head], rule exI [of _ "[word_record]"])
    (simp add: word_unpack, simp add: word_head_def word_set_def new_set_def zero_key_def sane_def word_record_def word_hist_def)

lemma word_store: "honest_store word_keeper word_set word_hist 1"
proof -
  have "s = 1" if "ls_seq word_set < s" "s \<le> 1" for s :: u64
    using that by (simp add: word_set_def new_set_def word_less_nat_alt word_le_nat_alt word_unat_eq_iff)
  then show ?thesis using word_package
    by (auto simp: honest_store_def word_keeper_def intro!: exI [of _ "\<lambda>_. Some (pack word_head [word_record])"])
qed

text \<open>A mirror with the network 10.0.0.0/8, from its creation through its first snapshot.\<close>

definition net8 :: ip_prefix where "net8 = PrefixFrom (IPv4 0x0A000000) 8"

definition net_record :: pack_record where
  "net_record = \<lparr>rc_op = recAdd, rc_prefix = net8, rc_value = [], rc_exp = 0, rc_reason = []\<rparr>"

definition net_head :: pack_head where
  "net_head = \<lparr>hd_kind = kindSnapshot, hd_typ = typeCIDR, hd_flags = 0, hd_epoch = 7, hd_seq = 3,
     hd_hash = net_hash zero_key net8, hd_key = zero_key, hd_count = 1\<rparr>"

definition net_comp :: composition where
  "net_comp = \<lparr>c_entries = [], c_nets = [(net8, 0)], c_lens = len_add (\<lambda>_ _. 0) net8 1, c_hash = net_hash zero_key net8\<rparr>"

definition net_keeper :: keeper where
  "net_keeper = \<lparr>kp_request = Some (resync_frame\<lparr>f_opr := ''snapshot'', f_object := ''o''\<rparr>), kp_decodes = True,
     kp_object = (\<lambda>_. Some (Some (pack net_head [net_record]))), kp_objects = (\<lambda>_. None), kp_blobs = True\<rparr>"

definition net_set :: list_set where
  "net_set = (new_set ''nets'' 0)\<lparr>ls_epoch := 7, ls_seq := 3, ls_key := zero_key, ls_typ := typeCIDR, ls_comp := net_comp,
     ls_ready := True\<rparr>"

definition net_mirror :: mirror where
  "net_mirror = \<lparr>mi_sets = [(''nets'', \<lparr>ms_set = net_set, ms_in = [], ms_running = True, ms_started = True\<rparr>)],
     mi_subs = [''nets''], mi_done = False\<rparr>"

lemma net8_fields: "net8 = \<lparr>pfx_addr = IPv4 0x0A000000, pfx_bits = 8\<rparr>"
  by (simp add: net8_def PrefixFrom_def withoutZone_def BitLen_def IsValid_def)

lemma net_unpack: "unpack (pack net_head [net_record]) = Ok (net_head, [net_record])"
proof -
  have "head_ok net_head" "pack_record_ok typeCIDR 0 net_record"
    by (auto simp: head_ok_def net_head_def zero_key_def pack_record_ok_def net_record_def net8_fields
        PrefixFrom_def withoutZone_def BitLen_def IsValid_def intro!: exI [of _ "IPv4 0x0A000000"])
  then show ?thesis using unpack_pack [of net_head "[net_record]" "[]"] by (simp add: net_head_def)
qed

lemma net_apply: "apply_all zero_key typeCIDR [net_record] newComposition = Ok net_comp"
  by (simp add: comp_apply_def apply_net_def net_record_def newComposition_def net_comp_def len_ok_def net8_fields
      net_hash_def Let_def)

lemma net_snapshot: "take_snapshot net_keeper (new_set ''nets'' 0) = Ok net_set"
proof -
  have "install_object (pack net_head [net_record]) (new_set ''nets'' 0) = Ok net_set"
    using net_apply
    by (simp add: install_object_def net_unpack) (simp add: net_head_def install_def net_set_def new_set_def net_comp_def)
  then show ?thesis by (simp add: take_snapshot_def net_keeper_def resync_frame_def new_set_def)
qed

lemma snapshot_reachable:
  assumes "take_snapshot K (new_set ''nets'' 0) = Ok st"
  shows "mirror_reachable
    \<lparr>mi_sets = [(''nets'', \<lparr>ms_set = st, ms_in = [], ms_running = True, ms_started = True\<rparr>)],
     mi_subs = [''nets''], mi_done = False\<rparr>"
proof -
  let ?m = "Ensure ''nets'' 0 True new_mirror"
  let ?s = "\<lparr>ms_set = new_set ''nets'' 0, ms_in = [], ms_running = True, ms_started = False\<rparr>"
  have m: "map_of (mi_sets ?m) ''nets'' = Some ?s" by (simp add: Ensure_def new_mirror_def)
  have "run_start K ?s = Ok (?s\<lparr>ms_set := st, ms_started := True\<rparr>)"
    by (simp add: run_start_def assms)
  from mirror_step.start [OF m _ _ this]
  have "mirror_step ?m (change_set ''nets'' (?s\<lparr>ms_set := st, ms_started := True\<rparr>) ?m)" by simp
  then have "mirror_reachable (change_set ''nets'' (?s\<lparr>ms_set := st, ms_started := True\<rparr>) ?m)"
    using mirror_reachable.further [OF mirror_reachable.further [OF mirror_reachable.initial mirror_step.ensure]] by blast
  then show ?thesis by (simp add: change_set_def Ensure_def new_mirror_def)
qed

lemma net_mirror_reachable: "mirror_reachable net_mirror"
  unfolding net_mirror_def by (rule snapshot_reachable [OF net_snapshot])

text \<open>The same list with the network written 10.1.2.3/8, with bits of a host.\<close>

definition host8 :: ip_prefix where "host8 = PrefixFrom (IPv4 0x0A010203) 8"

definition host_record :: pack_record where "host_record = net_record\<lparr>rc_prefix := host8\<rparr>"

definition host_head :: pack_head where "host_head = net_head\<lparr>hd_hash := net_hash zero_key host8\<rparr>"

definition host_comp :: composition where
  "host_comp = \<lparr>c_entries = [], c_nets = [(host8, 0)], c_lens = len_add (\<lambda>_ _. 0) host8 1, c_hash = net_hash zero_key host8\<rparr>"

definition host_set :: list_set where "host_set = net_set\<lparr>ls_comp := host_comp\<rparr>"

definition host_mirror :: mirror where
  "host_mirror = \<lparr>mi_sets = [(''nets'', \<lparr>ms_set = host_set, ms_in = [], ms_running = True, ms_started = True\<rparr>)],
     mi_subs = [''nets''], mi_done = False\<rparr>"

lemma host8_fields: "host8 = \<lparr>pfx_addr = IPv4 0x0A010203, pfx_bits = 8\<rparr>"
  by (simp add: host8_def PrefixFrom_def withoutZone_def BitLen_def IsValid_def)

lemma host_unpack: "unpack (pack host_head [host_record]) = Ok (host_head, [host_record])"
proof -
  have "head_ok host_head" "pack_record_ok typeCIDR 0 host_record"
    by (auto simp: head_ok_def host_head_def net_head_def zero_key_def pack_record_ok_def host_record_def net_record_def
        host8_fields PrefixFrom_def withoutZone_def BitLen_def IsValid_def intro!: exI [of _ "IPv4 0x0A010203"])
  then show ?thesis using unpack_pack [of host_head "[host_record]" "[]"] by (simp add: host_head_def net_head_def)
qed

lemma host_apply: "apply_all zero_key typeCIDR [host_record] newComposition = Ok host_comp"
  by (simp add: comp_apply_def apply_net_def host_record_def net_record_def newComposition_def host_comp_def len_ok_def
      host8_fields net_hash_def Let_def)

lemma host_mirror_reachable: "mirror_reachable host_mirror"
proof -
  let ?K = "net_keeper\<lparr>kp_object := \<lambda>_. Some (Some (pack host_head [host_record]))\<rparr>"
  have "install_object (pack host_head [host_record]) (new_set ''nets'' 0) = Ok host_set"
    using host_apply
    by (simp add: install_object_def host_unpack)
      (simp add: host_head_def net_head_def install_def host_set_def net_set_def new_set_def host_comp_def)
  then have "take_snapshot ?K (new_set ''nets'' 0) = Ok host_set"
    by (simp add: take_snapshot_def net_keeper_def resync_frame_def new_set_def)
  then show ?thesis unfolding host_mirror_def by (rule snapshot_reachable)
qed

text \<open>An address list with the record 4/33.\<close>

definition bad_object :: string where
  "bad_object = pack (net_head\<lparr>hd_count := 1\<rparr>) [] @
     [char_of (1::int), char_of (4::int), char_of (33::int)] @ replicate 12 (char_of (0::int))"

lemma bad_object_reads:
  "unpack bad_object = Ok (net_head, [net_record\<lparr>rc_prefix := PrefixFrom (IPv4 0) 33\<rparr>])"
proof -
  have ok: "head_ok net_head" by (simp add: head_ok_def net_head_def zero_key_def)
  have [simp]: "net_head\<lparr>hd_count := 1\<rparr> = net_head" by (simp add: net_head_def)
  let ?t = "[char_of (1::int), char_of (4::int), char_of (33::int)] @ replicate 12 (char_of (0::int))"
  have "read_record typeCIDR 0 ?t = Ok (net_record\<lparr>rc_prefix := PrefixFrom (IPv4 0) 33\<rparr>, [])"
    by (simp add: read_record_def read_prefix_def guard_def slice_def byte_at_def be_word_def be_bytes_def Let_def
        numeral_eq_Suc net_record_def byte_word_def)
  then have "read_records 1 typeCIDR 0 ?t = Ok [net_record\<lparr>rc_prefix := PrefixFrom (IPv4 0) 33\<rparr>]" by simp
  then show ?thesis
    using read_head_pack [OF ok, of "[]" ?t] unfolding bad_object_def
    by (simp add: unpack_def Let_def) (simp add: net_head_def)
qed

section \<open>Properties\<close>

text \<open>Reading an object never runs past its end, whatever the bytes: the reader returns, with
  an error or with as many records as the header counts.\<close>

theorem unpack_total:
  "unpack data \<noteq> Panic \<and> (\<forall>h rs. unpack data = Ok (h, rs) \<longrightarrow> length rs = unat (hd_count h) \<and> packHeader \<le> length data)"
proof -
  have "length rs = n" if "read_records n t fl s = Ok rs" for n t fl s rs
    using that by (induction n arbitrary: s rs) (auto simp: obind_Ok)
  then show ?thesis
    using unpack_not_Panic by (auto simp: unpack_def Let_def obind_Ok split: if_splits)
qed

text \<open>C31: the reader inverts the object format: a header and records written down in the format are
  read back exactly, and bytes after the last record are ignored.\<close>

theorem unpack_roundtrip:
  assumes "head_ok h" and "\<forall>r \<in> set rs. pack_record_ok (hd_typ h) (hd_flags h) r"
    and "hd_count h = word_of_nat (length rs)" and "length rs < 2 ^ 32"
  shows "unpack (pack h rs @ t) = Ok (h, rs)"
  using assms by (rule unpack_pack)

theorem unpack_roundtrip_witness:
  "head_ok word_head \<and> unpack (pack word_head [word_record] @ ''tail'') = Ok (word_head, [word_record])"
  using unpack_roundtrip [of word_head "[word_record]" "''tail''"] word_head_ok by (simp add: word_head_def)

text \<open>C10: the composition refines the map the keeper means, and its running hash is the digest of
  that map: applying the records of any object to a composition built from scratch gives the map
  that replaying them gives, and the hash depends only on it, not on the order or the repetitions
  by which it was reached.\<close>

theorem composition_refines:
  assumes "apply_all key t rs newComposition = Ok c" and "apply_all key t' rs' c = Ok c'"
  shows "content_of c' = replay t' rs' (replay t rs empty_content) \<and> c_hash c' = digest key (content_of c') \<and>
    table_inv c'"
proof -
  have "content_of c = replay t rs empty_content" and c: "comp_inv key c"
    using apply_all_refines [OF comp_inv_new assms(1)] by (simp_all add: content_new)
  then show ?thesis using apply_all_refines [OF c assms(2)] by (simp add: comp_inv_table)
qed

theorem composition_refines_witness:
  "apply_all zero_key typeCIDR [net_record] newComposition = Ok net_comp \<and>
   content_of net_comp = replay typeCIDR [net_record] empty_content \<and>
   c_hash net_comp = digest zero_key (content_of net_comp)"
  using composition_refines [OF net_apply, of typeCIDR "[]" net_comp] net_apply by (simp add: replay_def)

text \<open>C6: in every reachable state of the mirror, a list that is ready answers that an address is in
  it if and only if a live network of its contents covers the address and is stored in its masked form,
  with no bit set beyond its length (\<open>canonical\<close>). So the answer is exact for every address whose live
  covering networks are masked. A network the keeper sent with bits of a host set, such as
  10.1.2.3/8, is taken into the list and its hash, and no address is ever found by it: the code masks
  neither the records it reads nor those it stores, but looks masked prefixes up.\<close>

theorem mirror_lookup_exact:
  assumes "mirror_reachable m" and "mirror_lookup m name = Some st" and "ls_ready st" and "IsValid ip"
  shows "mirror_ContainsAddr m name ip now =
      ((\<exists>p e. ct_nets (content_of (ls_comp st)) p = Some e \<and> alive e now \<and> canonical p \<and> covers p ip), True) \<and>
    ((\<forall>p e. ct_nets (content_of (ls_comp st)) p = Some e \<and> alive e now \<and> covers p ip \<longrightarrow> canonical p) \<longrightarrow>
      mirror_ContainsAddr m name ip now =
        ((\<exists>p e. ct_nets (content_of (ls_comp st)) p = Some e \<and> alive e now \<and> covers p ip), True)) \<and>
    ((\<forall>p e. ct_nets (content_of (ls_comp st)) p = Some e \<and> covers p ip \<longrightarrow> Masked p \<noteq> p) \<longrightarrow>
      mirror_ContainsAddr m name ip now = (False, True))"
proof -
  obtain s where "map_of (mi_sets m) name = Some s" "st = ms_set s" using assms(2) by (auto simp: mirror_lookup_def)
  then have "set_inv st" using mirror_inv_reachable [OF assms(1)] by (simp add: mirror_inv_def mset_inv_def)
  then have "table_inv (ls_comp st)" by (simp add: set_inv_def comp_inv_table)
  then have "mirror_ContainsAddr m name ip now =
      ((\<exists>p e. ct_nets (content_of (ls_comp st)) p = Some e \<and> alive e now \<and> canonical p \<and> covers p ip), True)"
    using comp_containsAddr_iff [of "ls_comp st" ip now] assms(2-4)
    by (simp add: mirror_ContainsAddr_def set_ContainsAddr_def)
  moreover have "canonical p \<Longrightarrow> Masked p = p" for p by (simp add: canonical_def)
  ultimately show ?thesis by (intro conjI impI) (simp_all, blast+)
qed

text \<open>10.0.0.0/8 is found for 10.1.2.3; 10.1.2.3/8 covers 10.9.9.9 and is not found for it.\<close>

lemma nets_masked: "canonical net8" "Masked host8 \<noteq> host8"
  by code_simp+

lemma nets_cover: "covers net8 (IPv4 0x0A010203)" "covers host8 (IPv4 0x0A090909)"
proof -
  have a: "\<forall>i \<in> set [24..<32]. bit (0x0A000000 :: 32 word) i = bit (0x0A010203 :: 32 word) i"
    "\<forall>i \<in> set [24..<32]. bit (0x0A010203 :: 32 word) i = bit (0x0A090909 :: 32 word) i"
    by (simp_all add: upt_rec)
  have "bit (0x0A000000 :: 32 word) i = bit (0x0A010203 :: 32 word) i"
    "bit (0x0A010203 :: 32 word) i = bit (0x0A090909 :: 32 word) i" if "i < 32" "24 \<le> i" for i
  proof -
    have "i \<in> set [24..<32]" using that by (simp only: set_upt atLeastLessThan_iff)
    then show "bit (0x0A000000 :: 32 word) i = bit (0x0A010203 :: 32 word) i"
      "bit (0x0A010203 :: 32 word) i = bit (0x0A090909 :: 32 word) i"
      using a by blast+
  qed
  then show "covers net8 (IPv4 0x0A010203)" "covers host8 (IPv4 0x0A090909)"
    by (simp_all add: covers_def net8_fields host8_fields Unmap_def)
qed

theorem mirror_lookup_exact_witness:
  "mirror_reachable net_mirror \<and> mirror_ContainsAddr net_mirror ''nets'' (IPv4 0x0A010203) 5 = (True, True) \<and>
   mirror_reachable host_mirror \<and> ct_nets (content_of host_comp) host8 = Some 0 \<and> covers host8 (IPv4 0x0A090909) \<and>
   mirror_ContainsAddr host_mirror ''nets'' (IPv4 0x0A090909) 5 = (False, True)"
proof -
  have "mirror_lookup net_mirror ''nets'' = Some net_set" "ls_ready net_set" "IsValid (IPv4 0x0A010203)"
    by (simp_all add: mirror_lookup_def net_mirror_def net_set_def IsValid_def)
  note net = mirror_lookup_exact [OF net_mirror_reachable this, of 5]
  have "mirror_lookup host_mirror ''nets'' = Some host_set" "ls_ready host_set" "IsValid (IPv4 0x0A090909)"
    by (simp_all add: mirror_lookup_def host_mirror_def host_set_def net_set_def IsValid_def)
  note host = mirror_lookup_exact [OF host_mirror_reachable this, of 5]
  have n: "ct_nets (content_of (ls_comp net_set)) net8 = Some 0" by (simp add: net_set_def net_comp_def content_of_def)
  have h: "ct_nets (content_of (ls_comp host_set)) p = Some e \<longleftrightarrow> p = host8 \<and> e = 0" for p e
    by (auto simp: host_set_def host_comp_def content_of_def)
  have "alive 0 5" by (simp add: alive_def)
  then have "mirror_ContainsAddr net_mirror ''nets'' (IPv4 0x0A010203) 5 = (True, True)"
  proof -
    have "\<exists>p e. ct_nets (content_of (ls_comp net_set)) p = Some e \<and> alive e 5 \<and> canonical p \<and> covers p (IPv4 0x0A010203)"
      by (intro exI [of _ net8] exI [of _ 0] conjI n \<open>alive 0 5\<close> nets_masked(1) nets_cover(1))
    with net [THEN conjunct1] show ?thesis by (simp only: simp_thms)
  qed
  moreover have "mirror_ContainsAddr host_mirror ''nets'' (IPv4 0x0A090909) 5 = (False, True)"
  proof -
    have "\<forall>p e. ct_nets (content_of (ls_comp host_set)) p = Some e \<and> covers p (IPv4 0x0A090909) \<longrightarrow> Masked p \<noteq> p"
      by (simp only: h) (simp add: nets_masked(2))
    then show ?thesis by (rule host [THEN conjunct2, THEN conjunct2, THEN mp])
  qed
  ultimately show ?thesis
    using net_mirror_reachable host_mirror_reachable nets_cover(2) h by (simp add: host_set_def)
qed

text \<open>C23: whatever frames, snapshots and packages arrive and in whatever order the goroutines run,
  every set of the mirror keeps its name, a bounded inbox, and a hash that is the digest of its
  contents under its key; a set whose subscription failed is never ready.\<close>

theorem mirror_invariant:
  assumes "mirror_reachable m" and "map_of (mi_sets m) name = Some s"
  shows "ls_name (ms_set s) = name \<and> length (ms_in s) \<le> queueDepth \<and>
    c_hash (ls_comp (ms_set s)) = digest (ls_key (ms_set s)) (content_of (ls_comp (ms_set s))) \<and>
    (\<not> ms_running s \<longrightarrow> \<not> ls_ready (ms_set s))"
  using mirror_inv_reachable [OF assms(1)] assms(2)
  by (simp add: mirror_inv_def mset_inv_def set_inv_def comp_inv_table)

theorem mirror_invariant_witness:
  "mirror_reachable net_mirror \<and> c_hash net_comp = digest zero_key (content_of net_comp)"
  using mirror_invariant [OF net_mirror_reachable, of "''nets''"
      "\<lparr>ms_set = net_set, ms_in = [], ms_running = True, ms_started = True\<rparr>"] net_mirror_reachable
  by (simp add: net_mirror_def net_set_def)

text \<open>C22: a package is accepted only if it is the next one of the set's epoch and type, and then the
  contents are the old ones with its records replayed, their digest is the one the keeper put in
  it, and nothing else of the set changes.\<close>

theorem applyPackage_accepts:
  assumes "set_inv st" and "applyPackage k data want st = Ok (True, st')"
  shows "\<exists>h rs. unpack data = Ok (h, rs) \<and> hd_kind h = kindPackage \<and> hd_epoch h = ls_epoch st \<and> hd_seq h = want \<and>
    hd_typ h = ls_typ st \<and> content_of (ls_comp st') = replay (ls_typ st) rs (content_of (ls_comp st)) \<and>
    digest (ls_key st) (content_of (ls_comp st')) = hd_hash h \<and> st' = st\<lparr>ls_comp := ls_comp st', ls_seq := want\<rparr>"
  by (rule applyPackage_True [OF assms]) blast

theorem applyPackage_accepts_witness:
  "\<exists>st'. applyPackage word_keeper (pack word_head [word_record]) 1 word_set = Ok (True, st') \<and>
     content_of (ls_comp st') = word_hist 1 \<and> digest zero_key (content_of (ls_comp st')) = hd_hash word_head"
proof -
  have "content_of (ls_comp word_set) = word_hist (1 - 1)" using word_set_inv(2) by simp
  from applyPackage_honest [OF word_set_inv(1) this word_package, of word_keeper] obtain st'
    where run: "applyPackage word_keeper (pack word_head [word_record]) 1 word_set = Ok (True, st')"
      and mv: "moved word_hist word_set 1 st'" .
  have "digest (ls_key word_set) (content_of (ls_comp st')) = hd_hash word_head"
    using applyPackage_accepts [OF word_set_inv(1) run] by (auto simp: word_unpack)
  then show ?thesis using run moved_fields(8) [OF mv] by (auto simp: word_set_def new_set_def zero_key_def)
qed

text \<open>C17: with the packages of an honest keeper in the store, one frame brings a set that is any
  number of packages behind to exactly the contents the frame announces, without a snapshot,
  whether the package travels inside the frame or is read back from the store.\<close>

theorem onFrame_follows:
  assumes "ls_ready st" and "set_inv st" and "content_of (ls_comp st) = hist (ls_seq st)"
    and "f_v f = ListVersion" and "f_opr f \<in> {''tick'', ''diff''}" and "f_epoch f = hexOf (ls_epoch st)"
    and "ls_seq st \<le> f_seq f"
    and "f_digest f = [] \<or> f_digest f = hexOf (digest (ls_key st) (hist (f_seq f)))"
    and "honest_store k st hist (f_seq f)"
    and "f_inline f = [] \<or> b64_decode (f_inline f) = None \<or>
      honest_package st hist (f_seq f) (the (b64_decode (f_inline f)))"
  shows "\<exists>st'. onFrame k now f st = Ok st' \<and> ls_seq st' = f_seq f \<and> content_of (ls_comp st') = hist (f_seq f) \<and>
    set_inv st' \<and> ls_silent st' = False \<and> ls_lastSeen st' = now"
  using assms by (rule onFrame_honest)

theorem onFrame_follows_witness:
  "\<exists>st'. onFrame word_keeper 9 word_frame word_set = Ok st' \<and> ls_seq st' = 1 \<and> content_of (ls_comp st') = word_hist 1"
proof -
  have "ls_ready word_set" "content_of (ls_comp word_set) = word_hist (ls_seq word_set)"
    "f_epoch word_frame = hexOf (ls_epoch word_set)" "ls_seq word_set \<le> f_seq word_frame"
    "f_digest word_frame = hexOf (digest (ls_key word_set) (word_hist (f_seq word_frame)))"
    using word_set_inv(2) by (simp_all add: word_set_def new_set_def word_frame_def zero_key_def)
  then show ?thesis
    using onFrame_follows [of word_set word_hist word_frame word_keeper 9] word_set_inv(1) word_store
    by (auto simp: word_frame_def)
qed

text \<open>C33: catching up always ends, however far behind the set is and whatever the store holds, because
  Redis answers with one value for each key: the model's fuel is never exhausted, for a frame
  as for \<open>catchUp\<close> itself.\<close>

theorem catchUp_returns:
  assumes "mget_total b" and "kp_objects k = blobs_Objects b" and "set_inv st"
  shows "catchUp k goal d st \<noteq> Err () \<and> onFrame k now f st \<noteq> Err ()"
  using catchUp_ends onFrame_ends blobs_store_total [OF assms(1,2)] assms(3) by blast

theorem catchUp_returns_witness:
  "catchUp (word_keeper\<lparr>kp_objects := blobs_Objects \<lparr>bc_get = (\<lambda>_. GetNil), bc_mget = (\<lambda>ks. Some (map (\<lambda>_. GetNil) ks))\<rparr>\<rparr>)
     1000 [] word_set \<noteq> Err ()"
  using catchUp_returns [of "\<lparr>bc_get = (\<lambda>_. GetNil), bc_mget = (\<lambda>ks. Some (map (\<lambda>_. GetNil) ks))\<rparr>"
      "word_keeper\<lparr>kp_objects := blobs_Objects \<lparr>bc_get = (\<lambda>_. GetNil), bc_mget = (\<lambda>ks. Some (map (\<lambda>_. GetNil) ks))\<rparr>\<rparr>"
      word_set 1000 "[]"] word_set_inv(1) by (simp add: mget_total_def)

text \<open>C39: building a list panics exactly when a record of an address list adds a prefix whose length
  does not fit its family, and such an object passes the reader: the record 4/33 does.\<close>

theorem apply_all_panics:
  "(apply_all key t rs newComposition = Panic \<longleftrightarrow>
     t = typeCIDR \<and> (\<exists>r \<in> set rs. rc_op r = recAdd \<and> \<not> len_ok (rc_prefix r))) \<and>
   install_object bad_object (new_set name now) = Panic"
proof -
  have iff: "apply_all key t rs newComposition = Panic \<longleftrightarrow>
      t = typeCIDR \<and> (\<exists>r \<in> set rs. rc_op r = recAdd \<and> \<not> len_ok (rc_prefix r))" for key t rs
    using apply_all_Ok_iff [OF comp_inv_new, of key t rs] apply_all_not_Err [of key t rs newComposition]
    by (cases "apply_all key t rs newComposition") (auto simp: sane_def)
  have "\<not> len_ok (PrefixFrom (IPv4 0) 33)" by (simp add: PrefixFrom_def len_ok_def BitLen_def)
  then have "apply_all zero_key typeCIDR [net_record\<lparr>rc_prefix := PrefixFrom (IPv4 0) 33\<rparr>] newComposition = Panic"
    unfolding iff by (simp add: net_record_def)
  then have "install_object bad_object (new_set name now) = Panic"
    by (simp add: install_object_def bad_object_reads) (simp add: net_head_def)
  with iff show ?thesis by blast
qed

end
