(* ===== verification/Static_Set.thy ===== *)
theory Static_Set
  imports Prefix_Table
begin

text \<open>
  The static lists of a generation, \<open>internal/policy/static.go\<close>: the set of a list, its lookups,
  and \<open>readStatic\<close>, which reads the body of a list. The file system is an argument: the body of
  the file, or nothing when it cannot be read.
\<close>

record static_set =
  ss_values :: "string list"
  ss_nets :: "ip_prefix list"
  ss_lens :: len_table

definition empty_static :: static_set where
  "empty_static = \<lparr>ss_values = [], ss_nets = [], ss_lens = (\<lambda>_ _. 0)\<rparr>"

definition static_contains :: "static_set \<Rightarrow> string \<Rightarrow> bool" where
  "static_contains s value = (value \<in> set (ss_values s))"

definition static_containsAddr :: "static_set \<Rightarrow> addr \<Rightarrow> bool" where
  "static_containsAddr s ip0 =
     (let ip = Unmap ip0; fam = (if Is4 ip then 0 else 1)
      in scan_down (\<lambda>bits. ss_lens s fam (int bits) \<noteq> 0 \<and>
           Masked (PrefixFrom ip (int bits)) \<in> set (ss_nets s)) (BitLen ip))"

datatype static_err = StaticUnreadable | BadLine nat string | LineTooLong

text \<open>A line of an address list: a prefix, or an address taken as a prefix of full length; unmapped
  and masked.\<close>

definition line_prefix :: "string \<Rightarrow> ip_prefix option" where
  "line_prefix v =
     map_option (\<lambda>p. Masked (PrefixFrom (Unmap (pfx_addr p)) (pfx_bits p)))
       (case ParsePrefix v of
          Some p \<Rightarrow> Some p
        | None \<Rightarrow> map_option (\<lambda>a. PrefixFrom (Unmap a) (int (BitLen (Unmap a)))) (ParseAddr v))"

definition add_net :: "static_set \<Rightarrow> ip_prefix \<Rightarrow> (static_err, static_set) outcome" where
  "add_net s p =
     (if p \<in> set (ss_nets s) then Ok s
      else if \<not> len_ok p then Panic
      else Ok (s\<lparr>ss_nets := p # ss_nets s, ss_lens := len_add (ss_lens s) p 1\<rparr>))"

definition read_line :: "bool \<Rightarrow> nat \<Rightarrow> static_set \<Rightarrow> string \<Rightarrow> (static_err, static_set) outcome" where
  "read_line addr n s text =
     (let v = TrimSpace text
      in if v = [] then Ok s
         else if \<not> addr then Ok (s\<lparr>ss_values := List.insert v (ss_values s)\<rparr>)
         else case line_prefix v of
           None \<Rightarrow> Err (BadLine n v)
         | Some p \<Rightarrow> add_net s p)"

abbreviation max_token :: int where "max_token \<equiv> 1048576"

fun read_lines :: "bool \<Rightarrow> nat \<Rightarrow> static_set \<Rightarrow> string list \<Rightarrow> (static_err, static_set) outcome" where
  "read_lines addr n s [] = Ok s"
| "read_lines addr n s (l # ls) =
     (if int (length l) \<ge> max_token then Err LineTooLong
      else obind (read_line addr n s l) (\<lambda>s'. read_lines addr (Suc n) s' ls))"

text \<open>\<open>bufio.ScanLines\<close>: split at the line feeds, without an empty rest after the last one. The
  carriage return it drops at the end of a line is white space, which \<open>read_line\<close> trims.\<close>

definition scan_lines :: "string \<Rightarrow> string list" where
  "scan_lines raw =
     (let ls = Split raw CHR 0x0A in if last ls = [] then butlast ls else ls)"

definition readStatic :: "(string \<Rightarrow> string option) \<Rightarrow> string \<Rightarrow> bool \<Rightarrow> (static_err, static_set) outcome" where
  "readStatic fs path addr =
     (case fs path of
        None \<Rightarrow> Err StaticUnreadable
      | Some raw \<Rightarrow> read_lines addr 1 empty_static (scan_lines raw))"

section \<open>Invariant and lookup\<close>

definition static_inv :: "static_set \<Rightarrow> bool" where
  "static_inv s \<longleftrightarrow> ss_lens s = count_len (ss_nets s) \<and> (\<forall>p \<in> set (ss_nets s). canonical p)"

interpretation st: prefix_table
  "\<lambda>s p. p \<in> set (ss_nets s)" "\<lambda>_ _. True" ss_lens static_inv
  by unfold_locales (simp add: static_inv_def count_len_pos)

lemma static_inv_empty [simp]: "static_inv empty_static"
  by (simp add: static_inv_def empty_static_def count_len_Nil)

lemma static_containsAddr_iff:
  "static_inv s \<Longrightarrow> IsValid ip \<Longrightarrow>
     static_containsAddr s ip \<longleftrightarrow> (\<exists>p \<in> set (ss_nets s). covers p ip)"
  using st.scan_iff_covers [of s ip]
  by (auto simp: static_containsAddr_def Let_def static_inv_def)

lemma line_prefix_canonical: "line_prefix v = Some p \<Longrightarrow> len_ok p \<Longrightarrow> canonical p"
  by (auto simp: line_prefix_def len_ok_def canonical_Masked)

lemma add_net_Ok:
  assumes "static_inv s" and "canonical p" and "add_net s p = Ok s'"
  shows "static_inv s' \<and> set (ss_nets s') = insert p (set (ss_nets s)) \<and> ss_values s' = ss_values s"
  using assms by (auto simp: add_net_def static_inv_def count_len_Cons split: if_splits)

lemma canonical_len_ok: "canonical p \<Longrightarrow> len_ok p"
  by (drule canonical_bits) (auto simp: len_ok_def BitLen_def split: addr.splits)

lemma read_line_addr:
  assumes "static_inv s" and "read_line True n s l = Ok s'"
  shows "static_inv s' \<and> ss_values s' = ss_values s \<and>
     set (ss_nets s') = set (ss_nets s) \<union> set_option (if TrimSpace l = [] then None else line_prefix (TrimSpace l))"
proof (cases "TrimSpace l = []")
  case True
  then show ?thesis using assms by (simp add: read_line_def)
next
  case False
  then obtain p where p: "line_prefix (TrimSpace l) = Some p" and a: "add_net s p = Ok s'"
    using assms(2) by (auto simp: read_line_def Let_def split: option.splits)
  have "len_ok p \<or> p \<in> set (ss_nets s)" using a by (auto simp: add_net_def split: if_splits)
  then have "canonical p"
    using line_prefix_canonical [OF p] assms(1) by (auto simp: static_inv_def)
  then show ?thesis using add_net_Ok [OF assms(1) _ a] p False by simp
qed

lemma read_lines_addr:
  assumes "static_inv s" and "read_lines True n s ls = Ok s'"
  shows "static_inv s' \<and> set (ss_nets s') = set (ss_nets s) \<union>
     {p. \<exists>l \<in> set ls. TrimSpace l \<noteq> [] \<and> line_prefix (TrimSpace l) = Some p}"
  using assms
proof (induction ls arbitrary: n s)
  case Nil
  then show ?case by simp
next
  case (Cons l ls)
  then obtain s1 where s1: "read_line True n s l = Ok s1" and r: "read_lines True (Suc n) s1 ls = Ok s'"
    by (auto simp: obind_Ok split: if_splits)
  from read_line_addr [OF Cons.prems(1) s1] Cons.IH [OF _ r] show ?case
    by (auto split: if_splits)
qed

lemma read_lines_values:
  "read_lines False n s ls = Ok s' \<Longrightarrow>
     set (ss_values s') = set (ss_values s) \<union> {v. \<exists>l \<in> set ls. v = TrimSpace l \<and> v \<noteq> []}"
proof (induction ls arbitrary: n s)
  case Nil
  then show ?case by simp
next
  case (Cons l ls)
  then obtain s1 where s1: "read_line False n s l = Ok s1" and r: "read_lines False (Suc n) s1 ls = Ok s'"
    by (auto simp: obind_Ok split: if_splits)
  from s1 have "set (ss_values s1) = set (ss_values s) \<union> (if TrimSpace l = [] then {} else {TrimSpace l})"
    by (auto simp: read_line_def split: if_splits)
  with Cons.IH [OF r] show ?case by auto
qed

text \<open>\<open>readStatic\<close> panics on an address list exactly when a line it reaches is a prefix whose
  length does not survive the unmapping: an IPv4-mapped prefix longer than 32 bits, whose index
  into the length table is \<open>-1\<close>.\<close>

lemma line_prefix_bad:
  assumes "line_prefix v = Some p" and "\<not> len_ok p"
  shows "p = prefix_zero \<and> (\<exists>q w z. ParsePrefix v = Some q \<and> pfx_addr q = IPv6 w z \<and>
           drop_bit 32 w = 0xffff \<and> 32 < pfx_bits q)"
proof (cases "ParsePrefix v")
  case None
  then obtain a where a: "ParseAddr v = Some a"
      and p: "p = Masked (PrefixFrom (Unmap (pfx_addr (PrefixFrom (Unmap a) (int (BitLen (Unmap a))))))
                (pfx_bits (PrefixFrom (Unmap a) (int (BitLen (Unmap a))))))"
    using assms(1) by (auto simp: line_prefix_def)
  have "IsValid (Unmap a)" using ParseAddr_valid [OF a] by simp
  then have "pfx_bits p = int (BitLen (Unmap a))"
    unfolding p by (subst Masked_PrefixFrom_ok) (auto simp: PrefixFrom_def Unmap_withoutZone)
  then show ?thesis
    using assms(2) by (auto simp: len_ok_def BitLen_def split: addr.splits)
next
  case (Some q)
  then have p: "p = Masked (PrefixFrom (Unmap (pfx_addr q)) (pfx_bits q))"
    using assms(1) by (simp add: line_prefix_def)
  note q = ParsePrefix_ok [OF Some]
  have bad: "\<not> pfx_bits q \<le> int (BitLen (Unmap (pfx_addr q)))"
  proof
    assume le: "pfx_bits q \<le> int (BitLen (Unmap (pfx_addr q)))"
    then have "pfx_bits p = pfx_bits q" using q by (simp add: p Masked_PrefixFrom_ok)
    then show False
      using le q assms(2) by (auto simp: len_ok_def BitLen_def split: addr.splits)
  qed
  then have "p = prefix_zero" by (simp add: p Masked_PrefixFrom_bad)
  moreover have "\<exists>w z. pfx_addr q = IPv6 w z \<and> drop_bit 32 w = 0xffff \<and> 32 < pfx_bits q"
    using bad q by (auto simp: Unmap_def BitLen_def split: addr.splits if_splits)
  ultimately show ?thesis using Some by auto
qed

end
