(* ===== verification/Cond.thy ===== *)
theory Cond
  imports Static_Set
begin

text \<open>
  Conditions of a profile, the loading half of \<open>internal/policy/cond.go\<close>: operands, clauses, the
  reference graph and its cycle check. The rows decoded from YAML are the records
  \<open>fileClause\<close> and \<open>fileCondition\<close>; a map of conditions is an association list in the order of
  declaration.
\<close>

section \<open>Operands\<close>

datatype operand_kind =
    OperandField | OperandHeader | OperandCookie | OperandArg
  | OperandHeaders | OperandCookies | OperandArgs | OperandVar

record operand =
  opd_raw :: string
  opd_kind :: operand_kind
  opd_name :: string
  opd_all :: bool

definition Fields :: "string list" where
  "Fields = [''uri'', ''request_uri'', ''host'', ''request_method'', ''scheme'', ''remote_addr'']"

definition selectors :: "(string \<times> operand_kind \<times> bool) list" where
  "selectors =
     [(''$waf_request_headers.'', OperandHeaders, True),
      (''$waf_request_cookies.'', OperandCookies, True),
      (''$waf_request_args.'', OperandArgs, True),
      (''$waf_var.'', OperandVar, False)]"

definition nginx_prefixes :: "(string \<times> operand_kind) list" where
  "nginx_prefixes = [(''http_'', OperandHeader), (''cookie_'', OperandCookie), (''arg_'', OperandArg)]"

definition var_char :: "char \<Rightarrow> bool" where
  "var_char c = (is_alnum c \<or> c = CHR ''_'' \<or> c = CHR ''.'' \<or> c = CHR ''-'')"

definition nginx_char :: "char \<Rightarrow> bool" where
  "nginx_char c = (is_alnum c \<or> c = CHR ''_'')"

definition varNameRe :: "string \<Rightarrow> bool" where
  "varNameRe s = name_re var_char var_char 64 s"

definition nginxNameRe :: "string \<Rightarrow> bool" where
  "nginxNameRe s = name_re nginx_char nginx_char 128 s"

definition condNameRe :: "string \<Rightarrow> bool" where
  "condNameRe s = name_re nginx_char var_char 64 s"

datatype operand_err =
    ValueEmpty | ValueNoDollar | NoNameAfterDot | StarNotAllowed | BadVarName | BadNginxName | UnknownValue

definition ParseOperand :: "go_lib \<Rightarrow> string \<Rightarrow> (operand_err, operand) outcome" where
  "ParseOperand L raw0 =
     (let raw = TrimSpace raw0
      in if raw = [] then Err ValueEmpty
         else if \<not> HasPrefix raw ''$'' then Err ValueNoDollar
         else case find (\<lambda>(p, _, _). HasPrefix raw p) selectors of
           Some (p, kind, all) \<Rightarrow>
             let name = drop (length p) raw
             in if name = [] then Err NoNameAfterDot
                else if name = ''*'' then
                  (if \<not> all then Err StarNotAllowed
                   else Ok \<lparr>opd_raw = raw, opd_kind = kind, opd_name = [], opd_all = True\<rparr>)
                else if kind = OperandVar \<and> \<not> varNameRe name then Err BadVarName
                else Ok \<lparr>opd_raw = raw, opd_kind = kind,
                         opd_name = (if kind = OperandHeaders then ToLower L name else name),
                         opd_all = False\<rparr>
         | None \<Rightarrow>
             let name = tl raw
             in if name \<in> set Fields
                then Ok \<lparr>opd_raw = raw, opd_kind = OperandField, opd_name = name, opd_all = False\<rparr>
                else case find (\<lambda>(p, _). HasPrefix name p) nginx_prefixes of
                  Some (p, kind) \<Rightarrow>
                    let tail = drop (length p) name
                    in if \<not> nginxNameRe tail then Err BadNginxName
                       else Ok \<lparr>opd_raw = raw, opd_kind = kind,
                                opd_name = (if kind = OperandHeader then ToLower L tail else tail),
                                opd_all = False\<rparr>
                | None \<Rightarrow> Err UnknownValue)"

definition addressable :: "operand \<Rightarrow> bool" where
  "addressable o' =
     (case opd_kind o' of
        OperandField \<Rightarrow> opd_name o' = ''remote_addr''
      | OperandHeader \<Rightarrow> True
      | OperandHeaders \<Rightarrow> True
      | OperandVar \<Rightarrow> True
      | _ \<Rightarrow> False)"

section \<open>Clauses\<close>

abbreviation OpIn :: string where "OpIn \<equiv> ''in''"
abbreviation OpNotIn :: string where "OpNotIn \<equiv> ''not_in''"
abbreviation OpEq :: string where "OpEq \<equiv> ''eq''"
abbreviation OpNe :: string where "OpNe \<equiv> ''ne''"
abbreviation OpIs :: string where "OpIs \<equiv> ''is''"
abbreviation OpIsNot :: string where "OpIsNot \<equiv> ''is_not''"

record clause =
  cl_operand :: operand
  cl_op :: string
  cl_ref :: string
  cl_dataset :: string
  cl_text :: string
  cl_addr :: bool
  cl_md5 :: bool
  cl_is_static :: bool
  cl_static :: "static_set option"

definition zero_operand :: operand where
  "zero_operand = \<lparr>opd_raw = [], opd_kind = OperandField, opd_name = [], opd_all = False\<rparr>"

definition zero_clause :: clause where
  "zero_clause =
     \<lparr>cl_operand = zero_operand, cl_op = [], cl_ref = [], cl_dataset = [], cl_text = [],
      cl_addr = False, cl_md5 = False, cl_is_static = False, cl_static = None\<rparr>"

definition Negated :: "clause \<Rightarrow> bool" where
  "Negated c = (cl_op c = OpNotIn \<or> cl_op c = OpNe \<or> cl_op c = OpIsNot)"

record condition =
  co_name :: string
  co_any :: bool
  co_clauses :: "clause list"

type_synonym conds = "(string \<times> condition) list"

record fileClause =
  f_value :: string
  f_op :: string
  f_dataset :: string
  f_text :: string
  f_cond :: string
  f_type :: string
  f_hash :: string
  f_static :: bool

record fileCondition =
  fc_name :: string
  fc_all :: "fileClause list"
  fc_any :: "fileClause list"

datatype clause_err =
    NeedsCond | CondOp string | CondRowExtras | BadRef string | BadOperand operand_err
  | NeedsDataset | TextOnlyEq | BadType string | BadHash string | AddrHash | NotAddressable
  | NeedsText | OnlyForIn | OpEmpty | OpUnknown string

definition parseRefClause :: "string \<Rightarrow> string \<Rightarrow> fileClause \<Rightarrow> (clause_err, clause) outcome" where
  "parseRefClause ref op f =
     (if ref = [] then Err NeedsCond
      else if op \<noteq> OpIs \<and> op \<noteq> OpIsNot then Err (CondOp op)
      else if TrimSpace (f_value f) \<noteq> [] \<or> TrimSpace (f_dataset f) \<noteq> [] \<or> f_text f \<noteq> [] \<or>
              TrimSpace (f_type f) \<noteq> [] \<or> TrimSpace (f_hash f) \<noteq> [] \<or> f_static f
        then Err CondRowExtras
      else if \<not> condNameRe ref then Err (BadRef ref)
      else Ok (zero_clause\<lparr>cl_ref := ref, cl_op := op\<rparr>))"

definition parseDatasetClause :: "clause \<Rightarrow> fileClause \<Rightarrow> (clause_err, clause) outcome" where
  "parseDatasetClause cl0 f =
     (let cl = cl0\<lparr>cl_dataset := TrimSpace (f_dataset f), cl_is_static := f_static f\<rparr>;
          ty = TrimSpace (f_type f);
          ha = TrimSpace (f_hash f)
      in if cl_dataset cl = [] then Err NeedsDataset
         else if TrimSpace (f_text f) \<noteq> [] then Err TextOnlyEq
         else if ty \<noteq> [] \<and> ty \<noteq> ''string'' \<and> ty \<noteq> ''cidr'' then Err (BadType (f_type f))
         else if ha \<noteq> [] \<and> ha \<noteq> ''md5'' then Err (BadHash (f_hash f))
         else if ty = ''cidr'' \<and> ha = ''md5'' then Err AddrHash
         else if ty = ''cidr'' \<and> \<not> addressable (cl_operand cl) then Err NotAddressable
         else Ok (cl\<lparr>cl_addr := (ty = ''cidr''), cl_md5 := (ha = ''md5'')\<rparr>))"

definition parseClause :: "go_lib \<Rightarrow> fileClause \<Rightarrow> (clause_err, clause) outcome" where
  "parseClause L f =
     (let ref = TrimSpace (f_cond f); op = TrimSpace (f_op f)
      in if ref \<noteq> [] \<or> op = OpIs \<or> op = OpIsNot then parseRefClause ref op f
         else obind (map_err BadOperand (ParseOperand L (f_value f))) (\<lambda>operand.
           let cl = zero_clause\<lparr>cl_operand := operand, cl_op := op\<rparr>
           in if op = OpIn \<or> op = OpNotIn then parseDatasetClause cl f
              else if op = OpEq \<or> op = OpNe then
                (if f_text f = [] then Err NeedsText
                 else if TrimSpace (f_dataset f) \<noteq> [] \<or> TrimSpace (f_type f) \<noteq> [] \<or>
                         TrimSpace (f_hash f) \<noteq> [] \<or> f_static f
                   then Err OnlyForIn
                 else Ok (cl\<lparr>cl_text := f_text f\<rparr>))
              else if op = [] then Err OpEmpty
              else Err (OpUnknown op)))"

section \<open>The reference graph\<close>

text \<open>\<open>findCycle\<close> colours the conditions: 1 while a condition is on the path, 2 once it is done.
  The map \<open>state\<close> is shared by the recursive calls, so it is threaded. A name missing from the
  map of conditions is a nil pointer, and reading its clauses panics. The recursion goes one
  step deeper only at a condition that was not coloured yet, so the first argument (fuel,
  \<open>Err ()\<close> when it runs out) is enough when it exceeds the number of conditions.\<close>

fun cycle_loop ::
  "(string \<Rightarrow> (string \<Rightarrow> int) \<Rightarrow> (unit, string \<times> (string \<Rightarrow> int)) outcome) \<Rightarrow>
   clause list \<Rightarrow> (string \<Rightarrow> int) \<Rightarrow> (unit, string \<times> (string \<Rightarrow> int)) outcome" where
  "cycle_loop F [] st = Ok ([], st)"
| "cycle_loop F (cl # cls) st =
     (if cl_ref cl = [] then cycle_loop F cls st
      else obind (F (cl_ref cl) st) (\<lambda>(tail, st').
             if tail \<noteq> [] then Ok (tail, st') else cycle_loop F cls st'))"

fun findCycle ::
  "nat \<Rightarrow> conds \<Rightarrow> string \<Rightarrow> (string \<Rightarrow> int) \<Rightarrow> (unit, string \<times> (string \<Rightarrow> int)) outcome" where
  "findCycle 0 conds name st = Err ()"
| "findCycle (Suc n) conds name st =
     (if st name = 1 then Ok (name, st)
      else if st name = 2 then Ok ([], st)
      else case map_of conds name of
        None \<Rightarrow> Panic
      | Some c \<Rightarrow>
          obind (cycle_loop (findCycle n conds) (co_clauses c) (st(name := 1))) (\<lambda>(tail, st').
            if tail \<noteq> [] then Ok (name @ '' -> '' @ tail, st') else Ok ([], st'(name := 2))))"

datatype cond_err =
    BadCondName nat | DeclaredTwice nat string | BothAllAny nat string | NoClauses nat string
  | ClauseErr nat nat clause_err | SelfRef nat nat string
  | Undeclared string string | Cycle string | OutOfFuel

text \<open>One clause of a row; a clause that names its own condition is refused at once.\<close>

definition parse_row_clause ::
  "go_lib \<Rightarrow> nat \<Rightarrow> string \<Rightarrow> nat \<Rightarrow> fileClause \<Rightarrow> (cond_err, clause) outcome" where
  "parse_row_clause L i name j fcl =
     obind (map_err (ClauseErr i j) (parseClause L fcl)) (\<lambda>cl.
       if cl_ref cl = name then Err (SelfRef i j name) else Ok cl)"

definition parse_row :: "go_lib \<Rightarrow> conds \<Rightarrow> nat \<Rightarrow> fileCondition \<Rightarrow> (cond_err, condition) outcome" where
  "parse_row L out i fc =
     (let name = TrimSpace (fc_name fc)
      in if \<not> condNameRe name then Err (BadCondName i)
         else if map_of out name \<noteq> None then Err (DeclaredTwice i name)
         else if fc_all fc \<noteq> [] \<and> fc_any fc \<noteq> [] then Err (BothAllAny i name)
         else let any = (fc_any fc \<noteq> []); clauses = (if any then fc_any fc else fc_all fc)
         in if clauses = [] then Err (NoClauses i name)
            else obind (for_each (parse_row_clause L i name) 0 clauses) (\<lambda>cls.
              Ok \<lparr>co_name = name, co_any = any, co_clauses = cls\<rparr>))"

fun parse_rows :: "go_lib \<Rightarrow> conds \<Rightarrow> nat \<Rightarrow> fileCondition list \<Rightarrow> (cond_err, conds) outcome" where
  "parse_rows L out i [] = Ok out"
| "parse_rows L out i (fc # rows) =
     obind (parse_row L out i fc) (\<lambda>c. parse_rows L (out @ [(co_name c, c)]) (Suc i) rows)"

fun undeclared_ref :: "conds \<Rightarrow> clause list \<Rightarrow> string option" where
  "undeclared_ref out [] = None"
| "undeclared_ref out (cl # cls) =
     (if cl_ref cl \<noteq> [] \<and> map_of out (cl_ref cl) = None then Some (cl_ref cl)
      else undeclared_ref out cls)"

fun check_graph :: "conds \<Rightarrow> (string \<times> condition) list \<Rightarrow> (cond_err, unit) outcome" where
  "check_graph out [] = Ok ()"
| "check_graph out ((name, c) # rest) =
     (case undeclared_ref out (co_clauses c) of
        Some r \<Rightarrow> Err (Undeclared name r)
      | None \<Rightarrow>
          obind (map_err (\<lambda>_. OutOfFuel) (findCycle (Suc (length out)) out name (\<lambda>_. 0))) (\<lambda>(cycle, _).
            if cycle \<noteq> [] then Err (Cycle cycle) else check_graph out rest))"

definition parseConditions :: "go_lib \<Rightarrow> fileCondition list \<Rightarrow> (cond_err, conds) outcome" where
  "parseConditions L rows =
     obind (parse_rows L [] 0 rows) (\<lambda>out. obind (check_graph out out) (\<lambda>_. Ok out))"

end
