(* ===== verification/Cond_Graph.thy ===== *)
theory Cond_Graph
  imports Cond
begin

text \<open>
  The cycle check of \<open>parseConditions\<close> is correct: it ends, it accepts exactly the reference
  graphs without a cycle, and it reads a nil condition only when a reference is not declared.
  The specification of the graph is the relation \<open>dep\<close> and its accessible part.
\<close>

definition refs :: "conds \<Rightarrow> string \<Rightarrow> string set" where
  "refs conds name =
     {cl_ref cl |cl c. map_of conds name = Some c \<and> cl \<in> set (co_clauses c) \<and> cl_ref cl \<noteq> []}"

definition dep :: "conds \<Rightarrow> string \<Rightarrow> string \<Rightarrow> bool" where
  "dep conds r n = (r \<in> refs conds n)"

definition refs_declared :: "conds \<Rightarrow> bool" where
  "refs_declared conds = (\<forall>n. refs conds n \<subseteq> fst ` set conds)"

definition unmarked :: "conds \<Rightarrow> (string \<Rightarrow> int) \<Rightarrow> string set" where
  "unmarked conds st = {x \<in> fst ` set conds. st x \<noteq> 1 \<and> st x \<noteq> 2}"

abbreviation grounded :: "conds \<Rightarrow> string \<Rightarrow> bool" where
  "grounded conds \<equiv> Wellfounded.accp (dep conds)"

lemma finite_unmarked [simp]: "finite (unmarked conds st)"
  by (simp add: unmarked_def)

lemma refs_nonempty: "r \<in> refs conds n \<Longrightarrow> r \<noteq> []"
  by (auto simp: refs_def)

lemma refs_of: "map_of conds n = Some c \<Longrightarrow> refs conds n = {cl_ref cl |cl. cl \<in> set (co_clauses c) \<and> cl_ref cl \<noteq> []}"
  by (auto simp: refs_def)

lemma accp_not_cyclic: "Wellfounded.accp R x \<Longrightarrow> \<not> R\<^sup>+\<^sup>+ x x"
proof (induction rule: accp_induct_rule)
  case (1 x)
  show ?case
  proof
    assume "R\<^sup>+\<^sup>+ x x"
    then show False by (metis "1.IH" tranclp.cases tranclp_into_tranclp2)
  qed
qed

lemma card_unmarked_step:
  assumes "name \<in> unmarked conds s"
  shows "card (unmarked conds (s(name := 1))) < card (unmarked conds s)"
proof (rule psubset_card_mono)
  show "unmarked conds (s(name := 1)) \<subset> unmarked conds s"
    using assms by (auto simp: unmarked_def)
qed simp

lemma card_unmarked_start: "card (unmarked conds (\<lambda>_. 0)) < Suc (length conds)"
proof -
  have "card (unmarked conds (\<lambda>_. 0)) \<le> card (fst ` set conds)"
    by (intro card_mono) (auto simp: unmarked_def)
  also have "\<dots> \<le> length conds" by (metis card_length length_map set_map)
  finally show ?thesis by simp
qed

section \<open>The loop over the clauses\<close>

lemma cycle_loop_marks:
  assumes "\<And>r s t s'. F r s = Ok (t, s') \<Longrightarrow> unmarked conds s' \<subseteq> unmarked conds s"
    and "cycle_loop F cls s = Ok (t, s')"
  shows "unmarked conds s' \<subseteq> unmarked conds s"
  using assms(2)
proof (induction cls arbitrary: s)
  case (Cons cl cls)
  show ?case
  proof (cases "cl_ref cl = []")
    case True
    then show ?thesis using Cons by simp
  next
    case False
    then obtain u s1 where "F (cl_ref cl) s = Ok (u, s1)"
        and "(if u \<noteq> [] then Ok (u, s1) else cycle_loop F cls s1) = Ok (t, s')"
      using Cons.prems by (auto simp: obind_Ok)
    then show ?thesis using assms(1) [of "cl_ref cl" s u s1] Cons.IH [of s1] by (auto split: if_splits)
  qed
qed simp

lemma findCycle_step:
  assumes "findCycle (Suc n) conds name s = Ok (t, s')" and "s name \<noteq> 1" and "s name \<noteq> 2"
  obtains c u s1 where "map_of conds name = Some c"
    and "cycle_loop (findCycle n conds) (co_clauses c) (s(name := 1)) = Ok (u, s1)"
    and "t = (if u = [] then [] else name @ '' -> '' @ u)"
    and "s' = (if u = [] then s1(name := 2) else s1)"
  using assms by (auto simp: obind_Ok split: option.splits if_splits)

lemma findCycle_marks:
  "findCycle n conds name s = Ok (t, s') \<Longrightarrow> unmarked conds s' \<subseteq> unmarked conds s"
proof (induction n arbitrary: name s t s')
  case (Suc n)
  show ?case
  proof (cases "s name = 1 \<or> s name = 2")
    case True
    then show ?thesis using Suc.prems by (auto split: if_splits)
  next
    case False
    obtain c u s1 where "map_of conds name = Some c"
        and l: "cycle_loop (findCycle n conds) (co_clauses c) (s(name := 1)) = Ok (u, s1)"
        and "t = (if u = [] then [] else name @ '' -> '' @ u)"
        and r: "s' = (if u = [] then s1(name := 2) else s1)"
      by (rule findCycle_step [OF Suc.prems]) (use False in simp_all)
    have "unmarked conds s1 \<subseteq> unmarked conds (s(name := 1))"
      by (rule cycle_loop_marks [OF Suc.IH l])
    moreover have "unmarked conds s' \<subseteq> unmarked conds s1"
      using r by (auto simp: unmarked_def split: if_splits)
    moreover have "unmarked conds (s(name := 1)) \<subseteq> unmarked conds s"
      by (auto simp: unmarked_def)
    ultimately show ?thesis by blast
  qed
qed simp

section \<open>Enough fuel\<close>

lemma cycle_loop_fuel:
  assumes F: "\<And>r s. card (unmarked conds s) < n \<Longrightarrow> F r s \<noteq> Err ()"
    and mono: "\<And>r s t s'. F r s = Ok (t, s') \<Longrightarrow> unmarked conds s' \<subseteq> unmarked conds s"
    and "card (unmarked conds s) < n"
  shows "cycle_loop F cls s \<noteq> Err ()"
  using assms(3)
proof (induction cls arbitrary: s)
  case (Cons cl cls)
  show ?case
  proof (cases "F (cl_ref cl) s")
    case (Ok p)
    obtain u s1 where p: "p = (u, s1)" by (cases p)
    have "card (unmarked conds s1) \<le> card (unmarked conds s)"
      using mono [of "cl_ref cl" s u s1] Ok p by (simp add: card_mono)
    then show ?thesis using Cons Ok p by auto
  next
    case (Err e)
    then show ?thesis using F [OF Cons.prems, of "cl_ref cl"] by simp
  next
    case Panic
    then show ?thesis using Cons by simp
  qed
qed simp

lemma findCycle_fuel: "card (unmarked conds s) < n \<Longrightarrow> findCycle n conds name s \<noteq> Err ()"
proof (induction n arbitrary: name s)
  case (Suc n)
  show ?case
  proof (cases "s name = 1 \<or> s name = 2 \<or> map_of conds name = None")
    case True
    then show ?thesis by (auto split: option.splits)
  next
    case False
    then obtain c where c: "map_of conds name = Some c" by auto
    then have "name \<in> unmarked conds s"
      using False by (auto simp: unmarked_def dest!: map_of_SomeD intro: image_eqI [of _ _ "(name, c)"])
    then have less: "card (unmarked conds (s(name := 1))) < n"
      using Suc.prems card_unmarked_step [of name conds s] by simp
    have "cycle_loop (findCycle n conds) (co_clauses c) (s(name := 1)) \<noteq> Err ()"
      by (rule cycle_loop_fuel [OF Suc.IH findCycle_marks less])
    then show ?thesis
      using False c
      by (cases "cycle_loop (findCycle n conds) (co_clauses c) (s(name := 1))") (auto split: prod.splits)
  qed
qed simp

lemma findCycle_enough: "findCycle (Suc (length conds)) conds name (\<lambda>_. 0) \<noteq> Err ()"
  by (rule findCycle_fuel [OF card_unmarked_start])

section \<open>Soundness: no cycle reported means grounded\<close>

lemma cycle_loop_sound:
  assumes F: "\<And>r s s'. F r s = Ok ([], s') \<Longrightarrow> r \<noteq> [] \<Longrightarrow> \<forall>x. s x = 2 \<longrightarrow> grounded conds x \<Longrightarrow>
      grounded conds r \<and> (\<forall>x. s' x = 2 \<longrightarrow> grounded conds x)"
    and "cycle_loop F cls s = Ok ([], s')" and "\<forall>x. s x = 2 \<longrightarrow> grounded conds x"
  shows "(\<forall>cl \<in> set cls. cl_ref cl \<noteq> [] \<longrightarrow> grounded conds (cl_ref cl)) \<and>
     (\<forall>x. s' x = 2 \<longrightarrow> grounded conds x)"
  using assms(2,3)
proof (induction cls arbitrary: s)
  case (Cons cl cls)
  show ?case
  proof (cases "cl_ref cl = []")
    case True
    then show ?thesis using Cons by simp
  next
    case False
    then obtain s1 where s1: "F (cl_ref cl) s = Ok ([], s1)" and r: "cycle_loop F cls s1 = Ok ([], s')"
      using Cons.prems(1) by (auto simp: obind_Ok split: if_splits)
    note h = F [OF s1 False Cons.prems(2)]
    then show ?thesis using Cons.IH [OF r] by auto
  qed
qed simp

lemma findCycle_sound:
  "findCycle n conds name s = Ok ([], s') \<Longrightarrow> name \<noteq> [] \<Longrightarrow> \<forall>x. s x = 2 \<longrightarrow> grounded conds x \<Longrightarrow>
     grounded conds name \<and> (\<forall>x. s' x = 2 \<longrightarrow> grounded conds x)"
proof (induction n arbitrary: name s s')
  case (Suc n)
  show ?case
  proof (cases "s name = 1 \<or> s name = 2")
    case True
    then show ?thesis using Suc.prems by (auto split: if_splits)
  next
    case False
    obtain c s1 where c: "map_of conds name = Some c"
        and l: "cycle_loop (findCycle n conds) (co_clauses c) (s(name := 1)) = Ok ([], s1)"
        and s': "s' = s1(name := 2)"
      by (rule findCycle_step [OF Suc.prems(1)]) (use False in \<open>auto split: if_splits\<close>)
    have st: "\<forall>x. (s(name := 1)) x = 2 \<longrightarrow> grounded conds x" using Suc.prems(3) by simp
    have h: "(\<forall>cl \<in> set (co_clauses c). cl_ref cl \<noteq> [] \<longrightarrow> grounded conds (cl_ref cl)) \<and>
        (\<forall>x. s1 x = 2 \<longrightarrow> grounded conds x)"
      by (rule cycle_loop_sound [where F = "findCycle n conds", OF _ l st]) (rule Suc.IH)
    have "grounded conds name"
      by (rule accp.accI) (use h in \<open>auto simp: dep_def refs_of [OF c]\<close>)
    then show ?thesis using h s' by auto
  qed
qed simp

section \<open>Completeness: a grounded graph passes\<close>

lemma cycle_loop_complete:
  assumes F: "\<And>r s. r \<in> R \<Longrightarrow> \<forall>x. s x = 1 \<longrightarrow> s0 x = 1 \<Longrightarrow> card (unmarked conds s) < n \<Longrightarrow>
      \<exists>s'. F r s = Ok ([], s') \<and> (\<forall>x. s' x = 1 \<longrightarrow> s x = 1)"
    and mono: "\<And>r s t s'. F r s = Ok (t, s') \<Longrightarrow> unmarked conds s' \<subseteq> unmarked conds s"
    and "\<forall>cl \<in> set cls. cl_ref cl \<noteq> [] \<longrightarrow> cl_ref cl \<in> R"
    and "\<forall>x. s x = 1 \<longrightarrow> s0 x = 1" and "card (unmarked conds s) < n"
  shows "\<exists>s'. cycle_loop F cls s = Ok ([], s') \<and> (\<forall>x. s' x = 1 \<longrightarrow> s x = 1)"
  using assms(3-)
proof (induction cls arbitrary: s)
  case (Cons cl cls)
  show ?case
  proof (cases "cl_ref cl = []")
    case True
    then show ?thesis using Cons by simp
  next
    case False
    then obtain s1 where s1: "F (cl_ref cl) s = Ok ([], s1)" and one: "\<forall>x. s1 x = 1 \<longrightarrow> s x = 1"
      using F [of "cl_ref cl" s] Cons.prems by auto
    have "card (unmarked conds s1) < n"
      using mono [OF s1] card_mono [of "unmarked conds s" "unmarked conds s1"] Cons.prems(3) by simp
    then obtain s2 where "cycle_loop F cls s1 = Ok ([], s2)" "\<forall>x. s2 x = 1 \<longrightarrow> s1 x = 1"
      using Cons.IH [of s1] Cons.prems one by auto
    then show ?thesis using False s1 one by auto
  qed
qed auto

lemma findCycle_complete:
  assumes "grounded conds name"
    and "\<forall>x. (dep conds)\<^sup>*\<^sup>* x name \<longrightarrow> s x \<noteq> 1"
    and "card (unmarked conds s) < n"
    and "refs_declared conds" and "name \<in> fst ` set conds"
  shows "\<exists>s'. findCycle n conds name s = Ok ([], s') \<and> (\<forall>x. s' x = 1 \<longrightarrow> s x = 1)"
  using assms(1,2,3,5)
proof (induction name arbitrary: s n rule: accp_induct_rule)
  case (1 name)
  obtain m where n: "n = Suc m" using "1.prems" by (cases n) auto
  obtain c where c: "map_of conds name = Some c"
    using "1.prems"(3) by (metis domD dom_map_of_conv_image_fst)
  show ?case
  proof (cases "s name = 2")
    case True
    then show ?thesis using n by auto
  next
    case False
    let ?s = "s(name := 1)"
    have name1: "s name \<noteq> 1" using "1.prems"(1) by blast
    have in_un: "name \<in> unmarked conds s" using "1.prems"(3) False name1 by (simp add: unmarked_def)
    have cm: "card (unmarked conds ?s) < m"
      using "1.prems"(2) n card_unmarked_step [OF in_un] by simp
    have step: "\<exists>s'. findCycle m conds r t = Ok ([], s') \<and> (\<forall>x. s' x = 1 \<longrightarrow> t x = 1)"
      if r: "r \<in> refs conds name" and t: "\<forall>x. t x = 1 \<longrightarrow> ?s x = 1" and k: "card (unmarked conds t) < m" for r t
    proof (rule "1.IH")
      show d: "dep conds r name" using r by (simp add: dep_def)
      show "\<forall>x. (dep conds)\<^sup>*\<^sup>* x r \<longrightarrow> t x \<noteq> 1"
      proof (intro allI impI notI)
        fix x assume x: "(dep conds)\<^sup>*\<^sup>* x r" and "t x = 1"
        then have "x = name \<or> s x = 1" using t by (auto split: if_splits)
        moreover have "(dep conds)\<^sup>*\<^sup>* x name" using x d by simp
        moreover have "x \<noteq> name"
          using accp_not_cyclic [OF "1.hyps"] x d by (metis rtranclp_into_tranclp1)
        ultimately show False using "1.prems"(1) by blast
      qed
      show "card (unmarked conds t) < m" by (rule k)
      show "r \<in> fst ` set conds" using r assms(4) by (auto simp: refs_declared_def)
    qed
    have "\<exists>s'. cycle_loop (findCycle m conds) (co_clauses c) ?s = Ok ([], s') \<and> (\<forall>x. s' x = 1 \<longrightarrow> ?s x = 1)"
      by (rule cycle_loop_complete [where R = "refs conds name" and ?s0.0 = ?s, OF step findCycle_marks])
        (use cm in \<open>auto simp: refs_of [OF c]\<close>)
    then obtain s1 where "cycle_loop (findCycle m conds) (co_clauses c) ?s = Ok ([], s1)"
        and "\<forall>x. s1 x = 1 \<longrightarrow> ?s x = 1" by blast
    then show ?thesis using n c False name1 by (auto split: if_splits)
  qed
qed

section \<open>The check of a whole profile\<close>

lemma undeclared_ref_None:
  "undeclared_ref out cls = None \<longleftrightarrow> (\<forall>cl \<in> set cls. cl_ref cl \<noteq> [] \<longrightarrow> cl_ref cl \<in> fst ` set out)"
  by (induction cls) (auto simp: map_of_eq_None_iff)

lemma check_graph_Ok:
  assumes "check_graph out rest = Ok ()" and "(name, c) \<in> set rest" and "name \<noteq> []"
  shows "undeclared_ref out (co_clauses c) = None \<and> grounded out name"
  using assms(1,2)
proof (induction rest)
  case (Cons p rest)
  obtain n d where p: "p = (n, d)" by (cases p)
  from Cons.prems(1) p obtain st where u: "undeclared_ref out (co_clauses d) = None"
      and f: "findCycle (Suc (length out)) out n (\<lambda>_. 0) = Ok ([], st)"
      and r: "check_graph out rest = Ok ()"
    by (auto simp: obind_Ok map_err_Ok split: option.splits if_splits)
  show ?case
  proof (cases "(name, c) = p")
    case True
    then show ?thesis using u findCycle_sound [OF f] assms(3) p by simp
  next
    case False
    then show ?thesis using Cons r by auto
  qed
qed simp

lemma check_graph_complete:
  assumes "refs_declared out" and "\<forall>n \<in> fst ` set out. grounded out n"
    and "distinct (map fst out)" and "set rest \<subseteq> set out"
  shows "check_graph out rest = Ok ()"
  using assms(4)
proof (induction rest)
  case (Cons p rest)
  obtain n c where p: "p = (n, c)" by (cases p)
  have c: "map_of out n = Some c" using Cons.prems p assms(3) by simp
  have un: "undeclared_ref out (co_clauses c) = None"
    using assms(1) refs_of [OF c] by (fastforce simp: undeclared_ref_None refs_declared_def)
  obtain st where "findCycle (Suc (length out)) out n (\<lambda>_. 0) = Ok ([], st)"
    using findCycle_complete [of out n "\<lambda>_. 0" "Suc (length out)"] card_unmarked_start [of out]
      assms(1,2) Cons.prems p by force
  then show ?case using Cons p un by simp
qed simp

lemma parse_row_Ok:
  assumes "parse_row L out i fc = Ok c"
  shows "condNameRe (co_name c) \<and> co_name c = TrimSpace (fc_name fc) \<and>
     map_of out (co_name c) = None \<and> co_clauses c \<noteq> [] \<and> (\<forall>cl \<in> set (co_clauses c). cl_ref cl \<noteq> co_name c)"
proof -
  define name where "name = TrimSpace (fc_name fc)"
  define cs where "cs = (if fc_any fc \<noteq> [] then fc_any fc else fc_all fc)"
  have eq: "parse_row L out i fc =
     (if \<not> condNameRe name then Err (BadCondName i)
      else if map_of out name \<noteq> None then Err (DeclaredTwice i name)
      else if fc_all fc \<noteq> [] \<and> fc_any fc \<noteq> [] then Err (BothAllAny i name)
      else if cs = [] then Err (NoClauses i name)
      else obind (for_each (parse_row_clause L i name) 0 cs) (\<lambda>cls.
        Ok \<lparr>co_name = name, co_any = (fc_any fc \<noteq> []), co_clauses = cls\<rparr>))"
    by (simp add: parse_row_def Let_def cs_def name_def)
  have g: "condNameRe name" "map_of out name = None" "cs \<noteq> []"
    using assms unfolding eq by (simp_all split: if_splits)
  have "obind (for_each (parse_row_clause L i name) 0 cs) (\<lambda>cls.
        Ok \<lparr>co_name = name, co_any = (fc_any fc \<noteq> []), co_clauses = cls\<rparr>) = Ok c"
    using assms unfolding eq by (simp split: if_splits)
  then obtain cls where fe: "for_each (parse_row_clause L i name) 0 cs = Ok cls"
      and c: "c = \<lparr>co_name = name, co_any = (fc_any fc \<noteq> []), co_clauses = cls\<rparr>"
    unfolding obind_Ok by blast
  have "cl_ref cl \<noteq> name" if m: "cl \<in> set cls" for cl
  proof -
    obtain j x where "parse_row_clause L i name j x = Ok cl" by (rule for_each_Ok_set [OF fe m])
    then show ?thesis by (auto simp: parse_row_clause_def obind_Ok split: if_splits)
  qed
  moreover have "cls \<noteq> []" using fe g(3) by (auto simp: for_each_Ok)
  ultimately show ?thesis using c g name_def by simp
qed

text \<open>The keys of the map are the names of the conditions, and none is empty.\<close>

definition names_ok :: "conds \<Rightarrow> bool" where
  "names_ok conds \<longleftrightarrow> distinct (map fst conds) \<and> (\<forall>n c. (n, c) \<in> set conds \<longrightarrow> co_name c = n \<and> n \<noteq> [])"

lemma parse_rows_Ok:
  assumes "parse_rows L out i rows = Ok out'" and "names_ok out"
  shows "names_ok out'"
  using assms
proof (induction rows arbitrary: out i)
  case (Cons fc rows)
  then obtain c where c: "parse_row L out i fc = Ok c"
      and r: "parse_rows L (out @ [(co_name c, c)]) (Suc i) rows = Ok out'"
    by (auto simp: obind_Ok)
  note h = parse_row_Ok [OF c]
  have "co_name c \<noteq> []" using h by (auto simp: condNameRe_def)
  then have "names_ok (out @ [(co_name c, c)])"
    using Cons.prems(2) h by (fastforce simp: names_ok_def map_of_eq_None_iff image_iff)
  then show ?case by (rule Cons.IH [OF r])
qed simp

lemma parse_rows_wf: "parse_rows L [] 0 rows = Ok out \<Longrightarrow> names_ok out"
  by (rule parse_rows_Ok) (auto simp: names_ok_def)

text \<open>What a loaded profile guarantees: distinct non-empty names, declared references, and a
  grounded graph.\<close>

definition conds_ok :: "conds \<Rightarrow> bool" where
  "conds_ok conds \<longleftrightarrow> names_ok conds \<and> refs_declared conds \<and> (\<forall>n \<in> fst ` set conds. grounded conds n)"

lemma parseConditions_ok: "parseConditions L rows = Ok conds \<Longrightarrow> conds_ok conds"
proof -
  assume a: "parseConditions L rows = Ok conds"
  then have p: "parse_rows L [] 0 rows = Ok conds" and g: "check_graph conds conds = Ok ()"
    by (auto simp: parseConditions_def obind_Ok)
  note wf = parse_rows_wf [OF p]
  have each: "undeclared_ref conds (co_clauses c) = None \<and> grounded conds n" if m: "(n, c) \<in> set conds" for n c
    by (rule check_graph_Ok [OF g m]) (use wf m in \<open>auto simp: names_ok_def\<close>)
  have "refs_declared conds"
    unfolding refs_declared_def
  proof (intro allI subsetI)
    fix n r assume "r \<in> refs conds n"
    then obtain c cl where "(n, c) \<in> set conds" "cl \<in> set (co_clauses c)" "r = cl_ref cl" "r \<noteq> []"
      by (auto simp: refs_def dest: map_of_SomeD)
    then show "r \<in> fst ` set conds" using each by (auto simp: undeclared_ref_None)
  qed
  then show ?thesis using wf each by (auto simp: conds_ok_def)
qed

lemma grounded_iff_acyclic:
  assumes "refs_declared conds"
  shows "(\<forall>n \<in> fst ` set conds. grounded conds n) \<longleftrightarrow> (\<forall>n. \<not> (dep conds)\<^sup>+\<^sup>+ n n)"
proof
  assume g: "\<forall>n \<in> fst ` set conds. grounded conds n"
  show "\<forall>n. \<not> (dep conds)\<^sup>+\<^sup>+ n n"
  proof (intro allI notI)
    fix n assume cyc: "(dep conds)\<^sup>+\<^sup>+ n n"
    then obtain m where "dep conds n m" by (metis converse_tranclpE)
    then have "n \<in> fst ` set conds" using assms by (auto simp: dep_def refs_declared_def)
    then show False using g cyc accp_not_cyclic [of "dep conds" n] by auto
  qed
next
  assume ac: "\<forall>n. \<not> (dep conds)\<^sup>+\<^sup>+ n n"
  let ?R = "{(r, n). dep conds r n}"
  have "n \<in> fst ` set conds \<and> r \<in> fst ` set conds" if d: "dep conds r n" for r n
  proof -
    from d obtain c where "map_of conds n = Some c" by (auto simp: dep_def refs_def)
    then have "n \<in> fst ` set conds" by (metis domI dom_map_of_conv_image_fst)
    then show ?thesis using d assms by (auto simp: dep_def refs_declared_def)
  qed
  then have "?R \<subseteq> (fst ` set conds) \<times> (fst ` set conds)" by auto
  then have "finite ?R" by (rule finite_subset) simp
  moreover have "acyclic ?R"
    using ac by (auto simp: acyclic_def tranclp_unfold)
  ultimately have "wfP (dep conds)" by (simp add: finite_acyclic_wf wfp_def)
  then show "\<forall>n \<in> fst ` set conds. grounded conds n" by (simp add: accp_wfpD)
qed

section \<open>What the search can end with\<close>

lemma cycle_loop_no_panic:
  assumes "\<And>r s. r \<in> R \<Longrightarrow> F r s \<noteq> Panic" and "\<forall>cl \<in> set cls. cl_ref cl \<noteq> [] \<longrightarrow> cl_ref cl \<in> R"
  shows "cycle_loop F cls s \<noteq> Panic"
  using assms(2)
proof (induction cls arbitrary: s)
  case (Cons cl cls)
  then show ?case using assms(1) by (auto simp: obind_Panic)
qed simp

lemma findCycle_no_panic:
  assumes "refs_declared conds" and "name \<in> fst ` set conds"
  shows "findCycle n conds name s \<noteq> Panic"
  using assms(2)
proof (induction n arbitrary: name s)
  case (Suc n)
  obtain c where c: "map_of conds name = Some c"
    using Suc.prems by (metis domD dom_map_of_conv_image_fst)
  have "cycle_loop (findCycle n conds) (co_clauses c) (s(name := 1)) \<noteq> Panic"
  proof (rule cycle_loop_no_panic [where R = "refs conds name"])
    show "findCycle n conds r s \<noteq> Panic" if "r \<in> refs conds name" for r s
      by (rule Suc.IH) (use that assms(1) in \<open>unfold refs_declared_def, blast\<close>)
  qed (auto simp: refs_of [OF c])
  then show ?case using c by (auto simp: obind_Panic split: if_splits)
qed simp

text \<open>The search never runs out of its fuel; and when every reference is declared, it panics nowhere,
  so the check passes or reports a cycle.\<close>

lemma check_graph_fuel: "check_graph out rest \<noteq> Err OutOfFuel"
proof (induction rest)
  case (Cons p rest)
  obtain n c where p: "p = (n, c)" by (cases p)
  show ?case
    using Cons findCycle_enough [of out n] unfolding p
    by (cases "findCycle (Suc (length out)) out n (\<lambda>_. 0)") (auto split: option.splits if_splits)
qed simp

lemma check_graph_declared:
  assumes "refs_declared out" and "distinct (map fst out)" and "set rest \<subseteq> set out"
  shows "check_graph out rest = Ok () \<or> (\<exists>cyc. check_graph out rest = Err (Cycle cyc))"
  using assms(3)
proof (induction rest)
  case (Cons p rest)
  obtain n c where p: "p = (n, c)" by (cases p)
  have c: "map_of out n = Some c" and k: "n \<in> fst ` set out" using Cons.prems p assms(2) by force+
  have "undeclared_ref out (co_clauses c) = None"
    using assms(1) refs_of [OF c] by (fastforce simp: undeclared_ref_None refs_declared_def)
  then show ?case
    using Cons p findCycle_enough [of out n] findCycle_no_panic [OF assms(1) k, of "Suc (length out)" "\<lambda>_. 0"]
    by (cases "findCycle (Suc (length out)) out n (\<lambda>_. 0)") (auto split: if_splits)
qed simp

section \<open>References that are not declared\<close>

text \<open>A condition is clean when everything it depends on is declared. On a graph without a cycle the
  search panics exactly from the conditions that are not clean.\<close>

definition clean :: "conds \<Rightarrow> string \<Rightarrow> bool" where
  "clean conds n \<longleftrightarrow> (\<forall>z. (dep conds)\<^sup>*\<^sup>* z n \<longrightarrow> z \<in> fst ` set conds)"

lemma clean_iff: "clean conds n \<longleftrightarrow> n \<in> fst ` set conds \<and> (\<forall>r \<in> refs conds n. clean conds r)"
proof
  assume c: "clean conds n"
  have "z \<in> fst ` set conds" if "r \<in> refs conds n" "(dep conds)\<^sup>*\<^sup>* z r" for r z
  proof -
    have "(dep conds)\<^sup>*\<^sup>* z n" using that by (metis dep_def rtranclp.rtrancl_into_rtrancl)
    then show ?thesis using c by (simp add: clean_def)
  qed
  then show "n \<in> fst ` set conds \<and> (\<forall>r \<in> refs conds n. clean conds r)"
    using c unfolding clean_def by blast
next
  assume a: "n \<in> fst ` set conds \<and> (\<forall>r \<in> refs conds n. clean conds r)"
  show "clean conds n"
    unfolding clean_def
  proof (intro allI impI)
    fix z assume "(dep conds)\<^sup>*\<^sup>* z n"
    then show "z \<in> fst ` set conds"
    proof (cases rule: rtranclp.cases)
      case (rtrancl_into_rtrancl b)
      then show ?thesis using a by (auto simp: dep_def clean_def)
    qed (use a in simp)
  qed
qed

lemma cycle_loop_search:
  assumes F: "\<And>r s. r \<in> R \<Longrightarrow> I s \<Longrightarrow> if C r then \<exists>s'. F r s = Ok ([], s') \<and> I s' else F r s = Panic"
    and "\<forall>cl \<in> set cls. cl_ref cl \<noteq> [] \<longrightarrow> cl_ref cl \<in> R" and "I s"
  shows "if \<forall>cl \<in> set cls. cl_ref cl \<noteq> [] \<longrightarrow> C (cl_ref cl)
    then \<exists>s'. cycle_loop F cls s = Ok ([], s') \<and> I s' else cycle_loop F cls s = Panic"
  using assms(2,3)
proof (induction cls arbitrary: s)
  case (Cons cl cls)
  show ?case
  proof (cases "cl_ref cl = []")
    case True
    then show ?thesis using Cons by simp
  next
    case False
    show ?thesis
    proof (cases "C (cl_ref cl)")
      case True
      then obtain s1 where s1: "F (cl_ref cl) s = Ok ([], s1)" "I s1"
        using F [of "cl_ref cl" s] Cons.prems False by auto
      have "\<forall>cl \<in> set cls. cl_ref cl \<noteq> [] \<longrightarrow> cl_ref cl \<in> R" using Cons.prems(1) by simp
      from Cons.IH [OF this s1(2)] show ?thesis using s1 False True by simp
    next
      case no: False
      then have "F (cl_ref cl) s = Panic" using F [of "cl_ref cl" s] Cons.prems False by auto
      then show ?thesis using no False by auto
    qed
  qed
qed simp

lemma findCycle_search:
  assumes "grounded conds name" and "\<forall>x. (dep conds)\<^sup>*\<^sup>* x name \<longrightarrow> s x \<noteq> 1"
    and "\<forall>x. s x = 2 \<longrightarrow> clean conds x" and "card (unmarked conds s) < n"
  shows "if clean conds name
    then \<exists>s'. findCycle n conds name s = Ok ([], s') \<and> (\<forall>x. s' x = 1 \<longrightarrow> s x = 1) \<and> (\<forall>x. s' x = 2 \<longrightarrow> clean conds x)
    else findCycle n conds name s = Panic"
  using assms(1,2,3,4)
proof (induction name arbitrary: s n rule: accp_induct_rule)
  case (1 name)
  obtain m where n: "n = Suc m" using "1.prems" by (cases n) auto
  have name1: "s name \<noteq> 1" using "1.prems"(1) by blast
  show ?case
  proof (cases "map_of conds name")
    case None
    then have "\<not> clean conds name" using clean_iff by (metis map_of_eq_None_iff)
    then show ?thesis using None n name1 "1.prems"(2) by auto
  next
    case c: (Some c)
    then have k: "name \<in> fst ` set conds" by (metis domI dom_map_of_conv_image_fst)
    show ?thesis
    proof (cases "s name = 2")
      case True
      then show ?thesis using n "1.prems"(2) by auto
    next
      case False
      let ?s = "s(name := 1)"
      let ?I = "\<lambda>t. (\<forall>x. t x = 1 \<longrightarrow> ?s x = 1) \<and> (\<forall>x. t x = 2 \<longrightarrow> clean conds x) \<and> card (unmarked conds t) < m"
      have "name \<in> unmarked conds s" using k False name1 by (simp add: unmarked_def)
      then have cm: "card (unmarked conds ?s) < m"
        using "1.prems"(3) n card_unmarked_step [of name conds s] by simp
      have step: "if clean conds r then \<exists>s'. findCycle m conds r t = Ok ([], s') \<and> ?I s' else findCycle m conds r t = Panic"
        if r: "r \<in> refs conds name" and t: "?I t" for r t
      proof -
        have d: "dep conds r name" using r by (simp add: dep_def)
        have "\<forall>x. (dep conds)\<^sup>*\<^sup>* x r \<longrightarrow> t x \<noteq> 1"
        proof (intro allI impI notI)
          fix x assume x: "(dep conds)\<^sup>*\<^sup>* x r" and "t x = 1"
          then have "x = name \<or> s x = 1" using t by (auto split: if_splits)
          moreover have "(dep conds)\<^sup>*\<^sup>* x name" using x d by simp
          moreover have "x \<noteq> name"
            using accp_not_cyclic [OF "1.hyps"] x d by (metis rtranclp_into_tranclp1)
          ultimately show False using "1.prems"(1) by blast
        qed
        note h = "1.IH" [OF d this, of m]
        show ?thesis
        proof (cases "clean conds r")
          case True
          then obtain s' where s': "findCycle m conds r t = Ok ([], s')" "\<forall>x. s' x = 1 \<longrightarrow> t x = 1"
            "\<forall>x. s' x = 2 \<longrightarrow> clean conds x" using h t by auto
          have "card (unmarked conds s') < m"
            using findCycle_marks [OF s'(1)] card_mono [of "unmarked conds t" "unmarked conds s'"] t by simp
          then show ?thesis using s' t True by auto
        next
          case False
          then show ?thesis using h t by simp
        qed
      qed
      have "?I ?s" using "1.prems"(2) cm by auto
      have all: "(\<forall>cl \<in> set (co_clauses c). cl_ref cl \<noteq> [] \<longrightarrow> clean conds (cl_ref cl)) \<longleftrightarrow> clean conds name"
        using clean_iff [of conds name] k by (auto simp: refs_of [OF c])
      have "if clean conds name then \<exists>s'. cycle_loop (findCycle m conds) (co_clauses c) ?s = Ok ([], s') \<and> ?I s'
        else cycle_loop (findCycle m conds) (co_clauses c) ?s = Panic"
        unfolding all [symmetric]
        by (rule cycle_loop_search [where R = "refs conds name", OF step _ \<open>?I ?s\<close>]) (auto simp: refs_of [OF c])
      then show ?thesis using n c False name1 by (auto split: if_splits)
    qed
  qed
qed

lemma acyclic_grounded:
  assumes "\<forall>n. \<not> (dep conds)\<^sup>+\<^sup>+ n n"
  shows "grounded conds n"
proof -
  let ?R = "{(r, n). dep conds r n}"
  have fin: "finite (refs conds n)" for n
  proof (cases "map_of conds n")
    case None
    then show ?thesis by (simp add: refs_def)
  next
    case (Some c)
    have "refs conds n \<subseteq> cl_ref ` set (co_clauses c)" by (auto simp: refs_of [OF Some])
    then show ?thesis by (rule finite_subset) simp
  qed
  have "?R \<subseteq> (\<Union>n \<in> fst ` set conds. refs conds n) \<times> (fst ` set conds)"
  proof
    fix x assume "x \<in> {(r, n). dep conds r n}"
    then obtain r n where x: "x = (r, n)" "r \<in> refs conds n" by (auto simp: dep_def)
    then obtain c where "map_of conds n = Some c" by (auto simp: refs_def)
    then have "n \<in> fst ` set conds" by (metis domI dom_map_of_conv_image_fst)
    then show "x \<in> (\<Union>n \<in> fst ` set conds. refs conds n) \<times> (fst ` set conds)" using x by blast
  qed
  then have "finite ?R" by (rule finite_subset) (auto intro: fin)
  moreover have "acyclic ?R" using assms by (auto simp: acyclic_def tranclp_unfold)
  ultimately have "wfP (dep conds)" by (simp add: finite_acyclic_wf wfp_def)
  then show ?thesis by (simp add: accp_wfpD)
qed

lemma check_graph_Panic:
  assumes "\<forall>n. \<not> (dep out)\<^sup>+\<^sup>+ n n" and "distinct (map fst out)" and "set rest \<subseteq> set out"
  shows "check_graph out rest = Panic \<longleftrightarrow>
    (\<exists>pre n c post. rest = pre @ (n, c) # post \<and> (\<forall>x \<in> fst ` set pre. clean out x) \<and>
       refs out n \<subseteq> fst ` set out \<and> \<not> clean out n)"
  using assms(3)
proof (induction rest)
  case (Cons p rest)
  obtain n c where p: "p = (n, c)" by (cases p)
  have c: "map_of out n = Some c" using Cons.prems p assms(2) by simp
  have k: "n \<in> fst ` set out" using Cons.prems p by force
  have u: "undeclared_ref out (co_clauses c) = None \<longleftrightarrow> refs out n \<subseteq> fst ` set out"
    by (auto simp: undeclared_ref_None refs_of [OF c])
  have f: "if clean out n then \<exists>s'. findCycle (Suc (length out)) out n (\<lambda>_. 0) = Ok ([], s')
      else findCycle (Suc (length out)) out n (\<lambda>_. 0) = Panic"
    using findCycle_search [OF acyclic_grounded [OF assms(1), of n], of "\<lambda>_. 0" "Suc (length out)"] card_unmarked_start [of out]
    by (auto split: if_splits)
  have split: "(\<exists>pre x d post. p # rest = pre @ (x, d) # post \<and> P pre x d) \<longleftrightarrow>
      P [] n c \<or> (\<exists>pre x d post. rest = pre @ (x, d) # post \<and> P (p # pre) x d)" for P
  proof
    assume "\<exists>pre x d post. p # rest = pre @ (x, d) # post \<and> P pre x d"
    then obtain pre x d post where e: "p # rest = pre @ (x, d) # post" "P pre x d" by blast
    then show "P [] n c \<or> (\<exists>pre x d post. rest = pre @ (x, d) # post \<and> P (p # pre) x d)"
      using p by (cases pre) auto
  next
    assume "P [] n c \<or> (\<exists>pre x d post. rest = pre @ (x, d) # post \<and> P (p # pre) x d)"
    then show "\<exists>pre x d post. p # rest = pre @ (x, d) # post \<and> P pre x d"
    proof
      assume "\<exists>pre x d post. rest = pre @ (x, d) # post \<and> P (p # pre) x d"
      then obtain pre x d post where "p # rest = (p # pre) @ (x, d) # post" "P (p # pre) x d" by auto
      then show ?thesis by blast
    next
      assume "P [] n c"
      moreover have "p # rest = [] @ (n, c) # rest" using p by simp
      ultimately show ?thesis by blast
    qed
  qed
  show ?case
  proof (cases "undeclared_ref out (co_clauses c)")
    case (Some r)
    then have "\<not> refs out n \<subseteq> fst ` set out" using u by auto
    then have "\<not> clean out n" using clean_iff [of out n] clean_iff [of out] by blast
    then show ?thesis unfolding split using Some p \<open>\<not> refs out n \<subseteq> fst ` set out\<close> by simp
  next
    case None
    then have r: "refs out n \<subseteq> fst ` set out" using u by blast
    show ?thesis
    proof (cases "clean out n")
      case True
      then have "check_graph out (p # rest) = check_graph out rest" using f None p by auto
      then show ?thesis unfolding split using Cons True p by simp
    next
      case False
      then have "check_graph out (p # rest) = Panic" using f None p by simp
      then show ?thesis unfolding split using False r by simp
    qed
  qed
qed simp

end
