(* ===== verification/Evaluator.thy ===== *)
theory Evaluator
  imports Cond_Graph
begin

text \<open>
  The evaluating half of \<open>internal/policy/cond.go\<close>: operand values, clauses, and the lazy,
  memoising evaluation of conditions. The Go interfaces \<open>Source\<close> and \<open>Sets\<close> are records of
  operations; a source is stateful (it loads objects on first use), so its state is threaded. The
  locale \<open>source_view\<close> states what a source promises, that its answers do not change during a
  request; the evaluator is proved correct against it.

  The mirror of the dynamic lists is read through \<open>Sets\<close>: the model takes one answer per
  question for the whole request.
\<close>

section \<open>Interfaces\<close>

type_synonym pair = "string \<times> string"

record 's source_ops =
  src_field :: "'s \<Rightarrow> string \<Rightarrow> string \<times> 's"
  src_var :: "'s \<Rightarrow> string \<Rightarrow> string option \<times> 's"
  src_headers :: "'s \<Rightarrow> pair list option \<times> 's"
  src_cookies :: "'s \<Rightarrow> pair list option \<times> 's"
  src_args :: "'s \<Rightarrow> pair list option \<times> 's"

record sets_ops =
  sets_contains :: "string \<Rightarrow> string \<Rightarrow> bool \<times> bool"
  sets_contains_addr :: "string \<Rightarrow> addr \<Rightarrow> bool \<times> bool"

section \<open>Operand values\<close>

definition nonEmpty :: "string \<Rightarrow> string list" where
  "nonEmpty v = (if v = [] then [] else [v])"

definition nginxHeaderName :: "go_lib \<Rightarrow> string \<Rightarrow> string" where
  "nginxHeaderName L name = map (\<lambda>c. if c = CHR ''-'' then CHR ''_'' else c) (ToLower L name)"

text \<open>\<open>first\<close> returns the value of the first pair whose name matches; \<open>all\<close> the non-empty values
  of all of them. The predicate is the comparison of names the caller uses.\<close>

fun first_value :: "(string \<Rightarrow> bool) \<Rightarrow> pair list \<Rightarrow> string list" where
  "first_value m [] = []"
| "first_value m (p # ps) = (if m (fst p) then nonEmpty (snd p) else first_value m ps)"

definition all_values :: "(string \<Rightarrow> bool) \<Rightarrow> pair list \<Rightarrow> string list" where
  "all_values m ps = map snd (filter (\<lambda>p. m (fst p) \<and> snd p \<noteq> []) ps)"

definition from_pairs ::
  "(pair list \<Rightarrow> string list) \<Rightarrow> pair list option \<times> 's \<Rightarrow> (string list \<times> bool) \<times> 's" where
  "from_pairs f r = (case r of (None, s) \<Rightarrow> (([], False), s) | (Some ps, s) \<Rightarrow> ((f ps, True), s))"

definition Values :: "go_lib \<Rightarrow> 's source_ops \<Rightarrow> operand \<Rightarrow> 's \<Rightarrow> (string list \<times> bool) \<times> 's" where
  "Values L ops o' s =
     (case opd_kind o' of
        OperandField \<Rightarrow> (case src_field ops s (opd_name o') of (v, s') \<Rightarrow> ((nonEmpty v, True), s'))
      | OperandVar \<Rightarrow>
          (case src_var ops s (opd_name o') of
             (Some v, s') \<Rightarrow> ((nonEmpty v, True), s')
           | (None, s') \<Rightarrow> (([], False), s'))
      | OperandHeader \<Rightarrow>
          from_pairs (first_value (\<lambda>n. nginxHeaderName L n = opd_name o')) (src_headers ops s)
      | OperandCookie \<Rightarrow> from_pairs (first_value (\<lambda>n. n = opd_name o')) (src_cookies ops s)
      | OperandArg \<Rightarrow> from_pairs (first_value (\<lambda>n. n = opd_name o')) (src_args ops s)
      | OperandHeaders \<Rightarrow>
          from_pairs (all_values (\<lambda>n. opd_all o' \<or> ToLower L n = opd_name o')) (src_headers ops s)
      | OperandCookies \<Rightarrow> from_pairs (all_values (\<lambda>n. opd_all o' \<or> n = opd_name o')) (src_cookies ops s)
      | OperandArgs \<Rightarrow> from_pairs (all_values (\<lambda>n. opd_all o' \<or> n = opd_name o')) (src_args ops s))"

section \<open>The evaluator\<close>

record cond_note =
  note_condition :: string
  note_value :: string
  note_why :: string

abbreviation NoteUnavailable :: string where "NoteUnavailable \<equiv> ''unavailable''"
abbreviation NoteNotReady :: string where "NoteNotReady \<equiv> ''not_ready''"
abbreviation NoteNotAddr :: string where "NoteNotAddr \<equiv> ''not_addr''"

record 's evaluator =
  ev_src :: 's
  ev_done :: "(string \<times> bool) list"
  ev_busy :: "string list"
  ev_notes :: "cond_note list"

record 's eval_env =
  en_lib :: go_lib
  en_ops :: "'s source_ops"
  en_sets :: "sets_ops option"
  en_conds :: conds

definition NewEvaluator :: "'s \<Rightarrow> 's evaluator" where
  "NewEvaluator s = \<lparr>ev_src = s, ev_done = [], ev_busy = [], ev_notes = []\<rparr>"

definition mk_note :: "string \<Rightarrow> clause \<Rightarrow> string \<Rightarrow> cond_note" where
  "mk_note cond c why = \<lparr>note_condition = cond, note_value = opd_raw (cl_operand c), note_why = why\<rparr>"

text \<open>\<open>note\<close> does not repeat a note that is already there.\<close>

definition add_note :: "cond_note list \<Rightarrow> string \<Rightarrow> clause \<Rightarrow> string \<Rightarrow> cond_note list" where
  "add_note notes cond c why =
     (if mk_note cond c why \<in> set notes then notes else notes @ [mk_note cond c why])"

definition hashed :: "go_lib \<Rightarrow> clause \<Rightarrow> string \<Rightarrow> string" where
  "hashed L c value = (if cl_md5 c then md5_hex L value else value)"

definition hitStatic :: "go_lib \<Rightarrow> string \<Rightarrow> clause \<Rightarrow> string \<Rightarrow> cond_note list \<Rightarrow> bool \<times> cond_note list" where
  "hitStatic L cond c value notes =
     (case cl_static c of
        None \<Rightarrow> (False, add_note notes cond c NoteNotReady)
      | Some ss \<Rightarrow>
          if cl_addr c then
            (case ParseAddr (TrimSpace value) of
               None \<Rightarrow> (False, add_note notes cond c NoteNotAddr)
             | Some ip \<Rightarrow> (static_containsAddr ss ip, notes))
          else (static_contains ss (hashed L c value), notes))"

definition ready_or_note :: "string \<Rightarrow> clause \<Rightarrow> bool \<times> bool \<Rightarrow> cond_note list \<Rightarrow> bool \<times> cond_note list" where
  "ready_or_note cond c r notes =
     (fst r, if snd r then notes else add_note notes cond c NoteNotReady)"

definition hit :: "go_lib \<Rightarrow> sets_ops option \<Rightarrow> string \<Rightarrow> clause \<Rightarrow> string \<Rightarrow> cond_note list \<Rightarrow> bool \<times> cond_note list" where
  "hit L sets cond c value notes =
     (if cl_op c = OpEq \<or> cl_op c = OpNe then (value = cl_text c, notes)
      else if cl_op c = OpIn \<or> cl_op c = OpNotIn then
        (if cl_is_static c then hitStatic L cond c value notes
         else case sets of
           None \<Rightarrow> (False, add_note notes cond c NoteNotReady)
         | Some S \<Rightarrow>
             if cl_addr c then
               (case ParseAddr (TrimSpace value) of
                  None \<Rightarrow> (False, add_note notes cond c NoteNotAddr)
                | Some ip \<Rightarrow> ready_or_note cond c (sets_contains_addr S (cl_dataset c) ip) notes)
             else ready_or_note cond c (sets_contains S (cl_dataset c) (hashed L c value)) notes)
      else (False, notes))"

fun any_hit ::
  "go_lib \<Rightarrow> sets_ops option \<Rightarrow> string \<Rightarrow> clause \<Rightarrow> string list \<Rightarrow> cond_note list \<Rightarrow> bool \<times> cond_note list" where
  "any_hit L sets cond c [] notes = (False, notes)"
| "any_hit L sets cond c (v # vs) notes =
     (case hit L sets cond c v notes of
        (h, notes') \<Rightarrow> if h then (True, notes') else any_hit L sets cond c vs notes')"

definition clause_result :: "clause \<Rightarrow> bool \<Rightarrow> bool" where
  "clause_result c h = (if Negated c then \<not> h else h)"

definition leaf_clause :: "'s eval_env \<Rightarrow> string \<Rightarrow> clause \<Rightarrow> 's evaluator \<Rightarrow> bool \<times> 's evaluator" where
  "leaf_clause E cond c ev =
     (case Values (en_lib E) (en_ops E) (cl_operand c) (ev_src ev) of
        ((values, avail), s') \<Rightarrow>
          let notes = (if avail then ev_notes ev else ev_notes ev @ [mk_note cond c NoteUnavailable])
          in case any_hit (en_lib E) (en_sets E) cond c values notes of
               (h, notes') \<Rightarrow> (clause_result c h, ev\<lparr>ev_src := s', ev_notes := notes'\<rparr>))"

text \<open>\<open>Holds\<close> and \<open>clause\<close> call each other; the recursion is cut at a condition that is already on
  the path (\<open>busy\<close>). The model passes the recursive call to the loop over the clauses and counts
  the depth down (\<open>None\<close> when it runs out); \<open>Holds_total\<close> shows that one more than the number of
  conditions is always enough.\<close>

definition clause_with ::
  "(string \<Rightarrow> 's evaluator \<Rightarrow> (bool \<times> 's evaluator) option) \<Rightarrow> 's eval_env \<Rightarrow> string \<Rightarrow> clause \<Rightarrow>
   's evaluator \<Rightarrow> (bool \<times> 's evaluator) option" where
  "clause_with H E cond c ev =
     (if cl_ref c \<noteq> [] then map_option (\<lambda>(h, ev'). (clause_result c h, ev')) (H (cl_ref c) ev)
      else Some (leaf_clause E cond c ev))"

fun clauses_with ::
  "(string \<Rightarrow> 's evaluator \<Rightarrow> (bool \<times> 's evaluator) option) \<Rightarrow> 's eval_env \<Rightarrow> condition \<Rightarrow>
   clause list \<Rightarrow> 's evaluator \<Rightarrow> (bool \<times> 's evaluator) option" where
  "clauses_with H E c [] ev = Some (\<not> co_any c, ev)"
| "clauses_with H E c (cl # cls) ev =
     (case clause_with H E (co_name c) cl ev of
        None \<Rightarrow> None
      | Some (h, ev') \<Rightarrow>
          if co_any c \<and> h then Some (True, ev')
          else if \<not> co_any c \<and> \<not> h then Some (False, ev')
          else clauses_with H E c cls ev')"

fun Holds_upto :: "nat \<Rightarrow> 's eval_env \<Rightarrow> string \<Rightarrow> 's evaluator \<Rightarrow> (bool \<times> 's evaluator) option" where
  "Holds_upto 0 E name ev = None"
| "Holds_upto (Suc n) E name ev =
     (case map_of (ev_done ev) name of
        Some v \<Rightarrow> Some (v, ev)
      | None \<Rightarrow>
          (case map_of (en_conds E) name of
             None \<Rightarrow> Some (False, ev)
           | Some c \<Rightarrow>
               if name \<in> set (ev_busy ev) then Some (False, ev)
               else case clauses_with (Holds_upto n E) E c (co_clauses c) (ev\<lparr>ev_busy := name # ev_busy ev\<rparr>) of
                 None \<Rightarrow> None
               | Some (v, ev') \<Rightarrow>
                   Some (v, ev'\<lparr>ev_busy := removeAll name (ev_busy ev'),
                                ev_done := AList.update name v (ev_done ev')\<rparr>)))"

definition Holds :: "'s eval_env \<Rightarrow> string \<Rightarrow> 's evaluator \<Rightarrow> (bool \<times> 's evaluator) option" where
  "Holds E name ev = Holds_upto (Suc (length (en_conds E))) E name ev"

definition Evaluated :: "'s evaluator \<Rightarrow> (string \<times> bool) list" where
  "Evaluated ev = ev_done ev"

section \<open>The path is restored, and the depth is enough\<close>

lemma leaf_clause_busy: "leaf_clause E cond c ev = (h, ev') \<Longrightarrow> ev_busy ev' = ev_busy ev"
  by (auto simp: leaf_clause_def Let_def split: prod.splits)

lemma clauses_with_busy:
  assumes "\<And>r e h e'. H r e = Some (h, e') \<Longrightarrow> ev_busy e' = ev_busy e"
    and "clauses_with H E c cls ev = Some (v, ev')"
  shows "ev_busy ev' = ev_busy ev"
  using assms(2)
proof (induction cls arbitrary: ev)
  case (Cons cl cls)
  then obtain h e1 where cw: "clause_with H E (co_name c) cl ev = Some (h, e1)"
    by (auto split: option.splits)
  then have "ev_busy e1 = ev_busy ev"
    using assms(1) leaf_clause_busy [of E "co_name c" cl ev h e1] by (auto simp: clause_with_def split: if_splits)
  then show ?case using Cons cw by (auto split: if_splits)
qed simp

lemma Holds_busy: "Holds_upto n E name ev = Some (v, ev') \<Longrightarrow> ev_busy ev' = ev_busy ev"
proof (induction n arbitrary: name ev v ev')
  case (Suc n)
  show ?case
  proof (cases "map_of (ev_done ev) name = None \<and> map_of (en_conds E) name \<noteq> None \<and> name \<notin> set (ev_busy ev)")
    case True
    then obtain c e1 where "map_of (en_conds E) name = Some c"
        and l: "clauses_with (Holds_upto n E) E c (co_clauses c) (ev\<lparr>ev_busy := name # ev_busy ev\<rparr>) = Some (v, e1)"
        and e: "ev_busy ev' = removeAll name (ev_busy e1)"
      using Suc.prems by (auto split: option.splits)
    have "ev_busy e1 = name # ev_busy ev" using clauses_with_busy [OF Suc.IH l] by simp
    then show ?thesis using e True by simp
  next
    case False
    then show ?thesis using Suc.prems by (auto split: option.splits if_splits)
  qed
qed simp

definition idle :: "'s eval_env \<Rightarrow> 's evaluator \<Rightarrow> string set" where
  "idle E ev = fst ` set (en_conds E) - set (ev_busy ev)"

lemma clauses_with_total:
  assumes "\<And>r e. card (idle E e) < n \<Longrightarrow> H r e \<noteq> None"
    and "\<And>r e h e'. H r e = Some (h, e') \<Longrightarrow> ev_busy e' = ev_busy e"
    and "card (idle E ev) < n"
  shows "clauses_with H E c cls ev \<noteq> None"
  using assms(3)
proof (induction cls arbitrary: ev)
  case (Cons cl cls)
  obtain h e1 where cw: "clause_with H E (co_name c) cl ev = Some (h, e1)"
    using assms(1) [OF Cons.prems, of "cl_ref cl"]
    by (cases "leaf_clause E (co_name c) cl ev") (fastforce simp: clause_with_def)
  then have "ev_busy e1 = ev_busy ev"
    using assms(2) leaf_clause_busy [of E "co_name c" cl ev h e1] by (auto simp: clause_with_def split: if_splits)
  then have "card (idle E e1) < n" using Cons.prems by (simp add: idle_def)
  then show ?case using cw Cons.IH [of e1] by (auto split: if_splits)
qed simp

lemma Holds_upto_total: "card (idle E ev) < n \<Longrightarrow> Holds_upto n E name ev \<noteq> None"
proof (induction n arbitrary: name ev)
  case (Suc n)
  show ?case
  proof (cases "map_of (ev_done ev) name = None \<and> map_of (en_conds E) name \<noteq> None \<and> name \<notin> set (ev_busy ev)")
    case True
    then obtain c where c: "map_of (en_conds E) name = Some c" by auto
    let ?ev = "ev\<lparr>ev_busy := name # ev_busy ev\<rparr>"
    have "name \<in> idle E ev" using True c by (metis DiffI domI dom_map_of_conv_image_fst idle_def)
    then have "idle E ?ev \<subset> idle E ev" by (auto simp: idle_def)
    then have less: "card (idle E ?ev) < n"
      using Suc.prems psubset_card_mono [of "idle E ev" "idle E ?ev"] by (simp add: idle_def)
    have "clauses_with (Holds_upto n E) E c (co_clauses c) ?ev \<noteq> None"
      by (rule clauses_with_total [OF Suc.IH Holds_busy less])
    then show ?thesis using True c by auto
  next
    case False
    then show ?thesis by (auto split: option.splits)
  qed
qed simp

lemma Holds_total: "\<exists>v ev'. Holds E name ev = Some (v, ev')"
proof -
  have "card (idle E ev) \<le> card (fst ` set (en_conds E))" by (intro card_mono) (auto simp: idle_def)
  also have "\<dots> \<le> length (en_conds E)" by (metis card_length length_map set_map)
  finally have "Holds_upto (Suc (length (en_conds E))) E name ev \<noteq> None"
    by (intro Holds_upto_total) simp
  then show ?thesis by (auto simp: Holds_def)
qed

section \<open>The meaning of a condition\<close>

text \<open>A view is what a source answers during a request; a valuation gives every condition a truth
  value such that each declared condition is the conjunction or disjunction of its clauses.\<close>

record view =
  vw_field :: "string \<Rightarrow> string"
  vw_var :: "string \<Rightarrow> string option"
  vw_headers :: "pair list option"
  vw_cookies :: "pair list option"
  vw_args :: "pair list option"

definition pure_ops :: "view source_ops" where
  "pure_ops =
     \<lparr>src_field = (\<lambda>w n. (vw_field w n, w)), src_var = (\<lambda>w n. (vw_var w n, w)),
      src_headers = (\<lambda>w. (vw_headers w, w)), src_cookies = (\<lambda>w. (vw_cookies w, w)),
      src_args = (\<lambda>w. (vw_args w, w))\<rparr>"

definition view_values :: "go_lib \<Rightarrow> view \<Rightarrow> operand \<Rightarrow> string list" where
  "view_values L w o' = fst (fst (Values L pure_ops o' w))"

definition leaf_sem :: "go_lib \<Rightarrow> sets_ops option \<Rightarrow> view \<Rightarrow> clause \<Rightarrow> bool" where
  "leaf_sem L S w c = clause_result c (\<exists>v \<in> set (view_values L w (cl_operand c)). fst (hit L S [] c v []))"

definition clause_sem :: "go_lib \<Rightarrow> sets_ops option \<Rightarrow> view \<Rightarrow> (string \<Rightarrow> bool) \<Rightarrow> clause \<Rightarrow> bool" where
  "clause_sem L S w \<sigma> c = (if cl_ref c \<noteq> [] then clause_result c (\<sigma> (cl_ref c)) else leaf_sem L S w c)"

definition cond_sem ::
  "go_lib \<Rightarrow> sets_ops option \<Rightarrow> conds \<Rightarrow> view \<Rightarrow> (string \<Rightarrow> bool) \<Rightarrow> string \<Rightarrow> bool" where
  "cond_sem L S C w \<sigma> name =
     (case map_of C name of
        None \<Rightarrow> False
      | Some c \<Rightarrow>
          if co_any c then (\<exists>cl \<in> set (co_clauses c). clause_sem L S w \<sigma> cl)
          else (\<forall>cl \<in> set (co_clauses c). clause_sem L S w \<sigma> cl))"

definition valuation ::
  "go_lib \<Rightarrow> sets_ops option \<Rightarrow> conds \<Rightarrow> view \<Rightarrow> (string \<Rightarrow> bool) \<Rightarrow> bool" where
  "valuation L S C w \<sigma> \<longleftrightarrow> (\<forall>name. \<sigma> name = cond_sem L S C w \<sigma> name)"

lemma cond_sem_cong:
  assumes "\<And>r. r \<in> refs C name \<Longrightarrow> \<sigma> r = \<tau> r"
  shows "cond_sem L S C w \<sigma> name = cond_sem L S C w \<tau> name"
proof (cases "map_of C name")
  case (Some c)
  have "clause_sem L S w \<sigma> cl = clause_sem L S w \<tau> cl" if "cl \<in> set (co_clauses c)" for cl
  proof (cases "cl_ref cl = []")
    case False
    then have "cl_ref cl \<in> refs C name" using that by (auto simp: refs_of [OF Some])
    then show ?thesis using assms by (simp add: clause_sem_def)
  qed (simp add: clause_sem_def)
  then show ?thesis by (simp add: cond_sem_def Some)
qed (simp add: cond_sem_def)

lemma conds_ok_grounded: "conds_ok C \<Longrightarrow> grounded C name"
proof (cases "name \<in> fst ` set C")
  case False
  then have "refs C name = {}" by (simp add: refs_def map_of_eq_None_iff [THEN iffD2])
  then show ?thesis by (auto intro: accp.accI simp: dep_def)
qed (auto simp: conds_ok_def)

text \<open>A loaded set of conditions has exactly one valuation.\<close>

lemma valuation_exists:
  assumes "conds_ok C"
  shows "\<exists>\<sigma>. valuation L S C w \<sigma>"
proof -
  let ?R = "{(r, n). dep C r n}"
  let ?s = "wfrec ?R (\<lambda>f n. cond_sem L S C w f n)"
  have "wfp (dep C)" using conds_ok_grounded [OF assms] by (intro accp_wfpI) simp
  then have wf: "wf ?R" by (simp add: wfp_def)
  have "?s n = cond_sem L S C w ?s n" for n
  proof -
    have "?s n = cond_sem L S C w (cut ?s ?R n) n" by (rule wfrec [OF wf])
    also have "\<dots> = cond_sem L S C w ?s n"
      by (rule cond_sem_cong) (simp add: cut_def dep_def)
    finally show ?thesis .
  qed
  then have "valuation L S C w ?s" unfolding valuation_def by blast
  then show ?thesis by blast
qed

lemma valuation_unique:
  assumes "conds_ok C" and "valuation L S C w \<sigma>" and "valuation L S C w \<tau>"
  shows "\<sigma> = \<tau>"
proof
  fix name
  have "grounded C name" by (rule conds_ok_grounded [OF assms(1)])
  then show "\<sigma> name = \<tau> name"
  proof (induction rule: accp_induct_rule)
    case (1 name)
    then have "cond_sem L S C w \<sigma> name = cond_sem L S C w \<tau> name"
      by (intro cond_sem_cong) (simp add: dep_def)
    then show ?case using assms(2,3) by (simp add: valuation_def)
  qed
qed

section \<open>Notes do not change a lookup\<close>

lemma hit_notes: "fst (hit L S cond c v notes) = fst (hit L S [] c v [])"
  by (auto simp: hit_def hitStatic_def ready_or_note_def split: option.splits)

lemma any_hit_iff: "fst (any_hit L S cond c vs ns) \<longleftrightarrow> (\<exists>v \<in> set vs. fst (hit L S [] c v []))"
proof (induction vs arbitrary: ns)
  case (Cons v vs)
  obtain h n where h: "hit L S cond c v ns = (h, n)" by (cases "hit L S cond c v ns")
  then have "h = fst (hit L S [] c v [])" using hit_notes [of L S cond c v ns] by simp
  then show ?case using Cons h by auto
qed simp

section \<open>What a source promises\<close>

locale source_view =
  fixes ops :: "'s source_ops"
    and view :: "'s \<Rightarrow> view"
    and inv :: "'s \<Rightarrow> bool"
  assumes field_law: "inv s \<Longrightarrow>
      fst (src_field ops s n) = vw_field (view s) n \<and> view (snd (src_field ops s n)) = view s \<and> inv (snd (src_field ops s n))"
    and var_law: "inv s \<Longrightarrow>
      fst (src_var ops s n) = vw_var (view s) n \<and> view (snd (src_var ops s n)) = view s \<and> inv (snd (src_var ops s n))"
    and headers_law: "inv s \<Longrightarrow>
      fst (src_headers ops s) = vw_headers (view s) \<and> view (snd (src_headers ops s)) = view s \<and> inv (snd (src_headers ops s))"
    and cookies_law: "inv s \<Longrightarrow>
      fst (src_cookies ops s) = vw_cookies (view s) \<and> view (snd (src_cookies ops s)) = view s \<and> inv (snd (src_cookies ops s))"
    and args_law: "inv s \<Longrightarrow>
      fst (src_args ops s) = vw_args (view s) \<and> view (snd (src_args ops s)) = view s \<and> inv (snd (src_args ops s))"
begin

lemmas laws = field_law var_law headers_law cookies_law args_law

lemma Values_view:
  assumes "inv s"
  shows "fst (fst (Values L ops o' s)) = view_values L (view s) o' \<and>
     view (snd (Values L ops o' s)) = view s \<and> inv (snd (Values L ops o' s))"
  using assms laws
  by (simp add: Values_def view_values_def pure_ops_def from_pairs_def case_prod_beta
      split: operand_kind.split option.split)

definition ev_ok :: "view \<Rightarrow> (string \<Rightarrow> bool) \<Rightarrow> 's evaluator \<Rightarrow> bool" where
  "ev_ok w \<sigma> ev \<longleftrightarrow>
     inv (ev_src ev) \<and> view (ev_src ev) = w \<and> (\<forall>n v. map_of (ev_done ev) n = Some v \<longrightarrow> v = \<sigma> n)"

lemma leaf_clause_sem:
  assumes "ev_ok w \<sigma> ev" and "en_ops E = ops" and "leaf_clause E cond c ev = (h, ev')"
  shows "h = leaf_sem (en_lib E) (en_sets E) w c \<and> ev_ok w \<sigma> ev'"
proof -
  obtain vs av s' where v: "Values (en_lib E) ops (cl_operand c) (ev_src ev) = ((vs, av), s')"
    by (metis surj_pair)
  have "vs = view_values (en_lib E) w (cl_operand c) \<and> view s' = w \<and> inv s'"
    using Values_view [of "ev_src ev" "en_lib E" "cl_operand c"] assms(1) v by (simp add: ev_ok_def)
  moreover obtain b ns where a: "any_hit (en_lib E) (en_sets E) cond c vs
        (if av then ev_notes ev else ev_notes ev @ [mk_note cond c NoteUnavailable]) = (b, ns)"
    by (metis surj_pair)
  moreover have "b \<longleftrightarrow> (\<exists>v \<in> set vs. fst (hit (en_lib E) (en_sets E) [] c v []))"
    by (metis a any_hit_iff fst_conv)
  ultimately show ?thesis
    using assms v by (simp add: leaf_clause_def leaf_sem_def ev_ok_def Let_def) auto
qed

lemma clauses_with_sem:
  assumes H: "\<And>r e h e'. r \<in> set (map cl_ref cls) \<Longrightarrow> r \<noteq> [] \<Longrightarrow> ev_ok w \<sigma> e \<Longrightarrow> set (ev_busy e) = B \<Longrightarrow>
        H r e = Some (h, e') \<Longrightarrow> h = \<sigma> r \<and> ev_ok w \<sigma> e' \<and> set (ev_busy e') = B"
    and ops: "en_ops E = ops"
    and "ev_ok w \<sigma> ev" and "set (ev_busy ev) = B" and "clauses_with H E c cls ev = Some (v, ev')"
  shows "v = (if co_any c then (\<exists>cl \<in> set cls. clause_sem (en_lib E) (en_sets E) w \<sigma> cl)
              else (\<forall>cl \<in> set cls. clause_sem (en_lib E) (en_sets E) w \<sigma> cl)) \<and> ev_ok w \<sigma> ev'"
  using assms(1,3-)
proof (induction cls arbitrary: ev)
  case (Cons cl cls)
  obtain h e1 where cw: "clause_with H E (co_name c) cl ev = Some (h, e1)"
    using Cons.prems(4) by (auto split: option.splits)
  have h: "h = clause_sem (en_lib E) (en_sets E) w \<sigma> cl \<and> ev_ok w \<sigma> e1 \<and> set (ev_busy e1) = B"
  proof (cases "cl_ref cl = []")
    case True
    then show ?thesis
      using cw leaf_clause_sem [OF Cons.prems(2) ops, of "co_name c" cl h e1]
        leaf_clause_busy [of E "co_name c" cl ev h e1] Cons.prems(3)
      by (auto simp: clause_with_def clause_sem_def)
  next
    case False
    then show ?thesis
      using cw Cons.prems(1) [of "cl_ref cl" ev] Cons.prems(2,3)
      by (auto simp: clause_with_def clause_sem_def)
  qed
  show ?case
  proof (cases "co_any c = h")
    case True
    then show ?thesis using Cons.prems(4) cw h by (auto split: if_splits)
  next
    case False
    then have r: "clauses_with H E c cls e1 = Some (v, ev')" using Cons.prems(4) cw by (auto split: if_splits)
    have "v = (if co_any c then (\<exists>cl \<in> set cls. clause_sem (en_lib E) (en_sets E) w \<sigma> cl)
              else (\<forall>cl \<in> set cls. clause_sem (en_lib E) (en_sets E) w \<sigma> cl)) \<and> ev_ok w \<sigma> ev'"
    proof (rule Cons.IH [OF _ _ _ r])
      fix r e g e'
      assume "r \<in> set (map cl_ref cls)" "r \<noteq> []" "ev_ok w \<sigma> e" "set (ev_busy e) = B" "H r e = Some (g, e')"
      then show "g = \<sigma> r \<and> ev_ok w \<sigma> e' \<and> set (ev_busy e') = B"
        by (intro Cons.prems(1)) simp_all
    qed (use h in simp_all)
    then show ?thesis using False h by auto
  qed
qed auto

text \<open>With the source's promise, \<open>Holds\<close> returns the value of the valuation and remembers only
  such values, whatever was asked before.\<close>

lemma Holds_upto_sem:
  assumes val: "valuation (en_lib E) (en_sets E) (en_conds E) w \<sigma>" and ops: "en_ops E = ops"
    and "grounded (en_conds E) name"
    and "\<forall>x. (dep (en_conds E))\<^sup>*\<^sup>* x name \<longrightarrow> x \<notin> set (ev_busy ev)"
    and "ev_ok w \<sigma> ev" and "Holds_upto n E name ev = Some (v, ev')"
  shows "v = \<sigma> name \<and> ev_ok w \<sigma> ev'"
  using assms(3-)
proof (induction name arbitrary: n ev v ev' rule: accp_induct_rule)
  case (1 name)
  obtain m where n: "n = Suc m" using "1.prems"(3) by (cases n) auto
  have free: "name \<notin> set (ev_busy ev)" using "1.prems"(1) by blast
  show ?case
  proof (cases "map_of (ev_done ev) name")
    case (Some u)
    then show ?thesis using "1.prems" n by (auto simp: ev_ok_def)
  next
    case None
    show ?thesis
    proof (cases "map_of (en_conds E) name")
      assume mo: "map_of (en_conds E) name = None"
      then have "\<sigma> name = False" using val by (simp add: valuation_def cond_sem_def)
      then show ?thesis using "1.prems" n None mo by auto
    next
      fix c assume c: "map_of (en_conds E) name = Some c"
      let ?ev = "ev\<lparr>ev_busy := name # ev_busy ev\<rparr>"
      obtain e1 where l: "clauses_with (Holds_upto m E) E c (co_clauses c) ?ev = Some (v, e1)"
          and ev': "ev' = e1\<lparr>ev_busy := removeAll name (ev_busy e1), ev_done := AList.update name v (ev_done e1)\<rparr>"
        using "1.prems"(3) n None c free by (auto split: option.splits)
      have step: "h = \<sigma> r \<and> ev_ok w \<sigma> e' \<and> set (ev_busy e') = set (ev_busy ?ev)"
        if "r \<in> set (map cl_ref (co_clauses c))" "r \<noteq> []" "ev_ok w \<sigma> e" "set (ev_busy e) = set (ev_busy ?ev)"
          "Holds_upto m E r e = Some (h, e')" for r e h e'
      proof -
        have d: "dep (en_conds E) r name" using that(1,2) refs_of [OF c] by (auto simp: dep_def)
        have "\<forall>x. (dep (en_conds E))\<^sup>*\<^sup>* x r \<longrightarrow> x \<notin> set (ev_busy e)"
        proof (intro allI impI)
          fix x assume x: "(dep (en_conds E))\<^sup>*\<^sup>* x r"
          have "x \<noteq> name" using accp_not_cyclic [OF "1.hyps"] x d by (metis rtranclp_into_tranclp1)
          moreover have "(dep (en_conds E))\<^sup>*\<^sup>* x name" using x d by simp
          ultimately show "x \<notin> set (ev_busy e)" using "1.prems"(1) that(4) by simp
        qed
        from "1.IH" [OF d this that(3,5)] show ?thesis
          using Holds_busy [OF that(5)] that(4) by simp
      qed
      have ok: "ev_ok w \<sigma> ?ev" using "1.prems"(2) by (simp add: ev_ok_def)
      have "v = (if co_any c then (\<exists>cl \<in> set (co_clauses c). clause_sem (en_lib E) (en_sets E) w \<sigma> cl)
              else (\<forall>cl \<in> set (co_clauses c). clause_sem (en_lib E) (en_sets E) w \<sigma> cl)) \<and> ev_ok w \<sigma> e1"
        by (rule clauses_with_sem [OF step ops ok refl l])
      then have v: "v = \<sigma> name" and e1: "ev_ok w \<sigma> e1"
        using val c by (simp_all add: valuation_def cond_sem_def)
      then show ?thesis using ev' by (auto simp: ev_ok_def update_conv)
    qed
  qed
qed

lemma Holds_sem:
  assumes "conds_ok (en_conds E)" and "valuation (en_lib E) (en_sets E) (en_conds E) w \<sigma>"
    and "en_ops E = ops" and "ev_ok w \<sigma> ev" and "ev_busy ev = []"
  shows "\<exists>ev'. Holds E name ev = Some (\<sigma> name, ev') \<and> ev_ok w \<sigma> ev' \<and> ev_busy ev' = []"
proof -
  obtain v ev' where h: "Holds E name ev = Some (v, ev')" using Holds_total by blast
  have "v = \<sigma> name \<and> ev_ok w \<sigma> ev'"
    by (rule Holds_upto_sem [OF assms(2,3) conds_ok_grounded [OF assms(1)] _ assms(4) h [unfolded Holds_def]])
      (simp add: assms(5))
  moreover have "ev_busy ev' = []" using Holds_busy [OF h [unfolded Holds_def]] assms(5) by simp
  ultimately show ?thesis using h by blast
qed

lemma ev_ok_new: "inv s \<Longrightarrow> ev_ok (view s) \<sigma> (NewEvaluator s) \<and> ev_busy (NewEvaluator s) = []"
  by (simp add: ev_ok_def NewEvaluator_def)

end

end
