(* ===== verification/Audit_Sink.thy ===== *)
theory Audit_Sink
  imports Protocol Evaluator "HOL-Library.Multiset"
begin

text \<open>
  \<open>internal/audit\<close>: the event built from a request, its reply and the details of the evaluation,
  and the sink that batches events. The critical sections of the sink are functions on the record
  \<open>sink\<close>; \<open>sink_step\<close> interleaves the callers of \<open>Add\<close> with the goroutine \<open>loop\<close>, whose place
  between two critical sections is a value of \<open>sink_thread\<close>. The encoder of an event is an argument.
  \<open>ss_added\<close>, \<open>ss_cut\<close>, \<open>ss_sent\<close> and \<open>ss_lost\<close> record what was added, what was cut off, the batches
  that were published and those whose publication failed (which \<open>send\<close> only logs).
\<close>

section \<open>Events\<close>

record finding =
  fi_code :: string
  fi_severity :: string
  fi_target :: string
  fi_offset :: "int option"
  fi_length :: "int option"
  fi_rule :: string
  fi_evidence :: string

text \<open>The values the inspector puts into the map \<open>Engine\<close>.\<close>

datatype engine_value =
    EngText string | EngCount nat | EngNames "string list" | EngResults "(string \<times> bool) list"
  | EngNotes "cond_note list"

type_synonym engine = "(string \<times> engine_value) list"

record details =
  det_engineMS :: int
  det_findings :: "finding list option"
  det_engine :: "engine option"

definition no_details :: details where
  "no_details = \<lparr>det_engineMS = 0, det_findings = None, det_engine = None\<rparr>"

record event =
  evt_v :: int
  evt_kind :: string
  evt_ts :: string
  evt_ray :: string
  evt_node :: string
  evt_phase :: string
  evt_inspector :: string
  evt_profile :: string
  evt_verdict :: string
  evt_score :: "int option"
  evt_engineMS :: int
  evt_findings :: "finding list"
  evt_engine :: "engine option"

definition event_req :: "request option \<Rightarrow> event \<Rightarrow> event" where
  "event_req req' e =
     (case req' of None \<Rightarrow> e
      | Some req \<Rightarrow> e\<lparr>evt_ray := req_ray req, evt_node := req_node req, evt_phase := req_phase req,
          evt_inspector := req_inspector req, evt_profile := route_profile (req_route req)\<rparr>)"

definition event_reply :: "reply option \<Rightarrow> event \<Rightarrow> event" where
  "event_reply rep' e =
     (case rep' of None \<Rightarrow> e
      | Some rep \<Rightarrow>
          let e = e\<lparr>evt_verdict := rep_verdict rep, evt_score := rep_score rep\<rparr>
          in if evt_inspector e = [] then e\<lparr>evt_inspector := rep_inspector rep\<rparr> else e)"

definition Build :: "string \<Rightarrow> request option \<Rightarrow> reply option \<Rightarrow> details \<Rightarrow> event" where
  "Build ts req rep det =
     event_reply rep (event_req req
       \<lparr>evt_v = 1, evt_kind = ''inspector'', evt_ts = ts, evt_ray = [], evt_node = [], evt_phase = [],
        evt_inspector = [], evt_profile = [], evt_verdict = [], evt_score = None, evt_engineMS = det_engineMS det,
        evt_findings = (case det_findings det of None \<Rightarrow> [] | Some fs \<Rightarrow> fs), evt_engine = det_engine det\<rparr>)"

section \<open>The sink\<close>

abbreviation maxItems :: nat where "maxItems \<equiv> 256"
abbreviation maxSize :: nat where "maxSize \<equiv> 524288"
abbreviation maxPending :: nat where "maxPending \<equiv> 50000"

record item =
  it_subject :: string
  it_body :: string

record sink =
  sk_pending :: "item list"
  sk_size :: nat
  sk_dropped :: "64 word"
  sk_wake :: bool

definition NewSink :: sink where
  "NewSink = \<lparr>sk_pending = [], sk_size = 0, sk_dropped = 0, sk_wake = False\<rparr>"

definition sizeOf :: "item list \<Rightarrow> nat" where
  "sizeOf items = foldl (\<lambda>n it. n + (length (it_body it) + 2)) 0 items"

text \<open>The event of a call of \<open>Add\<close>: none, an encoding error, or an item to append.\<close>

datatype add_call = NoEvent | BadEvent | NewItem item

definition add_call :: "bool \<Rightarrow> (event \<Rightarrow> string option) \<Rightarrow> string \<Rightarrow> request option \<Rightarrow> reply option \<Rightarrow> details \<Rightarrow> add_call" where
  "add_call connected json ts req' rep' det =
     (case (req', rep') of
        (Some req, Some rep) \<Rightarrow>
          if \<not> connected then NoEvent
          else (case req_audit_subject req of
              None \<Rightarrow> NoEvent
            | Some subject \<Rightarrow>
                if subject = [] then NoEvent
                else (case json (Build ts req' rep' det) of
                    None \<Rightarrow> BadEvent
                  | Some b \<Rightarrow> NewItem \<lparr>it_subject = subject, it_body = b\<rparr>))
      | _ \<Rightarrow> NoEvent)"

definition add_item :: "item \<Rightarrow> sink \<Rightarrow> sink" where
  "add_item it s =
     (let s = s\<lparr>sk_pending := sk_pending s @ [it], sk_size := sk_size s + length (it_body it) + 2\<rparr>;
          cut = length (sk_pending s) - maxPending;
          s = (if length (sk_pending s) > maxPending
               then s\<lparr>sk_dropped := sk_dropped s + word_of_nat cut, sk_pending := drop cut (sk_pending s),
                      sk_size := sizeOf (drop cut (sk_pending s))\<rparr>
               else s)
      in if length (sk_pending s) \<ge> maxItems \<or> sk_size s \<ge> maxSize then s\<lparr>sk_wake := True\<rparr> else s)"

text \<open>One round of \<open>flush\<close>: what it takes, and the rest.\<close>

definition flush_round :: "sink \<Rightarrow> item list \<times> sink" where
  "flush_round s =
     (let n = min (length (sk_pending s)) maxItems; rest = drop n (sk_pending s)
      in (take n (sk_pending s), s\<lparr>sk_pending := rest, sk_size := sizeOf rest\<rparr>))"

text \<open>The batches of one round, a subject at a time in the order of first appearance.\<close>

fun group_loop :: "item list \<Rightarrow> string list \<Rightarrow> (string \<times> item list) list \<Rightarrow> string list \<times> (string \<times> item list) list" where
  "group_loop [] order by = (order, by)"
| "group_loop (it # items) order by =
     (case map_of by (it_subject it) of
        None \<Rightarrow> group_loop items (order @ [it_subject it]) (AList.update (it_subject it) [it] by)
      | Some its \<Rightarrow> group_loop items order (AList.update (it_subject it) (its @ [it]) by))"

definition groupBySubject :: "item list \<Rightarrow> string list \<times> (string \<times> item list) list" where
  "groupBySubject items = group_loop items [] []"

definition batches :: "item list \<Rightarrow> (string \<times> item list) list" where
  "batches items =
     (case items of
        [it] \<Rightarrow> [(it_subject it, [it])]
      | _ \<Rightarrow> (case groupBySubject items of
                (order, by) \<Rightarrow> map (\<lambda>subject. (subject, the (map_of by subject))) order))"

text \<open>What \<open>send\<close> publishes for a batch: the envelope of its bodies, when it can be encoded and the bus
  takes it; otherwise the batch is gone, with a line in the log.\<close>

record envelope =
  env_v :: int
  env_kind :: string
  env_items :: "string list"

definition pack :: "item list \<Rightarrow> envelope" where
  "pack items = \<lparr>env_v = 1, env_kind = ''batch'', env_items = map it_body items\<rparr>"

definition sink_send ::
  "(envelope \<Rightarrow> string option) \<Rightarrow> (string \<Rightarrow> string \<Rightarrow> bool) \<Rightarrow> string \<times> item list \<Rightarrow> (string \<times> string) option" where
  "sink_send json bus b =
     (case json (pack (snd b)) of
        None \<Rightarrow> None
      | Some body \<Rightarrow> if bus (fst b) body then Some (fst b, body) else None)"

section \<open>The loop and its callers\<close>

text \<open>\<open>Idle\<close>: in the \<open>select\<close>; \<open>Flush\<close>: at the head of a round; \<open>Publish\<close>: with the items of a round
  in hand; the flag says whether the loop returns after this flush.\<close>

datatype sink_thread = Idle | Flush bool | Publish "item list" bool | Stopped

record sink_system =
  ss_sink :: sink
  ss_thread :: sink_thread
  ss_stop :: bool
  ss_added :: "item list"
  ss_cut :: "item list"
  ss_sent :: "(string \<times> item list) list"
  ss_lost :: "(string \<times> item list) list"

definition sink_init :: sink_system where
  "sink_init = \<lparr>ss_sink = NewSink, ss_thread = Idle, ss_stop = False, ss_added = [], ss_cut = [], ss_sent = [],
     ss_lost = []\<rparr>"

definition cut_off :: "item \<Rightarrow> sink \<Rightarrow> item list" where
  "cut_off it s = take (Suc (length (sk_pending s)) - maxPending) (sk_pending s @ [it])"

definition sink_Close :: "sink_system \<Rightarrow> sink_system" where
  [simp]: "sink_Close y = y\<lparr>ss_stop := True\<rparr>"

inductive sink_step :: "sink_system \<Rightarrow> sink_system \<Rightarrow> bool" where
  add: "sink_step y (y\<lparr>ss_sink := add_item it (ss_sink y), ss_added := ss_added y @ [it],
      ss_cut := ss_cut y @ cut_off it (ss_sink y)\<rparr>)"
| woken: "ss_thread y = Idle \<Longrightarrow> sk_wake (ss_sink y) \<Longrightarrow>
    sink_step y (y\<lparr>ss_sink := (ss_sink y)\<lparr>sk_wake := False\<rparr>, ss_thread := Flush False\<rparr>)"
| ticked: "ss_thread y = Idle \<Longrightarrow> sink_step y (y\<lparr>ss_thread := Flush False\<rparr>)"
| stopped: "ss_thread y = Idle \<Longrightarrow> ss_stop y \<Longrightarrow> sink_step y (y\<lparr>ss_thread := Flush True\<rparr>)"
| round: "ss_thread y = Flush b \<Longrightarrow> sk_pending (ss_sink y) \<noteq> [] \<Longrightarrow> flush_round (ss_sink y) = (items, s') \<Longrightarrow>
    sink_step y (y\<lparr>ss_sink := s', ss_thread := Publish items b\<rparr>)"
| flushed: "ss_thread y = Flush b \<Longrightarrow> sk_pending (ss_sink y) = [] \<Longrightarrow>
    sink_step y (y\<lparr>ss_thread := (if b then Stopped else Idle)\<rparr>)"
| publish: "ss_thread y = Publish items b \<Longrightarrow> taken = (\<lambda>bt. sink_send json bus bt \<noteq> None) \<Longrightarrow>
    sink_step y (y\<lparr>ss_thread := Flush b, ss_sent := ss_sent y @ filter taken (batches items),
      ss_lost := ss_lost y @ filter (\<lambda>bt. \<not> taken bt) (batches items)\<rparr>)"
| close: "sink_step y (sink_Close y)"

inductive sink_reachable :: "sink_system \<Rightarrow> bool" where
  start: "sink_reachable sink_init"
| further: "sink_reachable y \<Longrightarrow> sink_step y y' \<Longrightarrow> sink_reachable y'"

end
