(* ===== verification/Audit_Claims.thy ===== *)
theory Audit_Claims
  imports Audit_Sink "HOL-Library.Sublist"
begin

text \<open>
  The properties of the audit sink: the batches of a round are its items grouped by subject, and no
  event is lost or doubled on the way, for every interleaving of \<open>Add\<close>, \<open>Close\<close> and the loop.
\<close>

section \<open>Grouping\<close>

definition of_subject :: "string \<Rightarrow> item list \<Rightarrow> item list" where
  "of_subject s items = filter (\<lambda>it. it_subject it = s) items"

lemma of_subject_append [simp]: "of_subject s (xs @ ys) = of_subject s xs @ of_subject s ys"
  by (simp add: of_subject_def)

lemma of_subject_Nil [simp]: "of_subject s [] = []"
  by (simp add: of_subject_def)

lemma of_subject_none: "s \<notin> it_subject ` set items \<Longrightarrow> of_subject s items = []"
  by (force simp: of_subject_def filter_empty_conv)

definition grouped :: "item list \<Rightarrow> string list \<Rightarrow> (string \<times> item list) list \<Rightarrow> bool" where
  "grouped items order grp \<longleftrightarrow>
     distinct order \<and> set order = it_subject ` set items \<and>
     (\<forall>s. map_of grp s = (if s \<in> set order then Some (of_subject s items) else None))"

lemma group_loop_grouped:
  "grouped done order grp \<Longrightarrow> group_loop items order grp = (order', grp') \<Longrightarrow> grouped (done @ items) order' grp'"
proof (induction items order grp arbitrary: "done" rule: group_loop.induct)
  case (2 it items order grp)
  show ?case
  proof (cases "map_of grp (it_subject it)")
    case None
    then have new: "it_subject it \<notin> set order" using "2.prems"(1) by (auto simp: grouped_def split: if_splits)
    then have "of_subject (it_subject it) done = []"
      using "2.prems"(1) by (intro of_subject_none) (simp add: grouped_def)
    then have "grouped (done @ [it]) (order @ [it_subject it]) (AList.update (it_subject it) [it] grp)"
      using "2.prems"(1) new by (auto simp: grouped_def update_conv' of_subject_def)
    from "2.IH"(1) [OF None this] "2.prems"(2) None show ?thesis by simp
  next
    case (Some its)
    then have "it_subject it \<in> set order" "its = of_subject (it_subject it) done"
      using "2.prems"(1) by (auto simp: grouped_def split: if_splits)
    then have "grouped (done @ [it]) order (AList.update (it_subject it) (its @ [it]) grp)"
      using "2.prems"(1) by (auto simp: grouped_def update_conv' of_subject_def)
    from "2.IH"(2) [OF Some this] "2.prems"(2) Some show ?thesis by simp
  qed
qed simp

lemma groupBySubject_grouped: "groupBySubject items = (order, grp) \<Longrightarrow> grouped items order grp"
  using group_loop_grouped [of "[]" "[]" "[]" items] by (simp add: groupBySubject_def grouped_def)

lemma batches_form:
  obtains order where "distinct order" and "set order = it_subject ` set items"
    and "batches items = map (\<lambda>s. (s, of_subject s items)) order"
proof (cases "\<exists>it. items = [it]")
  case True
  then obtain it where "items = [it]" by blast
  then show thesis using that [of "[it_subject it]"] by (simp add: batches_def of_subject_def)
next
  case False
  obtain order grp where g: "groupBySubject items = (order, grp)" by (cases "groupBySubject items")
  then have gr: "grouped items order grp" by (rule groupBySubject_grouped)
  have "batches items = map (\<lambda>s. (s, the (map_of grp s))) order"
    using False g by (auto simp: batches_def split: list.splits)
  also have "\<dots> = map (\<lambda>s. (s, of_subject s items)) order"
    using gr by (simp add: grouped_def)
  finally show thesis using that [of order] gr by (simp add: grouped_def)
qed

lemma of_subject_batches: "of_subject s (concat (map snd (batches items))) = of_subject s items"
proof -
  obtain order where o: "distinct order" "set order = it_subject ` set items"
    and b: "batches items = map (\<lambda>s. (s, of_subject s items)) order" by (rule batches_form)
  have nest: "of_subject s (of_subject t items) = (if s = t then of_subject s items else [])" for t
    by (auto simp: of_subject_def filter_empty_conv)
  have "distinct ord \<Longrightarrow> of_subject s (concat (map (\<lambda>t. of_subject t items) ord)) =
      (if s \<in> set ord then of_subject s items else [])" for ord
    by (induction ord) (auto simp: nest)
  from this [OF o(1)] show ?thesis
    using o(2) b of_subject_none [of s items] by (auto simp: o_def)
qed

lemma count_of_subject: "count (mset xs) x = count (mset (of_subject (it_subject x) xs)) x"
  by (induction xs) (auto simp: of_subject_def)

lemma mset_batches: "mset (concat (map snd (batches items))) = mset items"
  by (rule multiset_eqI) (metis count_of_subject of_subject_batches)

section \<open>The invariant of the sink\<close>

lemma sizeOf_append: "sizeOf (xs @ [it]) = sizeOf xs + length (it_body it) + 2"
  by (simp add: sizeOf_def)

definition in_hand :: "sink_thread \<Rightarrow> item list" where
  "in_hand th = (case th of Publish items _ \<Rightarrow> items | _ \<Rightarrow> [])"

definition flat_sent :: "sink_system \<Rightarrow> item list" where
  "flat_sent y = concat (map snd (ss_sent y))"

definition flat_lost :: "sink_system \<Rightarrow> item list" where
  "flat_lost y = concat (map snd (ss_lost y))"

lemma mset_split_batches:
  "mset (concat (map snd (filter P bs))) + mset (concat (map snd (filter (\<lambda>b. \<not> P b) bs))) = mset (concat (map snd bs))"
  by (induction bs) (simp_all add: ac_simps)

lemma subseq_kept_batches:
  "subseq (of_subject s (concat (map snd (filter P bs)))) (of_subject s (concat (map snd bs)))"
  by (induction bs) (auto intro: list_emb_append_mono list_emb_append2)

definition good_batch :: "string \<times> item list \<Rightarrow> bool" where
  "good_batch b \<longleftrightarrow> snd b \<noteq> [] \<and> length (snd b) \<le> maxItems \<and> (\<forall>it \<in> set (snd b). it_subject it = fst b)"

definition kept :: "sink_system \<Rightarrow> string \<Rightarrow> item list" where
  "kept y s = of_subject s (flat_sent y) @ of_subject s (in_hand (ss_thread y)) @ of_subject s (sk_pending (ss_sink y))"

definition sink_ok :: "sink \<Rightarrow> bool" where
  "sink_ok s \<longleftrightarrow> sk_size s = sizeOf (sk_pending s) \<and> length (sk_pending s) \<le> maxPending"

definition sink_inv :: "sink_system \<Rightarrow> bool" where
  "sink_inv y \<longleftrightarrow> sink_ok (ss_sink y) \<and>
     sk_dropped (ss_sink y) = word_of_nat (length (ss_cut y)) \<and>
     mset (ss_added y) = mset (ss_cut y) + mset (flat_sent y) + mset (flat_lost y) + mset (in_hand (ss_thread y)) +
       mset (sk_pending (ss_sink y)) \<and>
     (\<forall>s. subseq (kept y s) (of_subject s (ss_added y))) \<and>
     length (in_hand (ss_thread y)) \<le> maxItems \<and> (\<forall>b \<in> set (ss_sent y @ ss_lost y). good_batch b) \<and>
     (ss_thread y = Idle \<and> \<not> sk_wake (ss_sink y) \<longrightarrow>
        length (sk_pending (ss_sink y)) < maxItems \<and> sk_size (ss_sink y) < maxSize)"

lemma add_item_facts:
  assumes "sink_ok s"
  shows "sink_ok (add_item it s)"
    and "sk_pending s @ [it] = cut_off it s @ sk_pending (add_item it s)"
    and "sk_dropped (add_item it s) = sk_dropped s + word_of_nat (length (cut_off it s))"
    and "\<not> sk_wake (add_item it s) \<Longrightarrow> \<not> sk_wake s \<and> length (sk_pending (add_item it s)) < maxItems \<and> sk_size (add_item it s) < maxSize"
proof -
  have le: "length (sk_pending s) \<le> maxPending" and sz: "sk_size s = sizeOf (sk_pending s)"
    using assms by (simp_all add: sink_ok_def)
  show "sink_ok (add_item it s)" using le sz by (simp add: add_item_def Let_def sink_ok_def sizeOf_append)
  show "sk_pending s @ [it] = cut_off it s @ sk_pending (add_item it s)"
    by (simp add: add_item_def Let_def cut_off_def del: take_append drop_append)
  show "sk_dropped (add_item it s) = sk_dropped s + word_of_nat (length (cut_off it s))"
    using le by (cases "length (sk_pending s) = maxPending") (auto simp: add_item_def Let_def cut_off_def)
  show "\<not> sk_wake s \<and> length (sk_pending (add_item it s)) < maxItems \<and> sk_size (add_item it s) < maxSize"
    if "\<not> sk_wake (add_item it s)"
    using that by (auto simp: add_item_def Let_def split: if_splits)
qed

lemma sink_inv_published:
  assumes "sink_inv y" and "ss_thread y = Publish items b" and "\<forall>x \<in> set bs. good_batch x"
    and "mset (concat (map snd (filter P bs))) + mset (concat (map snd (filter (\<lambda>bt. \<not> P bt) bs))) = mset items"
    and "\<And>s. subseq (of_subject s (concat (map snd (filter P bs)))) (of_subject s items)"
  shows "sink_inv (y\<lparr>ss_thread := Flush b, ss_sent := ss_sent y @ filter P bs,
    ss_lost := ss_lost y @ filter (\<lambda>bt. \<not> P bt) bs\<rparr>)"
proof -
  let ?y = "y\<lparr>ss_thread := Flush b, ss_sent := ss_sent y @ filter P bs, ss_lost := ss_lost y @ filter (\<lambda>bt. \<not> P bt) bs\<rparr>"
  have "subseq (kept ?y s) (of_subject s (ss_added y))" for s
  proof -
    have "subseq (kept ?y s) (kept y s)"
      using assms(2) assms(5) [of s]
      by (simp add: kept_def flat_sent_def in_hand_def subseq_append' list_emb_append_mono)
    also have "subseq (kept y s) (of_subject s (ss_added y))" using assms(1) by (simp add: sink_inv_def)
    finally show ?thesis .
  qed
  moreover have "mset (flat_sent ?y) + mset (flat_lost ?y) = mset (flat_sent y) + mset (flat_lost y) + mset items"
    using assms(4) by (simp add: flat_sent_def flat_lost_def ac_simps)
  ultimately show ?thesis using assms(1-3) by (auto simp: sink_inv_def in_hand_def ac_simps)
qed

lemma sink_inv_step:
  assumes "sink_step y y'" and "sink_inv y"
  shows "sink_inv y'"
  using assms
proof (induction rule: sink_step.induct)
  case (add y it)
  let ?s = "ss_sink y"
  have ok: "sink_ok ?s" using add by (simp add: sink_inv_def)
  note f = add_item_facts [OF ok, of it]
  have eq: "mset (sk_pending ?s) + {#it#} = mset (cut_off it ?s) + mset (sk_pending (add_item it ?s))"
    using arg_cong [OF f(2), of mset] by simp
  have sub: "subseq (of_subject s (sk_pending (add_item it ?s))) (of_subject s (sk_pending ?s @ [it]))" for s
    unfolding f(2) by (simp add: list_emb_append2)
  have "subseq (kept y s) (of_subject s (ss_added y))" for s using add by (simp add: sink_inv_def)
  then have "subseq (kept (y\<lparr>ss_sink := add_item it ?s, ss_added := ss_added y @ [it],
      ss_cut := ss_cut y @ cut_off it ?s\<rparr>) s) (of_subject s (ss_added y @ [it]))" for s
  proof -
    let ?pre = "of_subject s (flat_sent y) @ of_subject s (in_hand (ss_thread y))"
    have "subseq (?pre @ of_subject s (sk_pending (add_item it ?s))) (?pre @ of_subject s (sk_pending ?s @ [it]))"
      using sub by (rule subseq_append' [THEN iffD2])
    also have "?pre @ of_subject s (sk_pending ?s @ [it]) = kept y s @ of_subject s [it]" by (simp add: kept_def)
    also have "subseq (kept y s @ of_subject s [it]) (of_subject s (ss_added y) @ of_subject s [it])"
      using \<open>subseq (kept y s) (of_subject s (ss_added y))\<close> by simp
    finally show ?thesis by (simp add: kept_def flat_sent_def)
  qed
  then show ?case using add f eq
    by (auto simp: sink_inv_def flat_sent_def flat_lost_def ac_simps add_mset_commute)
next
  case (round y b items s')
  have "length items \<le> maxItems" "sk_pending (ss_sink y) = items @ sk_pending s'" "sink_ok s'"
    "sk_dropped s' = sk_dropped (ss_sink y)"
    using round by (auto simp: flush_round_def Let_def sink_ok_def sink_inv_def)
  then show ?case using round by (simp add: sink_inv_def kept_def flat_sent_def flat_lost_def in_hand_def)
next
  case (publish y items b taken json bus)
  obtain order where o: "set order = it_subject ` set items"
    and bt: "batches items = map (\<lambda>s. (s, of_subject s items)) order" by (rule batches_form)
  have "length (of_subject s items) \<le> length items" for s by (simp add: of_subject_def)
  moreover have "length items \<le> maxItems" using publish by (simp add: sink_inv_def in_hand_def)
  ultimately have "length (of_subject s items) \<le> maxItems" for s using order.trans by blast
  then have "\<forall>x \<in> set (batches items). good_batch x"
    using o by (auto simp: bt good_batch_def) (auto simp: of_subject_def filter_empty_conv)
  moreover have "mset (concat (map snd (filter taken (batches items)))) +
      mset (concat (map snd (filter (\<lambda>bt. \<not> taken bt) (batches items)))) = mset items"
    by (simp only: mset_split_batches mset_batches)
  moreover have "subseq (of_subject s (concat (map snd (filter taken (batches items))))) (of_subject s items)" for s
    using subseq_kept_batches [of s taken "batches items"] by (simp only: of_subject_batches)
  ultimately show ?case using publish sink_inv_published by blast
qed (auto simp: sink_inv_def sink_ok_def kept_def flat_sent_def flat_lost_def in_hand_def sizeOf_def)

lemma sink_inv_reachable: "sink_reachable y \<Longrightarrow> sink_inv y"
proof (induction rule: sink_reachable.induct)
  case start
  show ?case
    by (simp add: sink_inv_def sink_init_def NewSink_def sink_ok_def kept_def flat_sent_def flat_lost_def in_hand_def sizeOf_def
        of_subject_def)
qed (rule sink_inv_step)

section \<open>Properties\<close>

text \<open>An event on its way: added, woken for, and taken by a round.\<close>

definition sample_item :: item where
  "sample_item = \<lparr>it_subject = ''waf.audit.a'', it_body = ''{}''\<rparr>"

lemma add_step:
  "sink_reachable y \<Longrightarrow> sink_reachable (y\<lparr>ss_sink := add_item it (ss_sink y), ss_added := ss_added y @ [it],
      ss_cut := ss_cut y @ cut_off it (ss_sink y)\<rparr>)"
  using sink_reachable.further sink_step.add by blast

text \<open>A tick, one round, and what \<open>send\<close> makes of its batches.\<close>

lemma round_run:
  assumes "sink_reachable y" and "ss_thread y = Idle" and "sk_pending (ss_sink y) = [it]"
    and "taken = (\<lambda>bt. sink_send json bus bt \<noteq> None)"
  shows "sink_reachable (y\<lparr>ss_sink := snd (flush_round (ss_sink y)),
    ss_sent := ss_sent y @ filter taken (batches [it]), ss_lost := ss_lost y @ filter (\<lambda>bt. \<not> taken bt) (batches [it]),
    ss_thread := Idle\<rparr>)"
proof -
  let ?s = "snd (flush_round (ss_sink y))"
  let ?p = "y\<lparr>ss_sink := ?s, ss_thread := Publish [it] False\<rparr>"
  let ?f = "?p\<lparr>ss_thread := Flush False, ss_sent := ss_sent y @ filter taken (batches [it]),
      ss_lost := ss_lost y @ filter (\<lambda>bt. \<not> taken bt) (batches [it])\<rparr>"
  have fl: "flush_round (ss_sink y) = ([it], ?s)" "sk_pending ?s = []" using assms(3) by (simp_all add: flush_round_def Let_def)
  have 1: "sink_reachable (y\<lparr>ss_thread := Flush False\<rparr>)"
    using assms(1,2) sink_reachable.further sink_step.ticked by blast
  have "sink_step (y\<lparr>ss_thread := Flush False\<rparr>) ((y\<lparr>ss_thread := Flush False\<rparr>)\<lparr>ss_sink := ?s, ss_thread := Publish [it] False\<rparr>)"
    by (rule sink_step.round) (use assms(3) fl(1) in simp_all)
  from sink_reachable.further [OF 1 this] have 2: "sink_reachable ?p" by simp
  have "sink_step ?p (?p\<lparr>ss_thread := Flush False, ss_sent := ss_sent ?p @ filter taken (batches [it]),
      ss_lost := ss_lost ?p @ filter (\<lambda>bt. \<not> taken bt) (batches [it])\<rparr>)"
    by (rule sink_step.publish [OF _ assms(4)]) simp
  from sink_reachable.further [OF 2 this] have 3: "sink_reachable ?f" by simp
  have "sink_step ?f (?f\<lparr>ss_thread := (if False then Stopped else Idle)\<rparr>)"
    by (rule sink_step.flushed) (use fl(2) in simp_all)
  from sink_reachable.further [OF 3 this] show ?thesis by simp
qed

abbreviation sample_sent :: "(string \<Rightarrow> string \<Rightarrow> bool) \<Rightarrow> string \<times> item list \<Rightarrow> bool" where
  "sample_sent bus bt \<equiv> sink_send (\<lambda>_. Some ''{}'') bus bt \<noteq> None"

lemma sample_run:
  "\<exists>y. sink_reachable y \<and> ss_added y = [sample_item, sample_item] \<and> ss_cut y = [] \<and>
     ss_sent y = [(''waf.audit.a'', [sample_item])] \<and> ss_thread y = Idle \<and> sk_pending (ss_sink y) = []"
proof -
  have step: "\<exists>y'. sink_reachable y' \<and> ss_thread y' = Idle \<and> sk_pending (ss_sink y') = [] \<and>
      ss_added y' = ss_added y @ [sample_item] \<and> ss_cut y' = ss_cut y \<and>
      ss_sent y' = ss_sent y @ filter (sample_sent bus) (batches [sample_item])"
    if "sink_reachable y" "ss_thread y = Idle" "sk_pending (ss_sink y) = []" for y bus
  proof -
    have "sk_pending (add_item sample_item (ss_sink y)) = [sample_item]" "cut_off sample_item (ss_sink y) = []"
      using that(3) by (simp_all add: add_item_def cut_off_def Let_def)
    with round_run [OF add_step [OF that(1), of sample_item] _ _ refl, of sample_item "\<lambda>_. Some ''{}''" bus] that(2)
    show ?thesis by (intro exI conjI) (assumption | simp add: flush_round_def Let_def)+
  qed
  have b: "batches [sample_item] = [(''waf.audit.a'', [sample_item])]" by (simp add: batches_def sample_item_def)
  obtain y where y: "sink_reachable y" "ss_thread y = Idle" "sk_pending (ss_sink y) = []" "ss_added y = [sample_item]"
    "ss_cut y = []" "ss_sent y = [(''waf.audit.a'', [sample_item])]"
    using step [OF sink_reachable.start, of "\<lambda>_ _. True"]
    by (auto simp: sink_init_def NewSink_def b sink_send_def)
  show ?thesis using step [OF y(1-3), of "\<lambda>_ _. False"] y(4-6) by (auto simp: b sink_send_def)
qed

text \<open>C14: every audit event is accounted for: in every reachable state each added event is in exactly
  one place, and there once: it was cut off the front of a full queue and counted as dropped, or
  published, or in a batch whose publication failed and was logged, or in the hands of the loop, or it
  waits in the queue (for ever, when it was added after the loop had stopped, see \<open>shutdown_loses\<close>).
  What remains of the events of one subject keeps its order, every batch is of one subject and holds
  between 1 and 256 events, the queue stays bounded, and an idle loop that was not woken has less than
  a batch to send.\<close>

theorem sink_conserves:
  assumes "sink_reachable y"
  shows "mset (ss_added y) = mset (ss_cut y) + mset (concat (map snd (ss_sent y))) + mset (concat (map snd (ss_lost y))) +
      mset (in_hand (ss_thread y)) + mset (sk_pending (ss_sink y)) \<and>
    sk_dropped (ss_sink y) = word_of_nat (length (ss_cut y)) \<and>
    subseq (of_subject s (concat (map snd (ss_sent y)) @ in_hand (ss_thread y) @ sk_pending (ss_sink y)))
      (of_subject s (ss_added y)) \<and>
    list_all (\<lambda>b. snd b \<noteq> [] \<and> length (snd b) \<le> maxItems \<and> of_subject (fst b) (snd b) = snd b) (ss_sent y @ ss_lost y) \<and>
    length (sk_pending (ss_sink y)) \<le> maxPending \<and> sk_size (ss_sink y) = sizeOf (sk_pending (ss_sink y)) \<and>
    (ss_thread y \<noteq> Idle \<or> sk_wake (ss_sink y) \<or> length (sk_pending (ss_sink y)) < maxItems)"
proof -
  have inv: "sink_inv y" by (rule sink_inv_reachable [OF assms])
  have "subseq (kept y s) (of_subject s (ss_added y))" using inv by (simp add: sink_inv_def)
  then have sub: "subseq (of_subject s (concat (map snd (ss_sent y)) @ in_hand (ss_thread y) @ sk_pending (ss_sink y)))
      (of_subject s (ss_added y))"
    by (simp add: kept_def flat_sent_def)
  have "\<forall>b \<in> set (ss_sent y @ ss_lost y). good_batch b" using inv by (simp add: sink_inv_def)
  then have "list_all (\<lambda>b. snd b \<noteq> [] \<and> length (snd b) \<le> maxItems \<and> of_subject (fst b) (snd b) = snd b) (ss_sent y @ ss_lost y)"
    by (auto simp: list_all_iff good_batch_def of_subject_def)
  with sub inv show ?thesis by (auto simp: sink_inv_def sink_ok_def flat_sent_def flat_lost_def)
qed

text \<open>One event is published, the next is in a batch the bus refuses.\<close>

theorem sink_conserves_witness:
  "\<exists>y. sink_reachable y \<and> ss_added y = [sample_item, sample_item] \<and>
     ss_sent y = [(''waf.audit.a'', [sample_item])] \<and> mset (concat (map snd (ss_lost y))) = {#sample_item#}"
proof -
  obtain y where y: "sink_reachable y" "ss_added y = [sample_item, sample_item]" "ss_cut y = []"
    "ss_sent y = [(''waf.audit.a'', [sample_item])]" "ss_thread y = Idle" "sk_pending (ss_sink y) = []"
    using sample_run by blast
  from sink_conserves [OF y(1)] y(2-6)
  have "mset (concat (map snd (ss_lost y))) = {#sample_item#}" by (simp add: in_hand_def)
  then show ?thesis using y by blast
qed

text \<open>Who reads the published messages of a subject gets the bodies of its published events, in the
  order in which they were added, given an encoder that encodes and its decoder.\<close>

theorem published_events:
  assumes "sink_reachable y" and "\<And>e. \<exists>body. json e = Some body \<and> unjson body = Some e"
  shows "concat (map (\<lambda>m. env_items (the (unjson (snd m))))
      (filter (\<lambda>m. fst m = s) (List.map_filter (sink_send json (\<lambda>_ _. True)) (ss_sent y)))) =
    map it_body (of_subject s (concat (map snd (ss_sent y))))"
proof -
  have "concat (map (\<lambda>m. env_items (the (unjson (snd m))))
      (filter (\<lambda>m. fst m = s) (List.map_filter (sink_send json (\<lambda>_ _. True)) bs))) =
      map it_body (of_subject s (concat (map snd bs)))" if "\<forall>b \<in> set bs. good_batch b" for bs
    using that
  proof (induction bs)
    case (Cons b bs)
    obtain body where body: "json (pack (snd b)) = Some body" "unjson body = Some (pack (snd b))" using assms(2) by blast
    have "\<forall>it \<in> set (snd b). it_subject it = fst b" using Cons.prems by (simp add: good_batch_def)
    then have "of_subject s (snd b) = (if fst b = s then snd b else [])"
      by (auto simp: of_subject_def filter_id_conv filter_empty_conv)
    then show ?case using body Cons by (simp add: sink_send_def pack_def)
  qed simp
  then show ?thesis using sink_inv_reachable [OF assms(1)] by (simp add: sink_inv_def)
qed

text \<open>The batches of a round are its events grouped by subject: each subject once, with exactly
  its events in their order, and all of them together.\<close>

theorem batches_group:
  "distinct (map fst (batches items)) \<and> set (map fst (batches items)) = it_subject ` set items \<and>
   list_all (\<lambda>(s, its). its = of_subject s items) (batches items) \<and>
   mset (concat (map snd (batches items))) = mset items"
proof -
  obtain order where o: "distinct order" "set order = it_subject ` set items"
    and b: "batches items = map (\<lambda>s. (s, of_subject s items)) order" by (rule batches_form)
  then show ?thesis using mset_batches [of items] by (simp add: o_def list_all_iff)
qed

end
