(* ===== verification/Overload.thy ===== *)
theory Overload
  imports Go_Prelude
begin

text \<open>
  \<open>internal/overload\<close>: the trigger of a rule written \<open>on: overload\<close>, a percentage \<open>at\<close> of the
  queue from which the rule fires. A missing \<open>at\<close> (a nil pointer) stands for 100.
\<close>

definition On :: string where "On = ''overload''"

abbreviation AtMin :: int where "AtMin \<equiv> 25"
abbreviation AtMax :: int where "AtMax \<equiv> 100"

definition At :: "int option \<Rightarrow> int" where
  "At at = (case at of None \<Rightarrow> AtMax | Some n \<Rightarrow> n)"

text \<open>\<open>Check\<close> returns an error exactly when the value is out of range; the error carries it.\<close>

definition Check :: "int option \<Rightarrow> int option" where
  "Check at = (case at of None \<Rightarrow> None | Some n \<Rightarrow> if n < AtMin \<or> n > AtMax then Some n else None)"

definition Fires :: "int \<Rightarrow> int \<Rightarrow> bool \<Rightarrow> bool" where
  "Fires at fill shed = (if shed then True else at < AtMax \<and> fill \<ge> at)"

lemma Check_None: "Check at = None \<longleftrightarrow> AtMin \<le> At at \<and> At at \<le> AtMax"
  by (auto simp: Check_def At_def split: option.splits)

lemma Fires_mono: "Fires at fill shed \<Longrightarrow> fill \<le> fill' \<Longrightarrow> Fires at fill' shed"
  by (auto simp: Fires_def split: if_splits)

lemma Fires_shed [simp]: "Fires at fill True"
  by (simp add: Fires_def)

end
