(* ===== verification/Policy.thy ===== *)
theory Policy
  imports Evaluator Protocol Overload Go_Time
begin

text \<open>
  Profiles, \<open>internal/policy/policy.go\<close>: the rules of a profile, how they match a request and add
  up, and the loader that validates a profile. The YAML decoder is an argument of \<open>ParseProfile\<close>;
  it gives the \<open>file...\<close> records. The checks of an action are the blocks of \<open>parseAction\<close> in
  their order, each returning the error it would report.
\<close>

section \<open>Rules and profiles\<close>

abbreviation ModeEnforce :: string where "ModeEnforce \<equiv> ''enforce''"
abbreviation ModeOff :: string where "ModeOff \<equiv> ''off''"

abbreviation WriteAddr :: string where "WriteAddr \<equiv> ''addr''"
abbreviation WriteNet :: string where "WriteNet \<equiv> ''net''"
abbreviation WriteNetAll :: string where "WriteNetAll \<equiv> ''net_all''"
abbreviation WriteASN :: string where "WriteASN \<equiv> ''asn''"

definition DefaultWriteReason :: string where "DefaultWriteReason = ''ACTION_LIST''"

definition verbs :: "(string \<times> string list) list" where
  "verbs =
     [(''challenge'', [''request'']), (''threshold'', [''request'']), (''skip'', [''request'']),
      (''reauth'', [''session'']), (''note'', [''request'', ''ip'', ''asn'', ''session'']),
      (''mutate'', [''request'']), (''active'', [''request'', ''conn'']), (''passive'', [''request'', ''conn'']),
      (''off'', [''request'', ''conn'']), (''vote'', [''request'', ''conn'']),
      (''audit'', [''request'', ''response'']), (''archive'', [''request'', ''response'']),
      (''mark'', [''request'']), (''score'', [''request''])]"

definition auditVerb :: "string \<Rightarrow> bool" where
  "auditVerb d = (d = ''audit'' \<or> d = ''archive'')"

definition recordVerb :: "string \<Rightarrow> bool" where
  "recordVerb d = (auditVerb d \<or> d = ''mark'' \<or> d = ''score'')"

definition controlVerb :: "string \<Rightarrow> bool" where
  "controlVerb d = (d = ''active'' \<or> d = ''passive'' \<or> d = ''vote'' \<or> d = ''off'')"

definition codeRe :: "string \<Rightarrow> bool" where
  "codeRe s = name_re is_upper (\<lambda>c. is_upper c \<or> is_digit c \<or> c = CHR ''_'') 64 s"

definition counterRe :: "string \<Rightarrow> bool" where
  "counterRe s = name_re is_alnum var_char 64 s"

definition staticSuffixes :: "string list" where
  "staticSuffixes =
     [''.css'', ''.js'', ''.mjs'', ''.map'',
      ''.png'', ''.jpg'', ''.jpeg'', ''.gif'', ''.svg'', ''.ico'', ''.webp'', ''.avif'',
      ''.woff'', ''.woff2'', ''.ttf'', ''.eot'']"

record match =
  m_prefix :: string
  m_suffixes :: "string list"
  m_static :: bool
  m_methods :: "string list"

record list_write =
  w_list :: string
  w_subject :: string
  w_ttl :: duration
  w_reason :: string

record rule =
  r_name :: string
  r_match :: match
  r_cond :: string
  r_negate :: bool
  r_actions :: "action list"
  r_writes :: "list_write list"
  r_overload :: bool
  r_at :: int

record profile =
  p_name :: string
  p_mode :: string
  p_conditions :: conds
  p_rules :: "rule list"

definition sortedKeys :: "conds \<Rightarrow> string list" where
  "sortedKeys m = sort (map fst m)"

definition clauses_of :: "conds \<Rightarrow> string \<Rightarrow> clause list" where
  "clauses_of m name = (case map_of m name of None \<Rightarrow> [] | Some c \<Rightarrow> co_clauses c)"

text \<open>Append what was not seen yet; the list so far is the set \<open>seen\<close> of the code.\<close>

fun append_new :: "string list \<Rightarrow> string list \<Rightarrow> string list" where
  "append_new out [] = out"
| "append_new out (d # ds) = (if d \<in> set out then append_new out ds else append_new (out @ [d]) ds)"

definition Datasets :: "profile \<Rightarrow> string list" where
  "Datasets p =
     append_new [] (concat (map (\<lambda>name.
       map cl_dataset (filter (\<lambda>cl. cl_dataset cl \<noteq> [] \<and> \<not> cl_is_static cl) (clauses_of (p_conditions p) name)))
       (sortedKeys (p_conditions p))))"

section \<open>Matching and collecting\<close>

definition Matches :: "go_lib \<Rightarrow> match \<Rightarrow> string \<Rightarrow> string \<Rightarrow> bool" where
  "Matches L m method' uri =
     (if m_prefix m \<noteq> [] \<and> \<not> HasPrefix uri (m_prefix m) then False
      else if m_methods m \<noteq> [] \<and> \<not> list_ex (\<lambda>want. EqualFold L method' want) (m_methods m) then False
      else let suffixes = (if m_static m then m_suffixes m @ staticSuffixes else m_suffixes m)
      in if suffixes \<noteq> [] \<and> \<not> list_ex (\<lambda>s. HasSuffix (ToLower L uri) s) suffixes then False
         else True)"

text \<open>\<open>ev\<close> is nil for a profile without conditions; otherwise it comes with its environment. The
  depth given to \<open>Holds\<close> is always enough (\<open>Holds_total\<close>).\<close>

definition ask ::
  "('s eval_env \<times> 's evaluator) option \<Rightarrow> string \<Rightarrow> bool \<times> ('s eval_env \<times> 's evaluator) option" where
  "ask ev name =
     (case ev of
        None \<Rightarrow> (False, None)
      | Some (E, e) \<Rightarrow>
          (case Holds E name e of
             None \<Rightarrow> (False, Some (E, e))
           | Some (v, e') \<Rightarrow> (v, Some (E, e'))))"

definition rule_fires ::
  "go_lib \<Rightarrow> string \<Rightarrow> string \<Rightarrow> rule \<Rightarrow> ('s eval_env \<times> 's evaluator) option \<Rightarrow>
   bool \<times> ('s eval_env \<times> 's evaluator) option" where
  "rule_fires L method' uri r ev =
     (if r_overload r \<or> \<not> Matches L (r_match r) method' uri then (False, ev)
      else if r_cond r = [] then (True, ev)
      else case ask ev (r_cond r) of (holds, ev') \<Rightarrow> (holds \<noteq> r_negate r, ev'))"

type_synonym collected = "action list \<times> list_write list \<times> string list"

fun Collect_rules ::
  "go_lib \<Rightarrow> string \<Rightarrow> string \<Rightarrow> rule list \<Rightarrow> ('s eval_env \<times> 's evaluator) option \<Rightarrow> collected \<Rightarrow>
   collected \<times> ('s eval_env \<times> 's evaluator) option" where
  "Collect_rules L method' uri [] ev acc = (acc, ev)"
| "Collect_rules L method' uri (r # rs) ev (as, ws, ns) =
     (case rule_fires L method' uri r ev of
        (fires, ev') \<Rightarrow>
          Collect_rules L method' uri rs ev'
            (if fires then (as @ r_actions r, ws @ r_writes r, ns @ [r_name r]) else (as, ws, ns)))"

definition Collect ::
  "go_lib \<Rightarrow> profile \<Rightarrow> ('s eval_env \<times> 's evaluator) option \<Rightarrow> string \<Rightarrow> string \<Rightarrow>
   collected \<times> ('s eval_env \<times> 's evaluator) option" where
  "Collect L p ev method' uri = Collect_rules L method' uri (p_rules p) ev ([], [], [])"

fun Overload_rules :: "rule list \<Rightarrow> int \<Rightarrow> bool \<Rightarrow> collected \<Rightarrow> collected" where
  "Overload_rules [] fill shed acc = acc"
| "Overload_rules (r # rs) fill shed (as, ws, ns) =
     Overload_rules rs fill shed
       (if \<not> r_overload r \<or> \<not> Fires (r_at r) fill shed then (as, ws, ns)
        else (as @ r_actions r, ws @ r_writes r, ns @ [r_name r]))"

definition CollectOverload :: "profile \<Rightarrow> int \<Rightarrow> bool \<Rightarrow> collected" where
  "CollectOverload p fill shed = Overload_rules (p_rules p) fill shed ([], [], [])"

section \<open>The rows of a profile file\<close>

record fileAction =
  fa_to :: string
  fa_do :: string
  fa_apply :: string
  fa_phase :: string
  fa_code :: string
  fa_delta :: "int option"
  fa_value :: "int option"
  fa_counter :: string
  fa_group :: string
  fa_set :: string
  fa_marker :: string
  fa_ttl :: string
  fa_when :: "string list"
  fa_headers :: "object_spec option"
  fa_args :: "object_spec option"
  fa_body :: "object_spec option"
  fa_list :: string
  fa_write :: string

record fileMatch =
  fm_prefix :: string
  fm_suffixes :: "string list"
  fm_static :: bool
  fm_methods :: "string list"

record fileRule =
  fr_name :: string
  fr_match :: fileMatch
  fr_on :: string
  fr_at :: "int option"
  fr_if :: string
  fr_unless :: string
  fr_actions :: "fileAction list"

record fileProfile =
  fp_mode :: string
  fp_conditions :: "fileCondition list"
  fp_rules :: "fileRule list"

section \<open>TTLs and list writes\<close>

definition parseTTL :: "go_lib \<Rightarrow> string \<Rightarrow> duration option" where
  "parseTTL L raw0 =
     (let raw = TrimSpace raw0
      in if HasSuffix raw ''d'' then
           (case Atoi (TrimSuffix raw ''d'') of
              None \<Rightarrow> None
            | Some n \<Rightarrow> if n < 0 then None else Some (wrap64 (wrap64 (n * 24) * Hour)))
         else case ParseDuration L raw of
           None \<Rightarrow> None
         | Some d \<Rightarrow> if d < 0 then None else Some d)"

datatype write_err =
    NotDataset string | BadWrite string | WriteExtras | NoTTL | BadTTL | ShortTTL | BadReason string

definition write_extras :: "fileAction \<Rightarrow> bool" where
  "write_extras fa =
     (TrimSpace (fa_do fa) \<noteq> [] \<or> TrimSpace (fa_to fa) \<noteq> [] \<or> TrimSpace (fa_apply fa) \<noteq> [] \<or>
      TrimSpace (fa_phase fa) \<noteq> [] \<or> fa_delta fa \<noteq> None \<or> fa_value fa \<noteq> None \<or>
      TrimSpace (fa_counter fa) \<noteq> [] \<or> TrimSpace (fa_group fa) \<noteq> [] \<or> TrimSpace (fa_set fa) \<noteq> [] \<or>
      TrimSpace (fa_marker fa) \<noteq> [] \<or> fa_when fa \<noteq> [] \<or>
      fa_headers fa \<noteq> None \<or> fa_args fa \<noteq> None \<or> fa_body fa \<noteq> None)"

definition parseWrite :: "go_lib \<Rightarrow> fileAction \<Rightarrow> (write_err, list_write) outcome" where
  "parseWrite L fa =
     (let lst = TrimSpace (fa_list fa); sub0 = TrimSpace (fa_write fa);
          sub = (if sub0 = [] then WriteAddr else sub0); reason = TrimSpace (fa_code fa)
      in if \<not> counterRe lst then Err (NotDataset lst)
         else if sub \<noteq> WriteAddr \<and> sub \<noteq> WriteNet \<and> sub \<noteq> WriteNetAll \<and> sub \<noteq> WriteASN
           then Err (BadWrite sub)
         else if write_extras fa then Err WriteExtras
         else if TrimSpace (fa_ttl fa) = [] then Err NoTTL
         else case parseTTL L (fa_ttl fa) of
           None \<Rightarrow> Err BadTTL
         | Some ttl \<Rightarrow>
             if ttl < Second then Err ShortTTL
             else if reason = []
               then Ok \<lparr>w_list = lst, w_subject = sub, w_ttl = ttl, w_reason = DefaultWriteReason\<rparr>
             else if \<not> codeRe reason then Err (BadReason reason)
             else Ok \<lparr>w_list = lst, w_subject = sub, w_ttl = ttl, w_reason = reason\<rparr>)"

section \<open>Actions\<close>

datatype action_err =
    WriteOnly | BadActTTL | BadWhen when_err | NoTo | UnknownDo string | BadAxis string string
  | PhaseOnlyControl | PhaseUnknown string | ConnNeedsFrame | BadCode string
  | NoDelta | DeltaRange int | DeltaOnly
  | NoScoreValue | ScoreRange int | ScoreTo | CounterOnly | NoteRange int | BadCounter string | ValueOnly
  | NoGroup | BadGroup string | BadMutateSet string | GroupOnly
  | MarkTo | BadMarker marker_err | MarkerOnly
  | AuditTo | BadAuditSet string | SetOnOnly | ArchiveOnly | ArgsResponse | BadSpec string spec_err | AuditOnly

definition or_else :: "'e option \<Rightarrow> 'e option \<Rightarrow> 'e option" where
  "or_else a b = (case a of Some e \<Rightarrow> Some e | None \<Rightarrow> b)"

lemma or_else_None [simp]: "or_else a b = None \<longleftrightarrow> a = None \<and> b = None"
  by (cases a) (auto simp: or_else_def)

definition checkPhaseAsk :: "string \<Rightarrow> string \<Rightarrow> string \<Rightarrow> action_err option" where
  "checkPhaseAsk d phase apply' =
     (if phase = [] then None
      else if \<not> controlVerb d then Some PhaseOnlyControl
      else if phase \<noteq> PhaseRequest \<and> phase \<noteq> PhaseResponse \<and> phase \<noteq> PhaseFrame then Some (PhaseUnknown phase)
      else if apply' = ''conn'' \<and> phase \<noteq> PhaseFrame then Some ConnNeedsFrame
      else None)"

definition check_delta :: "action \<Rightarrow> action_err option" where
  "check_delta a =
     (if act_do a = ''threshold'' then
        (case act_delta a of
           None \<Rightarrow> Some NoDelta
         | Some d \<Rightarrow> if d < -100 \<or> d > 900 then Some (DeltaRange d) else None)
      else if act_delta a \<noteq> None then Some DeltaOnly else None)"

definition check_value :: "action \<Rightarrow> action_err option" where
  "check_value a =
     (if act_do a = ''score'' then
        (case act_value a of
           None \<Rightarrow> Some NoScoreValue
         | Some v \<Rightarrow>
             if v = 0 then Some NoScoreValue
             else if v < -100 \<or> v > 100 then Some (ScoreRange v)
             else if act_to a \<noteq> [] \<and> act_to a \<noteq> ''*'' then Some ScoreTo
             else if act_counter a \<noteq> [] then Some CounterOnly
             else None)
      else if act_do a = ''note'' then
        (case act_value a of
           Some v \<Rightarrow> if v < -100 \<or> v > 100 then Some (NoteRange v)
             else if act_counter a \<noteq> [] \<and> \<not> counterRe (act_counter a) then Some (BadCounter (act_counter a))
             else None
         | None \<Rightarrow> if act_counter a \<noteq> [] \<and> \<not> counterRe (act_counter a)
             then Some (BadCounter (act_counter a)) else None)
      else if act_value a \<noteq> None then Some ValueOnly
      else if act_counter a \<noteq> [] then Some CounterOnly
      else None)"

definition check_mutate :: "action \<Rightarrow> action_err option" where
  "check_mutate a =
     (if act_do a = ''mutate'' then
        (if act_group a = [] then Some NoGroup
         else if \<not> counterRe (act_group a) then Some (BadGroup (act_group a))
         else if act_set a \<noteq> ''on'' \<and> act_set a \<noteq> ''off'' then Some (BadMutateSet (act_set a))
         else None)
      else if act_group a \<noteq> [] \<or> (act_set a \<noteq> [] \<and> \<not> auditVerb (act_do a)) then Some GroupOnly
      else None)"

definition check_mark :: "action \<Rightarrow> action_err option" where
  "check_mark a =
     (if act_do a = ''mark'' then
        (if act_to a \<noteq> [] \<and> act_to a \<noteq> ''*'' then Some MarkTo
         else map_option BadMarker (CheckMarker (act_marker a)))
      else if act_marker a \<noteq> [] then Some MarkerOnly
      else None)"

definition ttl_or_zero :: "action \<Rightarrow> int" where
  "ttl_or_zero a = (case act_ttl a of None \<Rightarrow> 0 | Some t \<Rightarrow> t)"

definition has_objects :: "action \<Rightarrow> bool" where
  "has_objects a = (act_headers a \<noteq> None \<or> act_args a \<noteq> None \<or> act_body a \<noteq> None)"

definition check_audit :: "action \<Rightarrow> action_err option" where
  "check_audit a =
     (if \<not> auditVerb (act_do a) then None
      else if act_to a \<noteq> [] \<and> act_to a \<noteq> ''*'' then Some AuditTo
      else if act_set a \<noteq> ''on'' \<and> act_set a \<noteq> ''off'' then Some (BadAuditSet (act_set a))
      else if act_set a = ''off'' \<and> (ttl_or_zero a \<noteq> 0 \<or> act_when a \<noteq> [] \<or> has_objects a) then Some SetOnOnly
      else if act_do a = ''audit'' \<and> (ttl_or_zero a \<noteq> 0 \<or> act_when a \<noteq> []) then Some ArchiveOnly
      else if act_apply a = ''response'' \<and> act_args a \<noteq> None then Some ArgsResponse
      else or_else (map_option (BadSpec ''headers'') (CheckObjectSpec (act_headers a)))
             (or_else (map_option (BadSpec ''args'') (CheckObjectSpec (act_args a)))
               (map_option (BadSpec ''body'') (CheckObjectSpec (act_body a)))))"

definition check_not_audit :: "action \<Rightarrow> action_err option" where
  "check_not_audit a =
     (if \<not> auditVerb (act_do a) \<and> (act_ttl a \<noteq> None \<or> act_when a \<noteq> [] \<or> has_objects a)
      then Some AuditOnly else None)"

definition trunc_div :: "int \<Rightarrow> int \<Rightarrow> int" where
  "trunc_div a b = (if a \<ge> 0 then a div b else - ((- a) div b))"

definition action_of :: "fileAction \<Rightarrow> int option \<Rightarrow> string list \<Rightarrow> action" where
  "action_of fa ttl when' =
     \<lparr>act_to = TrimSpace (fa_to fa), act_do = TrimSpace (fa_do fa), act_apply = TrimSpace (fa_apply fa),
      act_phase = TrimSpace (fa_phase fa), act_code = TrimSpace (fa_code fa),
      act_delta = fa_delta fa, act_value = fa_value fa, act_counter = TrimSpace (fa_counter fa),
      act_marker = TrimSpace (fa_marker fa), act_group = TrimSpace (fa_group fa),
      act_set = TrimSpace (fa_set fa), act_ttl = ttl, act_when = when',
      act_headers = fa_headers fa, act_args = fa_args fa, act_body = fa_body fa\<rparr>"

text \<open>The \<open>ttl\<close> of an action: nothing, or the parsed duration in whole seconds.\<close>

definition action_ttl :: "go_lib \<Rightarrow> string \<Rightarrow> (action_err, int option) outcome" where
  "action_ttl L raw =
     (if TrimSpace raw = [] then Ok None
      else case parseTTL L raw of None \<Rightarrow> Err BadActTTL | Some d \<Rightarrow> Ok (Some (trunc_div d Second)))"

text \<open>An empty \<open>apply\<close> is filled from the dictionary where there is no choice.\<close>

definition default_apply :: "string list \<Rightarrow> action \<Rightarrow> action" where
  "default_apply axes a =
     (if act_apply a = [] \<and> (length axes = 1 \<or> recordVerb (act_do a)) then a\<lparr>act_apply := hd axes\<rparr> else a)"

definition check_action :: "action \<Rightarrow> action_err option" where
  "check_action a =
     or_else (checkPhaseAsk (act_do a) (act_phase a) (act_apply a))
      (or_else (if act_code a \<noteq> [] \<and> \<not> codeRe (act_code a) then Some (BadCode (act_code a)) else None)
       (or_else (check_delta a) (or_else (check_value a) (or_else (check_mutate a)
        (or_else (check_mark a) (or_else (check_audit a) (check_not_audit a)))))))"

text \<open>What follows once the row is read into an action: its verb, its axis, and the checks.\<close>

definition finish_action :: "action \<Rightarrow> (action_err, action) outcome" where
  "finish_action a =
     (if act_to a = [] \<and> \<not> recordVerb (act_do a) then Err NoTo
      else case map_of verbs (act_do a) of
        None \<Rightarrow> Err (UnknownDo (act_do a))
      | Some axes \<Rightarrow>
          let a' = default_apply axes a
          in if act_apply a' \<notin> set axes then Err (BadAxis (act_apply a') (act_do a'))
             else case check_action a' of Some e \<Rightarrow> Err e | None \<Rightarrow> Ok a')"

definition parseAction :: "go_lib \<Rightarrow> fileAction \<Rightarrow> (action_err, action) outcome" where
  "parseAction L fa =
     (if TrimSpace (fa_write fa) \<noteq> [] then Err WriteOnly
      else obind (action_ttl L (fa_ttl fa)) (\<lambda>ttl.
        obind (map_err BadWhen (CheckArchiveWhen L (fa_when fa))) (\<lambda>when'.
          finish_action (action_of fa ttl when'))))"

section \<open>Rules\<close>

datatype rule_err =
    AtOnly | AtRange int | OverloadExtras | BadOn string | IfAndUnless | CondUndeclared string
  | EmptySuffix | EmptyMethod | NoActions | WriteErr nat write_err | ActionErr nat action_err

definition check_on :: "fileRule \<Rightarrow> (rule_err, bool \<times> int) outcome" where
  "check_on fr =
     (let on = TrimSpace (fr_on fr)
      in if on = [] then (if fr_at fr \<noteq> None then Err AtOnly else Ok (False, 0))
         else if on = On then
           (case Check (fr_at fr) of
              Some n \<Rightarrow> Err (AtRange n)
            | None \<Rightarrow>
                if TrimSpace (fm_prefix (fr_match fr)) \<noteq> [] \<or> fm_suffixes (fr_match fr) \<noteq> [] \<or>
                   fm_static (fr_match fr) \<or> fm_methods (fr_match fr) \<noteq> [] \<or>
                   TrimSpace (fr_if fr) \<noteq> [] \<or> TrimSpace (fr_unless fr) \<noteq> []
                then Err OverloadExtras else Ok (True, At (fr_at fr)))
         else Err (BadOn on))"

definition check_cond :: "conds \<Rightarrow> fileRule \<Rightarrow> (rule_err, string \<times> bool) outcome" where
  "check_cond conds fr =
     (let ifName = TrimSpace (fr_if fr); unlessName = TrimSpace (fr_unless fr)
      in if ifName \<noteq> [] \<and> unlessName \<noteq> [] then Err IfAndUnless
         else let negate = (unlessName \<noteq> []); cond = (if negate then unlessName else ifName)
         in if cond \<noteq> [] \<and> map_of conds cond = None then Err (CondUndeclared cond)
            else Ok (cond, negate))"

definition parse_suffix :: "go_lib \<Rightarrow> string \<Rightarrow> (rule_err, string) outcome" where
  "parse_suffix L s = (let t = ToLower L (TrimSpace s) in if t = [] then Err EmptySuffix else Ok t)"

definition parse_method :: "go_lib \<Rightarrow> string \<Rightarrow> (rule_err, string) outcome" where
  "parse_method L m = (let t = ToUpper L (TrimSpace m) in if t = [] then Err EmptyMethod else Ok t)"

text \<open>The rows under \<open>actions\<close>: those with a \<open>list\<close> are writes, the others actions.\<close>

fun parse_actions ::
  "go_lib \<Rightarrow> nat \<Rightarrow> fileAction list \<Rightarrow> (rule_err, action list \<times> list_write list) outcome" where
  "parse_actions L j [] = Ok ([], [])"
| "parse_actions L j (fa # fas) =
     (if TrimSpace (fa_list fa) \<noteq> [] then
        obind (map_err (WriteErr j) (parseWrite L fa)) (\<lambda>w.
          obind (parse_actions L (Suc j) fas) (\<lambda>(as, ws). Ok (as, w # ws)))
      else
        obind (map_err (ActionErr j) (parseAction L fa)) (\<lambda>a.
          obind (parse_actions L (Suc j) fas) (\<lambda>(as, ws). Ok (a # as, ws))))"

definition parseRule :: "go_lib \<Rightarrow> conds \<Rightarrow> nat \<Rightarrow> fileRule \<Rightarrow> (rule_err, rule) outcome" where
  "parseRule L conds index fr =
     (let name0 = TrimSpace (fr_name fr);
          name = (if name0 = [] then ''rule-'' @ itoa (Suc index) else name0)
      in obind (check_on fr) (\<lambda>(overload, at).
         obind (check_cond conds fr) (\<lambda>(cond, negate).
         obind (for_each (\<lambda>_. parse_suffix L) 0 (fm_suffixes (fr_match fr))) (\<lambda>suffixes.
         obind (for_each (\<lambda>_. parse_method L) 0 (fm_methods (fr_match fr))) (\<lambda>methods.
           if fr_actions fr = [] then Err NoActions
           else obind (parse_actions L 0 (fr_actions fr)) (\<lambda>(as, ws).
             Ok \<lparr>r_name = name,
                 r_match = \<lparr>m_prefix = TrimSpace (fm_prefix (fr_match fr)), m_suffixes = suffixes,
                            m_static = fm_static (fr_match fr), m_methods = methods\<rparr>,
                 r_cond = cond, r_negate = negate, r_actions = as, r_writes = ws,
                 r_overload = overload, r_at = at\<rparr>))))))"

datatype profile_err = BadYAML | BadMode string | ProfileCond cond_err | ProfileRule nat rule_err

definition ParseProfile ::
  "go_lib \<Rightarrow> (string \<Rightarrow> fileProfile option) \<Rightarrow> string \<Rightarrow> string \<Rightarrow> (profile_err, profile) outcome" where
  "ParseProfile L yaml name raw =
     (case yaml raw of
        None \<Rightarrow> Err BadYAML
      | Some f \<Rightarrow>
          let mode0 = TrimSpace (fp_mode f); mode = (if mode0 = [] then ModeEnforce else mode0)
          in if mode \<noteq> ModeEnforce \<and> mode \<noteq> ModeOff then Err (BadMode mode)
             else obind (map_err ProfileCond (parseConditions L (fp_conditions f))) (\<lambda>conds.
               obind (for_each (\<lambda>i fr. map_err (ProfileRule i) (parseRule L conds i fr)) 0 (fp_rules f)) (\<lambda>rules.
                 Ok \<lparr>p_name = name, p_mode = mode, p_conditions = conds, p_rules = rules\<rparr>)))"

end
