(* ===== verification/Policy_Rules.thy ===== *)
theory Policy_Rules
  imports Policy
begin

text \<open>
  What a loaded profile guarantees, and what a profile says to a request. \<open>action_ok\<close>,
  \<open>write_ok\<close>, \<open>rule_ok\<close> and \<open>profile_ok\<close> are the declarative readings of the loader's checks;
  \<open>rule_sem\<close> says when a rule speaks under a valuation of the conditions, and \<open>gather\<close> adds up the
  rules that do.
\<close>

section \<open>Actions the loader accepts\<close>

definition phase_ok :: "action \<Rightarrow> bool" where
  "phase_ok a \<longleftrightarrow>
     act_phase a = [] \<or>
     (controlVerb (act_do a) \<and> act_phase a \<in> {PhaseRequest, PhaseResponse, PhaseFrame} \<and>
      (act_apply a = ''conn'' \<longrightarrow> act_phase a = PhaseFrame))"

definition amounts_ok :: "action \<Rightarrow> bool" where
  "amounts_ok a \<longleftrightarrow>
     (if act_do a = ''threshold'' then (\<exists>d. act_delta a = Some d \<and> -100 \<le> d \<and> d \<le> 900)
      else act_delta a = None) \<and>
     (if act_do a = ''score'' then (\<exists>v. act_value a = Some v \<and> v \<noteq> 0 \<and> -100 \<le> v \<and> v \<le> 100)
      else if act_do a = ''note'' then (\<forall>v. act_value a = Some v \<longrightarrow> -100 \<le> v \<and> v \<le> 100)
      else act_value a = None) \<and>
     (act_counter a = [] \<or> (act_do a = ''note'' \<and> counterRe (act_counter a)))"

definition switches_ok :: "action \<Rightarrow> bool" where
  "switches_ok a \<longleftrightarrow>
     (if act_do a = ''mutate'' then counterRe (act_group a) else act_group a = []) \<and>
     (if act_do a = ''mutate'' \<or> auditVerb (act_do a) then act_set a \<in> {''on'', ''off''}
      else act_set a = []) \<and>
     (if act_do a = ''mark'' then CheckMarker (act_marker a) = None else act_marker a = [])"

definition record_ok :: "action \<Rightarrow> bool" where
  "record_ok a \<longleftrightarrow>
     (if auditVerb (act_do a)
      then (act_do a = ''archive'' \<and> act_set a = ''on'' \<or> ttl_or_zero a = 0 \<and> act_when a = []) \<and>
           (act_set a = ''on'' \<or> \<not> has_objects a) \<and>
           (act_apply a = ''response'' \<longrightarrow> act_args a = None) \<and>
           CheckObjectSpec (act_headers a) = None \<and> CheckObjectSpec (act_args a) = None \<and>
           CheckObjectSpec (act_body a) = None
      else act_ttl a = None \<and> act_when a = [] \<and> \<not> has_objects a)"

definition addressee_ok :: "action \<Rightarrow> bool" where
  "addressee_ok a \<longleftrightarrow> (if recordVerb (act_do a) then act_to a \<in> {[], ''*''} else act_to a \<noteq> [])"

definition action_ok :: "action \<Rightarrow> bool" where
  "action_ok a \<longleftrightarrow>
     (\<exists>axes. map_of verbs (act_do a) = Some axes \<and> act_apply a \<in> set axes) \<and>
     addressee_ok a \<and> phase_ok a \<and> (act_code a = [] \<or> codeRe (act_code a)) \<and>
     amounts_ok a \<and> switches_ok a \<and> record_ok a"

lemma counterRe_Nil [simp]: "\<not> counterRe []"
  by (simp add: counterRe_def)

lemma checkPhaseAsk_None:
  "checkPhaseAsk (act_do a) (act_phase a) (act_apply a) = None \<longleftrightarrow> phase_ok a"
  by (auto simp: checkPhaseAsk_def phase_ok_def)

lemma check_amounts_None:
  "check_delta a = None \<and> check_value a = None \<longleftrightarrow>
     amounts_ok a \<and> (act_do a = ''score'' \<longrightarrow> act_to a \<in> {[], ''*''})"
  by (auto simp: check_delta_def check_value_def amounts_ok_def split: option.splits if_splits)

lemma check_switches_None:
  "check_mutate a = None \<and> check_mark a = None \<and> (auditVerb (act_do a) \<longrightarrow> act_set a \<in> {''on'', ''off''}) \<longleftrightarrow>
     switches_ok a \<and> (act_do a = ''mark'' \<longrightarrow> act_to a \<in> {[], ''*''})"
  by (auto simp: check_mutate_def check_mark_def switches_ok_def auditVerb_def split: if_splits)

lemma check_record_None:
  "check_audit a = None \<and> check_not_audit a = None \<longleftrightarrow>
     record_ok a \<and> (auditVerb (act_do a) \<longrightarrow> act_to a \<in> {[], ''*''} \<and> act_set a \<in> {''on'', ''off''})"
proof (cases "auditVerb (act_do a)")
  case True
  then show ?thesis
    by (auto simp: check_audit_def check_not_audit_def record_ok_def auditVerb_def)
qed (auto simp: check_audit_def check_not_audit_def record_ok_def)

lemma check_action_None:
  "check_action a = None \<and> (act_to a = [] \<longrightarrow> recordVerb (act_do a)) \<longleftrightarrow>
     addressee_ok a \<and> phase_ok a \<and> (act_code a = [] \<or> codeRe (act_code a)) \<and>
     amounts_ok a \<and> switches_ok a \<and> record_ok a"
proof -
  have split: "check_action a = None \<longleftrightarrow> phase_ok a \<and> (act_code a = [] \<or> codeRe (act_code a)) \<and>
      (check_delta a = None \<and> check_value a = None) \<and> (check_mutate a = None \<and> check_mark a = None) \<and>
      (check_audit a = None \<and> check_not_audit a = None)"
    by (auto simp: check_action_def checkPhaseAsk_None)
  show ?thesis
    unfolding split check_amounts_None check_record_None
    using check_switches_None [of a] by (auto simp: addressee_ok_def recordVerb_def)
qed

lemma default_apply_fields [simp]:
  "act_do (default_apply axes a) = act_do a" "act_to (default_apply axes a) = act_to a"
  by (simp_all add: default_apply_def)

lemma finish_action_iff:
  "finish_action b = Ok a \<longleftrightarrow>
     (\<exists>axes. map_of verbs (act_do b) = Some axes \<and> a = default_apply axes b \<and> action_ok a)"
proof (cases "map_of verbs (act_do b)")
  case (Some axes)
  have "action_ok (default_apply axes b) \<longleftrightarrow> act_apply (default_apply axes b) \<in> set axes \<and>
      check_action (default_apply axes b) = None \<and> (act_to b = [] \<longrightarrow> recordVerb (act_do b))"
    using check_action_None [of "default_apply axes b"] Some by (simp add: action_ok_def)
  then show ?thesis
    using Some by (cases "check_action (default_apply axes b)") (auto simp: finish_action_def Let_def)
qed (simp add: finish_action_def)

text \<open>The loader accepts exactly the actions that are well formed once the axis is filled in.\<close>

lemma parseAction_iff:
  "parseAction L fa = Ok a \<longleftrightarrow>
     TrimSpace (fa_write fa) = [] \<and>
     (\<exists>ttl when' axes. action_ttl L (fa_ttl fa) = Ok ttl \<and> CheckArchiveWhen L (fa_when fa) = Ok when' \<and>
        map_of verbs (TrimSpace (fa_do fa)) = Some axes \<and>
        a = default_apply axes (action_of fa ttl when') \<and> action_ok a)"
proof -
  have "act_do (action_of fa ttl w) = TrimSpace (fa_do fa)" for ttl w
    by (simp add: action_of_def)
  then show ?thesis
    by (auto simp: parseAction_def obind_Ok map_err_Ok finish_action_iff)
qed

lemma parseAction_ok: "parseAction L fa = Ok a \<Longrightarrow> action_ok a"
  unfolding parseAction_iff by blast

section \<open>TTLs\<close>

lemma parseTTL_range: "parseTTL L raw = Some d \<Longrightarrow> - (2 ^ 63) \<le> d \<and> d < 2 ^ 63"
  using wrap64_range ParseDuration_range
  by (fastforce simp: parseTTL_def Let_def split: if_splits option.splits)

text \<open>A number of days is exact up to 106751 days, the last that fits 64 bits of nanoseconds.\<close>

lemma parseTTL_days:
  assumes "TrimSpace raw = ds @ ''d''" and "Atoi ds = Some n" and "0 \<le> n" and "n \<le> 106751"
  shows "parseTTL L raw = Some (n * 24 * Hour)"
proof -
  have "wrap64 (n * 24) = n * 24" using assms(3,4) by (intro wrap64_id) simp_all
  moreover have "wrap64 (n * 24 * Hour) = n * 24 * Hour" using assms(3,4) by (intro wrap64_id) simp_all
  moreover have "HasSuffix (ds @ ''d'') ''d'' \<and> TrimSuffix (ds @ ''d'') ''d'' = ds"
    by (simp add: HasSuffix_def TrimSuffix_def CutSuffix_def)
  ultimately show ?thesis using assms(1-3) by (simp add: parseTTL_def Let_def)
qed

section \<open>Writes, rules and profiles the loader accepts\<close>

definition write_ok :: "list_write \<Rightarrow> bool" where
  "write_ok w \<longleftrightarrow> counterRe (w_list w) \<and> w_subject w \<in> {WriteAddr, WriteNet, WriteNetAll, WriteASN} \<and>
     Second \<le> w_ttl w \<and> w_ttl w < 2 ^ 63 \<and> codeRe (w_reason w)"

lemma codeRe_default [simp]: "codeRe DefaultWriteReason"
  by code_simp

lemma parseWrite_ok: "parseWrite L fa = Ok w \<Longrightarrow> write_ok w"
  using parseTTL_range [of L "fa_ttl fa"]
  by (auto simp: parseWrite_def write_ok_def Let_def split: if_splits option.splits)

definition match_empty :: "match \<Rightarrow> bool" where
  "match_empty m \<longleftrightarrow> m_prefix m = [] \<and> m_suffixes m = [] \<and> \<not> m_static m \<and> m_methods m = []"

definition rule_ok :: "conds \<Rightarrow> rule \<Rightarrow> bool" where
  "rule_ok conds r \<longleftrightarrow>
     (r_cond r = [] \<or> map_of conds (r_cond r) \<noteq> None) \<and>
     (\<forall>a \<in> set (r_actions r). action_ok a) \<and> (\<forall>w \<in> set (r_writes r). write_ok w) \<and>
     (r_actions r \<noteq> [] \<or> r_writes r \<noteq> []) \<and>
     [] \<notin> set (m_suffixes (r_match r)) \<and> [] \<notin> set (m_methods (r_match r)) \<and>
     (if r_overload r then match_empty (r_match r) \<and> r_cond r = [] \<and> AtMin \<le> r_at r \<and> r_at r \<le> AtMax
      else r_at r = 0)"

lemma parse_actions_ok:
  "parse_actions L j fas = Ok (as, ws) \<Longrightarrow>
     (\<forall>a \<in> set as. action_ok a) \<and> (\<forall>w \<in> set ws. write_ok w) \<and> length as + length ws = length fas"
proof (induction fas arbitrary: j as ws)
  case (Cons fa fas)
  show ?case
  proof (cases "TrimSpace (fa_list fa) = []")
    case True
    then obtain a as' where "parseAction L fa = Ok a" "parse_actions L (Suc j) fas = Ok (as', ws)" "as = a # as'"
      using Cons.prems by (auto simp: obind_Ok map_err_Ok)
    then show ?thesis using Cons.IH [of "Suc j" as' ws] parseAction_ok [of L fa a] by auto
  next
    case False
    then obtain w ws' where "parseWrite L fa = Ok w" "parse_actions L (Suc j) fas = Ok (as, ws')" "ws = w # ws'"
      using Cons.prems by (auto simp: obind_Ok map_err_Ok)
    then show ?thesis using Cons.IH [of "Suc j" as ws'] parseWrite_ok [of L fa w] by auto
  qed
qed simp

lemma check_on_ok:
  assumes "check_on fr = Ok (ov, at)"
  shows "if ov then TrimSpace (fm_prefix (fr_match fr)) = [] \<and> fm_suffixes (fr_match fr) = [] \<and>
      \<not> fm_static (fr_match fr) \<and> fm_methods (fr_match fr) = [] \<and> TrimSpace (fr_if fr) = [] \<and>
      TrimSpace (fr_unless fr) = [] \<and> AtMin \<le> at \<and> at \<le> AtMax
    else at = 0"
  using assms Check_None [of "fr_at fr"]
  by (auto simp: check_on_def Let_def split: if_splits option.splits)

lemma check_cond_ok:
  "check_cond conds fr = Ok (c, neg) \<Longrightarrow>
     (c = [] \<or> map_of conds c \<noteq> None) \<and> (TrimSpace (fr_if fr) = [] \<and> TrimSpace (fr_unless fr) = [] \<longrightarrow> c = [])"
  by (auto simp: check_cond_def Let_def split: if_splits)

lemma parse_words_nonempty:
  "for_each (\<lambda>_. parse_suffix L) i xs = Ok ys \<Longrightarrow> [] \<notin> set ys"
  "for_each (\<lambda>_. parse_method L) i xs = Ok ys \<Longrightarrow> [] \<notin> set ys"
  by (auto simp: parse_suffix_def parse_method_def Let_def split: if_splits elim!: for_each_Ok_set)

lemma parseRule_ok:
  assumes "parseRule L conds i fr = Ok r"
  shows "rule_ok conds r"
proof -
  obtain ov at c neg sfx mth as ws where on: "check_on fr = Ok (ov, at)"
      and cond: "check_cond conds fr = Ok (c, neg)"
      and sfx: "for_each (\<lambda>_. parse_suffix L) 0 (fm_suffixes (fr_match fr)) = Ok sfx"
      and mth: "for_each (\<lambda>_. parse_method L) 0 (fm_methods (fr_match fr)) = Ok mth"
      and ne: "fr_actions fr \<noteq> []" and acts: "parse_actions L 0 (fr_actions fr) = Ok (as, ws)"
      and r: "r_match r = \<lparr>m_prefix = TrimSpace (fm_prefix (fr_match fr)), m_suffixes = sfx,
                            m_static = fm_static (fr_match fr), m_methods = mth\<rparr>"
        "r_cond r = c" "r_actions r = as" "r_writes r = ws" "r_overload r = ov" "r_at r = at"
    using assms by (auto simp: parseRule_def Let_def obind_Ok split: if_splits)
  have "as \<noteq> [] \<or> ws \<noteq> []" using parse_actions_ok [OF acts] ne by auto
  then show ?thesis
    using check_on_ok [OF on] check_cond_ok [OF cond] parse_actions_ok [OF acts]
      parse_words_nonempty(1) [OF sfx] parse_words_nonempty(2) [OF mth] sfx mth
    by (auto simp: rule_ok_def r match_empty_def split: if_splits)
qed

definition profile_ok :: "profile \<Rightarrow> bool" where
  "profile_ok p \<longleftrightarrow>
     p_mode p \<in> {ModeEnforce, ModeOff} \<and> conds_ok (p_conditions p) \<and>
     (\<forall>r \<in> set (p_rules p). rule_ok (p_conditions p) r)"

lemma ParseProfile_ok:
  assumes "ParseProfile L yaml name raw = Ok p"
  shows "profile_ok p \<and> p_name p = name"
proof -
  obtain f where f: "yaml raw = Some f" using assms by (auto simp: ParseProfile_def split: option.splits)
  then obtain conds rules where c: "parseConditions L (fp_conditions f) = Ok conds"
      and rs: "for_each (\<lambda>i fr. map_err (ProfileRule i) (parseRule L conds i fr)) 0 (fp_rules f) = Ok rules"
      and p: "p_conditions p = conds" "p_rules p = rules" "p_name p = name" "p_mode p \<in> {ModeEnforce, ModeOff}"
    using assms by (auto simp: ParseProfile_def Let_def obind_Ok map_err_Ok split: if_splits)
  have "rule_ok conds r" if "r \<in> set rules" for r
    by (rule for_each_Ok_set [OF rs that]) (auto simp: map_err_Ok dest: parseRule_ok)
  then show ?thesis using p parseConditions_ok [OF c] by (simp add: profile_ok_def)
qed

section \<open>What the rules add up to\<close>

definition gather :: "rule list \<Rightarrow> collected" where
  "gather rs = (concat (map r_actions rs), concat (map r_writes rs), map r_name rs)"

definition rule_sem :: "go_lib \<Rightarrow> (string \<Rightarrow> bool) \<Rightarrow> string \<Rightarrow> string \<Rightarrow> rule \<Rightarrow> bool" where
  "rule_sem L \<sigma> method' uri r \<longleftrightarrow>
     \<not> r_overload r \<and> Matches L (r_match r) method' uri \<and> (r_cond r = [] \<or> \<sigma> (r_cond r) \<noteq> r_negate r)"

definition add_up :: "collected \<Rightarrow> collected \<Rightarrow> collected" where
  "add_up x y = (fst x @ fst y, fst (snd x) @ fst (snd y), snd (snd x) @ snd (snd y))"

lemma gather_simps:
  "gather [] = ([], [], [])"
  "gather (r # rs) = add_up (r_actions r, r_writes r, [r_name r]) (gather rs)"
  by (simp_all add: gather_def add_up_def)

lemma add_up_assoc: "add_up (add_up x y) z = add_up x (add_up y z)"
  by (simp add: add_up_def)

lemma add_up_Nil [simp]: "add_up x ([], [], []) = x" "add_up ([], [], []) x = x"
  by (simp_all add: add_up_def)

lemma Overload_rules_gather:
  "Overload_rules rs fill shed acc = add_up acc (gather (filter (\<lambda>r. r_overload r \<and> Fires (r_at r) fill shed) rs))"
proof (induction rs fill shed acc rule: Overload_rules.induct)
  case (2 r rs fill shed as ws ns)
  then show ?case by (auto simp: gather_simps add_up_def)
qed (simp add: gather_simps)

lemma CollectOverload_gather:
  "CollectOverload p fill shed = gather (filter (\<lambda>r. r_overload r \<and> Fires (r_at r) fill shed) (p_rules p))"
  by (simp add: CollectOverload_def Overload_rules_gather)

text \<open>Without an evaluator every condition is false.\<close>

lemma Collect_rules_None:
  "Collect_rules L m u rs (None :: ('s eval_env \<times> 's evaluator) option) acc = (add_up acc (gather (filter (rule_sem L (\<lambda>_. False) m u) rs)), None)"
proof (induction rs arbitrary: acc)
  case (Cons r rs)
  obtain as ws ns where acc: "acc = (as, ws, ns)" by (cases acc)
  have "rule_fires L m u r (None :: ('s eval_env \<times> 's evaluator) option) = (rule_sem L (\<lambda>_. False) m u r, None)"
    by (auto simp: rule_fires_def rule_sem_def ask_def)
  then show ?case using Cons by (auto simp: acc gather_simps add_up_def)
qed (simp add: gather_simps)

context source_view
begin

text \<open>With an evaluator over a source that keeps its promise, exactly the rules that speak under
  the valuation add up, in the order of the profile.\<close>

lemma rule_fires_sem:
  assumes "conds_ok (en_conds E)" and "valuation (en_lib E) (en_sets E) (en_conds E) w \<sigma>"
    and "en_ops E = ops" and "ev_ok w \<sigma> ev" and "ev_busy ev = []"
  shows "\<exists>ev'. rule_fires L m u r (Some (E, ev)) = (rule_sem L \<sigma> m u r, Some (E, ev')) \<and>
    ev_ok w \<sigma> ev' \<and> ev_busy ev' = []"
proof -
  obtain ev' where "Holds E (r_cond r) ev = Some (\<sigma> (r_cond r), ev') \<and> ev_ok w \<sigma> ev' \<and> ev_busy ev' = []"
    using Holds_sem [OF assms, of "r_cond r"] by blast
  then show ?thesis using assms(4,5) by (auto simp: rule_fires_def ask_def rule_sem_def)
qed

lemma Collect_rules_sem:
  assumes "conds_ok (en_conds E)" and "valuation (en_lib E) (en_sets E) (en_conds E) w \<sigma>"
    and "en_ops E = ops" and "ev_ok w \<sigma> ev" and "ev_busy ev = []"
  shows "\<exists>ev'. Collect_rules L m u rs (Some (E, ev)) acc =
      (add_up acc (gather (filter (rule_sem L \<sigma> m u) rs)), Some (E, ev')) \<and> ev_ok w \<sigma> ev' \<and> ev_busy ev' = []"
  using assms(4,5)
proof (induction rs arbitrary: ev acc)
  case (Cons r rs)
  obtain as ws ns where acc: "acc = (as, ws, ns)" by (cases acc)
  obtain ev1 where f: "rule_fires L m u r (Some (E, ev)) = (rule_sem L \<sigma> m u r, Some (E, ev1))"
      and ev1: "ev_ok w \<sigma> ev1" "ev_busy ev1 = []"
    using rule_fires_sem [OF assms(1-3) Cons.prems] by blast
  show ?case
    using Cons.IH [OF ev1, of "if rule_sem L \<sigma> m u r then add_up acc (r_actions r, r_writes r, [r_name r]) else acc"]
    by (auto simp: acc f gather_simps add_up_def)
qed (auto simp: gather_simps)

lemma Collect_sem:
  assumes "conds_ok (en_conds E)" and "valuation (en_lib E) (en_sets E) (en_conds E) (view s) \<sigma>"
    and "en_ops E = ops" and "inv s"
  shows "\<exists>ev'. Collect L p (Some (E, NewEvaluator s)) m u =
    (gather (filter (rule_sem L \<sigma> m u) (p_rules p)), Some (E, ev')) \<and> ev_ok (view s) \<sigma> ev'"
  using Collect_rules_sem [OF assms(1-3), of "NewEvaluator s" L m u "p_rules p" "([], [], [])"]
    ev_ok_new [OF assms(4), of \<sigma>]
  by (auto simp: Collect_def)

end

end
