(* ===== verification/Source.thy ===== *)
theory Source
  imports Policy_Rules Body
begin

text \<open>
  \<open>cmd/inspector/source.go\<close>: the source of operand values for one request. Headers, cookies and
  arguments are read from the store on first use and remembered. The loader's answer for a locator
  is the function \<open>se_load\<close>, the decoder of the header blob \<open>se_json\<close>, and \<open>se_order\<close> the order in
  which \<open>range stdHeaders\<close> visits the map. \<open>sr_loads\<close> is a trace of the objects asked from the
  loader.
\<close>

section \<open>Decoding\<close>

definition stdHeaders :: "(string \<times> string) list" where
  "stdHeaders =
     [(''user_agent'', ''user_agent''), (''referer'', ''referer''), (''x_forwarded_for'', ''xff''),
      (''accept_language'', ''accept_language''), (''origin'', ''origin''),
      (''content_type'', ''content_type''), (''accept'', ''accept'')]"

text \<open>\<open>url.QueryUnescape\<close>: a plus sign is a space, a percent sign takes two hexadecimal digits.\<close>

fun QueryUnescape :: "string \<Rightarrow> string option" where
  "QueryUnescape [] = Some []"
| "QueryUnescape (c # s) =
     (if c = CHR ''%'' then
        (case s of
           a # b # t \<Rightarrow>
             if is_hex a \<and> is_hex b
             then map_option (\<lambda>r. char_of (16 * hex_val a + hex_val b) # r) (QueryUnescape t)
             else None
         | _ \<Rightarrow> None)
      else map_option (\<lambda>r. (if c = CHR ''+'' then CHR '' '' else c) # r) (QueryUnescape s))"

definition unescape_or :: "string \<Rightarrow> string" where
  "unescape_or s = (case QueryUnescape s of None \<Rightarrow> s | Some t \<Rightarrow> t)"

definition strip_quotes :: "string \<Rightarrow> string" where
  "strip_quotes v =
     (if length v \<ge> 2 \<and> hd v = CHR 0x22 \<and> last v = CHR 0x22 then butlast (tl v) else v)"

definition cookie_item :: "string \<Rightarrow> pair list" where
  "cookie_item item =
     (case Cut item (CHR ''='') of
        (name, value, found) \<Rightarrow>
          if \<not> found then []
          else if TrimSpace name = [] then []
          else [(TrimSpace name, strip_quotes (TrimSpace value))])"

definition cookies_of :: "go_lib \<Rightarrow> pair list \<Rightarrow> pair list" where
  "cookies_of L hs =
     concat (map (\<lambda>h. if \<not> EqualFold L (fst h) ''cookie'' then []
                      else concat (map cookie_item (Split (snd h) (CHR '';'')))) hs)"

definition arg_item :: "string \<Rightarrow> pair list" where
  "arg_item item =
     (if item = [] then []
      else case Cut item (CHR ''='') of
        (name, value, _) \<Rightarrow>
          if unescape_or name = [] then [] else [(unescape_or name, unescape_or value)])"

definition args_of :: "string \<Rightarrow> pair list" where
  "args_of raw = concat (map arg_item (Split raw (CHR ''&'')))"

section \<open>State and operations\<close>

record source_env =
  se_lib :: go_lib
  se_req :: request
  se_load :: "locator \<Rightarrow> body"
  se_json :: "string \<Rightarrow> header list option"
  se_order :: "(string \<times> string) list"

record source =
  sr_headers :: "pair list"
  sr_headersOK :: bool
  sr_headersDone :: bool
  sr_cookies :: "pair list"
  sr_cookiesOK :: bool
  sr_cookiesDone :: bool
  sr_args :: "pair list"
  sr_argsOK :: bool
  sr_argsDone :: bool
  sr_raw :: string
  sr_rawOK :: bool
  sr_rawDone :: bool
  sr_Fault :: bool
  sr_Why :: string
  sr_loads :: "string list"

definition newSource :: source where
  "newSource =
     \<lparr>sr_headers = [], sr_headersOK = False, sr_headersDone = False,
      sr_cookies = [], sr_cookiesOK = False, sr_cookiesDone = False,
      sr_args = [], sr_argsOK = False, sr_argsDone = False,
      sr_raw = [], sr_rawOK = False, sr_rawDone = False,
      sr_Fault = False, sr_Why = [], sr_loads = []\<rparr>"

definition opt_if :: "bool \<Rightarrow> 'a \<Rightarrow> 'a option" where
  "opt_if b x = (if b then Some x else None)"

text \<open>What a load comes to: a value, an object that is absent, or a fault with its reason.\<close>

datatype 'a fetch = Got 'a | Absent | Faulty string

definition fetch_raw :: "source_env \<Rightarrow> string fetch" where
  "fetch_raw env =
     (if args_size (req_http (se_req env)) = 0 then Got []
      else case store_args (req_store (se_req env)) of
        None \<Rightarrow> Absent
      | Some loc \<Rightarrow>
          let loaded = se_load env loc
          in if Failed loaded then Faulty (''args: '' @ bd_unavailable loaded)
             else if \<not> Available loaded then Absent
             else Got (bd_data loaded))"

definition asks_args :: "source_env \<Rightarrow> string list" where
  "asks_args env =
     (if args_size (req_http (se_req env)) \<noteq> 0 \<and> store_args (req_store (se_req env)) \<noteq> None
      then [''args''] else [])"

definition rawArgs :: "source_env \<Rightarrow> source \<Rightarrow> string option \<times> source" where
  "rawArgs env s =
     (if sr_rawDone s then (opt_if (sr_rawOK s) (sr_raw s), s)
      else let s = s\<lparr>sr_rawDone := True, sr_loads := sr_loads s @ asks_args env\<rparr>
      in case fetch_raw env of
           Got raw \<Rightarrow> (Some raw, s\<lparr>sr_raw := raw, sr_rawOK := True\<rparr>)
         | Absent \<Rightarrow> (None, s)
         | Faulty why \<Rightarrow> (None, s\<lparr>sr_Fault := True, sr_Why := why\<rparr>))"

definition varsAsHeaders :: "source_env \<Rightarrow> pair list option" where
  "varsAsHeaders env =
     (case req_vars (se_req env) of
        None \<Rightarrow> None
      | Some vars \<Rightarrow>
          Some (concat (map (\<lambda>(hdr, field).
            case map_of vars field of
              None \<Rightarrow> []
            | Some v \<Rightarrow> if v \<noteq> [] then [(hdr, v)] else []) (se_order env))))"

definition fetch_headers :: "source_env \<Rightarrow> pair list fetch" where
  "fetch_headers env =
     (case store_headers (req_store (se_req env)) of
        None \<Rightarrow> (case varsAsHeaders env of None \<Rightarrow> Absent | Some hs \<Rightarrow> Got hs)
      | Some loc \<Rightarrow>
          let loaded = se_load env loc
          in if Failed loaded then Faulty (''headers: '' @ bd_unavailable loaded)
             else if \<not> Available loaded \<or> bd_data loaded = [] then Absent
             else case se_json env (bd_data loaded) of
               None \<Rightarrow> Faulty ''headers: blob is not an array of pairs''
             | Some hs \<Rightarrow> Got hs)"

definition asks_headers :: "source_env \<Rightarrow> string list" where
  "asks_headers env = (if store_headers (req_store (se_req env)) \<noteq> None then [''headers''] else [])"

definition src_Headers :: "source_env \<Rightarrow> source \<Rightarrow> pair list option \<times> source" where
  "src_Headers env s =
     (if sr_headersDone s then (opt_if (sr_headersOK s) (sr_headers s), s)
      else let s = s\<lparr>sr_headersDone := True, sr_loads := sr_loads s @ asks_headers env\<rparr>
      in case fetch_headers env of
           Got hs \<Rightarrow> (Some hs, s\<lparr>sr_headers := hs, sr_headersOK := True\<rparr>)
         | Absent \<Rightarrow> (None, s)
         | Faulty why \<Rightarrow> (None, s\<lparr>sr_Fault := True, sr_Why := why\<rparr>))"

definition src_Cookies :: "source_env \<Rightarrow> source \<Rightarrow> pair list option \<times> source" where
  "src_Cookies env s =
     (if sr_cookiesDone s then (opt_if (sr_cookiesOK s) (sr_cookies s), s)
      else case src_Headers env (s\<lparr>sr_cookiesDone := True\<rparr>) of
        (None, s) \<Rightarrow> (None, s)
      | (Some hs, s) \<Rightarrow>
          (Some (cookies_of (se_lib env) hs),
           s\<lparr>sr_cookiesOK := True, sr_cookies := sr_cookies s @ cookies_of (se_lib env) hs\<rparr>))"

definition src_Args :: "source_env \<Rightarrow> source \<Rightarrow> pair list option \<times> source" where
  "src_Args env s =
     (if sr_argsDone s then (opt_if (sr_argsOK s) (sr_args s), s)
      else case rawArgs env (s\<lparr>sr_argsDone := True\<rparr>) of
        (None, s) \<Rightarrow> (None, s)
      | (Some raw, s) \<Rightarrow>
          (Some (args_of raw), s\<lparr>sr_argsOK := True, sr_args := sr_args s @ args_of raw\<rparr>))"

definition src_Var :: "source_env \<Rightarrow> source \<Rightarrow> string \<Rightarrow> string option \<times> source" where
  "src_Var env s name =
     (case req_vars (se_req env) of None \<Rightarrow> (None, s) | Some vars \<Rightarrow> (map_of vars name, s))"

definition src_Field :: "source_env \<Rightarrow> source \<Rightarrow> string \<Rightarrow> string \<times> source" where
  "src_Field env s name =
     (let h = req_http (se_req env)
      in if name = ''uri'' then (http_uri h, s)
         else if name = ''request_uri'' then
           (if args_size h = 0 then (http_uri h, s)
            else case rawArgs env s of
              (Some raw, s) \<Rightarrow> (if raw \<noteq> [] then http_uri h @ ''?'' @ raw else http_uri h, s)
            | (None, s) \<Rightarrow> (http_uri h, s))
         else if name = ''host'' then (http_host h, s)
         else if name = ''request_method'' then (http_method h, s)
         else if name = ''scheme'' then (http_scheme h, s)
         else if name = ''remote_addr'' then (client_ip (req_conn (se_req env)), s)
         else ([], s))"

definition source_ops_of :: "source_env \<Rightarrow> source source_ops" where
  "source_ops_of env =
     \<lparr>src_field = src_Field env, src_var = src_Var env, src_headers = src_Headers env,
      src_cookies = src_Cookies env, src_args = src_Args env\<rparr>"

section \<open>The view of a request\<close>

text \<open>What the operations answer, whenever and however often they are asked.\<close>

definition got :: "'a fetch \<Rightarrow> 'a option" where
  "got f = (case f of Got x \<Rightarrow> Some x | _ \<Rightarrow> None)"

definition faulty :: "'a fetch \<Rightarrow> bool" where
  "faulty f = (case f of Faulty _ \<Rightarrow> True | _ \<Rightarrow> False)"

definition field_view :: "source_env \<Rightarrow> string \<Rightarrow> string" where
  "field_view env name =
     (let h = req_http (se_req env)
      in if name = ''uri'' then http_uri h
         else if name = ''request_uri'' then
           (case got (fetch_raw env) of
              Some raw \<Rightarrow> if raw \<noteq> [] then http_uri h @ ''?'' @ raw else http_uri h
            | None \<Rightarrow> http_uri h)
         else if name = ''host'' then http_host h
         else if name = ''request_method'' then http_method h
         else if name = ''scheme'' then http_scheme h
         else if name = ''remote_addr'' then client_ip (req_conn (se_req env))
         else [])"

definition env_view :: "source_env \<Rightarrow> view" where
  "env_view env =
     \<lparr>vw_field = field_view env,
      vw_var = (\<lambda>n. case req_vars (se_req env) of None \<Rightarrow> None | Some vars \<Rightarrow> map_of vars n),
      vw_headers = got (fetch_headers env),
      vw_cookies = map_option (cookies_of (se_lib env)) (got (fetch_headers env)),
      vw_args = map_option args_of (got (fetch_raw env))\<rparr>"

definition loads_of :: "source \<Rightarrow> string \<Rightarrow> nat" where
  "loads_of s obj = length (filter (\<lambda>x. x = obj) (sr_loads s))"

text \<open>The invariant of a source: what was read is what the view says, what was not read is empty,
  the fault flag is exact, and an object was asked from the loader at most once.\<close>

definition memo_ok :: "bool \<Rightarrow> bool \<Rightarrow> 'a list \<Rightarrow> 'a list option \<Rightarrow> bool" where
  "memo_ok was_done ok x v \<longleftrightarrow> (if was_done then opt_if ok x = v else \<not> ok \<and> x = [])"

definition source_inv :: "source_env \<Rightarrow> source \<Rightarrow> bool" where
  "source_inv env s \<longleftrightarrow>
     memo_ok (sr_headersDone s) (sr_headersOK s) (sr_headers s) (got (fetch_headers env)) \<and>
     memo_ok (sr_rawDone s) (sr_rawOK s) (sr_raw s) (got (fetch_raw env)) \<and>
     memo_ok (sr_cookiesDone s) (sr_cookiesOK s) (sr_cookies s) (vw_cookies (env_view env)) \<and>
     memo_ok (sr_argsDone s) (sr_argsOK s) (sr_args s) (vw_args (env_view env)) \<and>
     (sr_Fault s \<longleftrightarrow> sr_headersDone s \<and> faulty (fetch_headers env) \<or> sr_rawDone s \<and> faulty (fetch_raw env)) \<and>
     loads_of s ''headers'' \<le> (if sr_headersDone s then 1 else 0) \<and>
     loads_of s ''args'' \<le> (if sr_rawDone s then 1 else 0)"

lemma source_inv_new: "source_inv env newSource"
  by (simp add: source_inv_def newSource_def loads_of_def memo_ok_def)

lemma got_simps [simp]:
  "got (Got x) = Some x" "got Absent = None" "got (Faulty w) = None"
  "\<not> faulty (Got x)" "\<not> faulty Absent" "faulty (Faulty w)"
  by (simp_all add: got_def faulty_def)

lemma memo_ok_simps [simp]:
  "memo_ok True ok x v \<longleftrightarrow> opt_if ok x = v" "memo_ok False ok x v \<longleftrightarrow> \<not> ok \<and> x = []"
  "opt_if True x = Some x" "opt_if False x = None"
  by (simp_all add: memo_ok_def opt_if_def)

lemma rawArgs_law:
  assumes "source_inv env s"
  shows "fst (rawArgs env s) = got (fetch_raw env) \<and> source_inv env (snd (rawArgs env s))"
proof (cases "sr_rawDone s")
  case True
  then show ?thesis using assms by (simp add: rawArgs_def source_inv_def)
next
  case False
  then show ?thesis
    using assms by (cases "fetch_raw env")
      (simp_all add: rawArgs_def source_inv_def loads_of_def asks_args_def)
qed

lemma Headers_law:
  assumes "source_inv env s"
  shows "fst (src_Headers env s) = got (fetch_headers env) \<and> source_inv env (snd (src_Headers env s))"
proof (cases "sr_headersDone s")
  case True
  then show ?thesis using assms by (simp add: src_Headers_def source_inv_def)
next
  case False
  then show ?thesis
    using assms by (cases "fetch_headers env")
      (simp_all add: src_Headers_def source_inv_def loads_of_def asks_headers_def)
qed

text \<open>Reading the headers leaves the cookies alone, and reading the query string the arguments.\<close>

lemma Headers_cookies:
  "sr_cookies (snd (src_Headers env s)) = sr_cookies s"
  "sr_cookiesOK (snd (src_Headers env s)) = sr_cookiesOK s"
  "sr_cookiesDone (snd (src_Headers env s)) = sr_cookiesDone s"
  "src_Headers env (s\<lparr>sr_cookiesDone := b\<rparr>) =
     (fst (src_Headers env s), (snd (src_Headers env s))\<lparr>sr_cookiesDone := b\<rparr>)"
  by (cases "fetch_headers env"; simp add: src_Headers_def)+

lemma rawArgs_args:
  "sr_args (snd (rawArgs env s)) = sr_args s"
  "sr_argsOK (snd (rawArgs env s)) = sr_argsOK s"
  "sr_argsDone (snd (rawArgs env s)) = sr_argsDone s"
  "rawArgs env (s\<lparr>sr_argsDone := b\<rparr>) = (fst (rawArgs env s), (snd (rawArgs env s))\<lparr>sr_argsDone := b\<rparr>)"
  by (cases "fetch_raw env"; simp add: rawArgs_def)+

lemma source_inv_cookies:
  assumes "source_inv env s"
    and "opt_if ok cs = vw_cookies (env_view env)"
  shows "source_inv env (s\<lparr>sr_cookiesDone := True, sr_cookiesOK := ok, sr_cookies := cs\<rparr>)"
  using assms by (simp add: source_inv_def loads_of_def)

lemma source_inv_args:
  assumes "source_inv env s"
    and "opt_if ok xs = vw_args (env_view env)"
  shows "source_inv env (s\<lparr>sr_argsDone := True, sr_argsOK := ok, sr_args := xs\<rparr>)"
  using assms by (simp add: source_inv_def loads_of_def)

lemma Cookies_law:
  assumes "source_inv env s"
  shows "fst (src_Cookies env s) = vw_cookies (env_view env) \<and> source_inv env (snd (src_Cookies env s))"
proof (cases "sr_cookiesDone s")
  case True
  then show ?thesis using assms by (simp add: src_Cookies_def source_inv_def)
next
  case False
  obtain h s1 where h: "src_Headers env s = (h, s1)" by (cases "src_Headers env s")
  note law = Headers_law [OF assms] and same = Headers_cookies(1-3) [of env s]
  have c: "sr_cookies s1 = []" "\<not> sr_cookiesOK s1"
    using assms False same by (auto simp: h source_inv_def)
  then have s1: "s1\<lparr>sr_cookiesDone := True\<rparr> = s1\<lparr>sr_cookiesDone := True, sr_cookiesOK := False, sr_cookies := []\<rparr>"
    by (cases s1) simp
  show ?thesis
  proof (cases h)
    case None
    then show ?thesis
      using False law s1 source_inv_cookies [of env s1 False "[]"]
      by (simp add: src_Cookies_def Headers_cookies(4) h env_view_def)
  next
    case (Some hs)
    then have "got (fetch_headers env) = Some hs" using law by (simp add: h)
    then show ?thesis
      using Some False law c source_inv_cookies [of env s1 True "cookies_of (se_lib env) hs"]
      by (simp add: src_Cookies_def Headers_cookies(4) h env_view_def)
  qed
qed

lemma Args_law:
  assumes "source_inv env s"
  shows "fst (src_Args env s) = vw_args (env_view env) \<and> source_inv env (snd (src_Args env s))"
proof (cases "sr_argsDone s")
  case True
  then show ?thesis using assms by (simp add: src_Args_def source_inv_def)
next
  case False
  obtain r s1 where r: "rawArgs env s = (r, s1)" by (cases "rawArgs env s")
  note law = rawArgs_law [OF assms] and same = rawArgs_args(1-3) [of env s]
  have c: "sr_args s1 = []" "\<not> sr_argsOK s1"
    using assms False same by (auto simp: r source_inv_def)
  then have s1: "s1\<lparr>sr_argsDone := True\<rparr> = s1\<lparr>sr_argsDone := True, sr_argsOK := False, sr_args := []\<rparr>"
    by (cases s1) simp
  show ?thesis
  proof (cases r)
    case None
    then show ?thesis
      using False law s1 source_inv_args [of env s1 False "[]"]
      by (simp add: src_Args_def rawArgs_args(4) r env_view_def)
  next
    case (Some raw)
    then have "got (fetch_raw env) = Some raw" using law by (simp add: r)
    then show ?thesis
      using Some False law c source_inv_args [of env s1 True "args_of raw"]
      by (simp add: src_Args_def rawArgs_args(4) r env_view_def)
  qed
qed

lemma Field_law:
  assumes "source_inv env s"
  shows "fst (src_Field env s n) = field_view env n \<and> source_inv env (snd (src_Field env s n))"
proof (cases "n = ''request_uri'' \<and> args_size (req_http (se_req env)) \<noteq> 0")
  case True
  obtain r s1 where "rawArgs env s = (r, s1)" by (cases "rawArgs env s")
  then show ?thesis
    using True rawArgs_law [OF assms]
    by (auto simp: src_Field_def field_view_def Let_def split: option.splits)
next
  case False
  then show ?thesis using assms by (auto simp: src_Field_def field_view_def Let_def fetch_raw_def)
qed

lemma Var_law: "src_Var env s n = (vw_var (env_view env) n, s)"
  by (auto simp: src_Var_def env_view_def split: option.splits)

interpretation src: source_view "source_ops_of env" "\<lambda>_. env_view env" "source_inv env" for env
proof unfold_locales
  fix s n assume i: "source_inv env s"
  show "fst (src_field (source_ops_of env) s n) = vw_field (env_view env) n \<and> env_view env = env_view env \<and>
      source_inv env (snd (src_field (source_ops_of env) s n))"
    using Field_law [OF i] by (simp add: source_ops_of_def env_view_def)
  show "fst (src_var (source_ops_of env) s n) = vw_var (env_view env) n \<and> env_view env = env_view env \<and>
      source_inv env (snd (src_var (source_ops_of env) s n))"
    using i by (simp add: source_ops_of_def Var_law)
next
  fix s assume i: "source_inv env s"
  show "fst (src_headers (source_ops_of env) s) = vw_headers (env_view env) \<and> env_view env = env_view env \<and>
      source_inv env (snd (src_headers (source_ops_of env) s))"
    using Headers_law [OF i] by (simp add: source_ops_of_def env_view_def)
  show "fst (src_cookies (source_ops_of env) s) = vw_cookies (env_view env) \<and> env_view env = env_view env \<and>
      source_inv env (snd (src_cookies (source_ops_of env) s))"
    using Cookies_law [OF i] by (simp add: source_ops_of_def)
  show "fst (src_args (source_ops_of env) s) = vw_args (env_view env) \<and> env_view env = env_view env \<and>
      source_inv env (snd (src_args (source_ops_of env) s))"
    using Args_law [OF i] by (simp add: source_ops_of_def)
qed

end
