(* ===== verification/Config.thy ===== *)
theory Config
  imports Go_Time
begin

text \<open>
  \<open>internal/config\<close>: the settings of the inspector, from the environment (\<open>config.go\<close>), the file
  \<open>inspector.conf\<close> (\<open>file.go\<close>) and the log shipping switches (\<open>logship.go\<close>). The operating
  system and the packages the loader only calls are the fields of \<open>os_env\<close>: the environment
  variables, the files, \<open>filepath.Abs\<close>, \<open>os.Stat\<close>, the number of processors, the log levels,
  \<open>url.Parse\<close> (scheme and host) and \<open>unicode.IsLetter\<close> with \<open>IsDigit\<close> on names that are not ASCII.
\<close>

record os_env =
  oe_lib :: go_lib
  oe_vars :: "string \<Rightarrow> string option"
  oe_is_file :: "string \<Rightarrow> bool"
  oe_read :: "string \<Rightarrow> string option"
  oe_abs :: "string \<Rightarrow> string option"
  oe_is_dir :: "string \<Rightarrow> bool option"
  oe_procs :: int
  oe_level :: "string \<Rightarrow> int option"
  oe_url :: "string \<Rightarrow> (string \<times> string) option"
  oe_uni_name :: "string \<Rightarrow> bool"
  oe_hostname :: "string option"

section \<open>The file \<open>inspector.conf\<close>\<close>

abbreviation QueueFullDrop :: string where "QueueFullDrop \<equiv> ''drop''"
abbreviation QueueFullWait :: string where "QueueFullWait \<equiv> ''wait''"
abbreviation QueueExpandOff :: string where "QueueExpandOff \<equiv> ''off''"
abbreviation QueueExpandAsk :: string where "QueueExpandAsk \<equiv> ''ask''"

record queueFile =
  qf_Max :: "int option"
  qf_Full :: string
  qf_Expand :: string
  qf_RedisURL :: string
  qf_RedisInternal :: string

definition queueFile_zero :: queueFile where
  "queueFile_zero = \<lparr>qf_Max = None, qf_Full = [], qf_Expand = [], qf_RedisURL = [], qf_RedisInternal = []\<rparr>"

datatype conf_fault =
    MissingSemicolon | EmptyDirective | DirectiveNoValue string | DirectiveName string | OneValue string
  | UnexpectedClose | UnknownBlock string | BlockTwice string | SetTwice string | BadMax string
  | BadFull string | BadExpand string | UnknownDirective string | RedisTwice string | RedisKey string
  | RedisURL string string | NotClosed string

datatype conf_err = ConfLine nat conf_fault | ConfUnreadable string

definition confText :: "string \<Rightarrow> string" where
  "confText line = TrimSpace (takeWhile (\<lambda>c. c \<noteq> CHR ''#'') line)"

definition requireSemicolon :: "string \<Rightarrow> (conf_fault, string) outcome" where
  "requireSemicolon text =
     (if \<not> HasSuffix text '';'' then Err MissingSemicolon else Ok (TrimSpace (TrimSuffix text '';'')))"

definition isConfName :: "os_env \<Rightarrow> string \<Rightarrow> bool" where
  "isConfName E s =
     (if s = [] then False
      else if is_ascii s then list_all (\<lambda>c. c = CHR ''_'' \<or> is_alnum c) s
      else oe_uni_name E s)"

definition splitDirective :: "os_env \<Rightarrow> string \<Rightarrow> (conf_fault, string \<times> string) outcome" where
  "splitDirective E stmt0 =
     (let stmt = TrimSpace stmt0
      in if stmt = [] then Err EmptyDirective
         else case Cut stmt (CHR '' '') of
           (key, rest, ok) \<Rightarrow>
             if \<not> ok then Err (DirectiveNoValue stmt)
             else if \<not> isConfName E key then Err (DirectiveName key)
             else let value = TrimSpace rest
             in if value = [] \<or> list_ex (\<lambda>c. c = CHR '' '' \<or> c = CHR 0x09) value then Err (OneValue key)
                else Ok (key, value))"

definition isRedisURL :: "os_env \<Rightarrow> string \<Rightarrow> bool" where
  "isRedisURL E s =
     (case oe_url E s of
        None \<Rightarrow> False
      | Some (scheme, host) \<Rightarrow> host \<noteq> [] \<and> (scheme = ''redis'' \<or> scheme = ''rediss''))"

record conf_state =
  cs_out :: queueFile
  cs_seen :: "string list"
  cs_block :: "(string \<times> nat) option"

definition parseRedisKey :: "os_env \<Rightarrow> string \<Rightarrow> conf_state \<Rightarrow> (conf_fault, conf_state) outcome" where
  "parseRedisKey E text s =
     obind (requireSemicolon text) (\<lambda>stmt. obind (splitDirective E stmt) (\<lambda>(key, value).
       let id' = ''redis.'' @ key
       in if id' \<in> set (cs_seen s) then Err (RedisTwice key)
          else let s = s\<lparr>cs_seen := id' # cs_seen s\<rparr>
          in if key \<noteq> ''url'' \<and> key \<noteq> ''internal'' then Err (RedisKey key)
             else if \<not> isRedisURL E value then Err (RedisURL key value)
             else if key = ''url'' then Ok (s\<lparr>cs_out := (cs_out s)\<lparr>qf_RedisURL := value\<rparr>\<rparr>)
             else Ok (s\<lparr>cs_out := (cs_out s)\<lparr>qf_RedisInternal := value\<rparr>\<rparr>)))"

text \<open>The switch over the directives.\<close>

definition set_directive :: "string \<Rightarrow> string \<Rightarrow> queueFile \<Rightarrow> (conf_fault, queueFile) outcome" where
  "set_directive key value out =
     (if key = ''queue_max'' then
        (case Atoi value of
           None \<Rightarrow> Err (BadMax value)
         | Some v \<Rightarrow> if v < 1 then Err (BadMax value) else Ok (out\<lparr>qf_Max := Some v\<rparr>))
      else if key = ''queue_full'' then
        (if value = QueueFullDrop \<or> value = QueueFullWait then Ok (out\<lparr>qf_Full := value\<rparr>) else Err (BadFull value))
      else if key = ''queue_expand'' then
        (if value = QueueExpandOff \<or> value = QueueExpandAsk then Ok (out\<lparr>qf_Expand := value\<rparr>)
         else Err (BadExpand value))
      else Err (UnknownDirective key))"

definition conf_line :: "os_env \<Rightarrow> nat \<Rightarrow> string \<Rightarrow> conf_state \<Rightarrow> (conf_fault, conf_state) outcome" where
  "conf_line E n line s =
     (let text = confText line
      in if text = [] then Ok s
         else case cs_block s of
           Some _ \<Rightarrow> if text = ''}'' then Ok (s\<lparr>cs_block := None\<rparr>) else parseRedisKey E text s
         | None \<Rightarrow>
             if text = ''}'' then Err UnexpectedClose
             else if snd (CutSuffix text ''{'') then
               (let head = TrimSpace (fst (CutSuffix text ''{''))
                in if head \<noteq> ''redis'' then Err (UnknownBlock head)
                   else if head \<in> set (cs_seen s) then Err (BlockTwice head)
                   else Ok (s\<lparr>cs_seen := head # cs_seen s, cs_block := Some (head, n)\<rparr>))
             else obind (requireSemicolon text) (\<lambda>stmt. obind (splitDirective E stmt) (\<lambda>(key, value).
               if key \<in> set (cs_seen s) then Err (SetTwice key)
               else obind (set_directive key value (cs_out s)) (\<lambda>out.
                 Ok (s\<lparr>cs_seen := key # cs_seen s, cs_out := out\<rparr>)))))"

fun conf_lines :: "os_env \<Rightarrow> nat \<Rightarrow> string list \<Rightarrow> conf_state \<Rightarrow> (conf_err, conf_state) outcome" where
  "conf_lines E n [] s = Ok s"
| "conf_lines E n (line # lines) s =
     obind (map_err (ConfLine n) (conf_line E n line s)) (conf_lines E (Suc n) lines)"

definition parseQueueFile :: "os_env \<Rightarrow> string \<Rightarrow> (conf_err, queueFile) outcome" where
  "parseQueueFile E src =
     obind (conf_lines E 1 (Split src (CHR 0x0A)) \<lparr>cs_out = queueFile_zero, cs_seen = [], cs_block = None\<rparr>) (\<lambda>s.
       case cs_block s of
         Some (block, opened) \<Rightarrow> Err (ConfLine opened (NotClosed block))
       | None \<Rightarrow> Ok (cs_out s))"

definition loadQueueFile :: "os_env \<Rightarrow> string \<Rightarrow> (conf_err, queueFile) outcome" where
  "loadQueueFile E path =
     (case oe_read E path of None \<Rightarrow> Err (ConfUnreadable path) | Some raw \<Rightarrow> parseQueueFile E raw)"

text \<open>A variable that is set to more than white space, trimmed.\<close>

definition env_trimmed :: "os_env \<Rightarrow> string \<Rightarrow> string option" where
  "env_trimmed E name =
     (case oe_vars E name of
        None \<Rightarrow> None
      | Some v \<Rightarrow> if TrimSpace v \<noteq> [] then Some (TrimSpace v) else None)"

definition confPath :: "os_env \<Rightarrow> string \<Rightarrow> string" where
  "confPath E envName =
     (case env_trimmed E envName of
        Some v \<Rightarrow> v
      | None \<Rightarrow>
          (case find (oe_is_file E) [''inspector.conf'', ''/app/inspector.conf''] of
             Some c \<Rightarrow> c
           | None \<Rightarrow> []))"

definition exchangeRedis :: "os_env \<Rightarrow> queueFile \<Rightarrow> string" where
  "exchangeRedis E file = (case env_trimmed E ''REDIS_URL'' of Some v \<Rightarrow> v | None \<Rightarrow> qf_RedisURL file)"

definition internalRedis :: "os_env \<Rightarrow> string \<Rightarrow> queueFile \<Rightarrow> string \<Rightarrow> string \<times> string" where
  "internalRedis E path file exchange =
     (case env_trimmed E ''REDIS_INTERNAL_URL'' of
        Some v \<Rightarrow> (v, ''REDIS_INTERNAL_URL'')
      | None \<Rightarrow>
          if qf_RedisInternal file \<noteq> [] then (qf_RedisInternal file, path)
          else if exchange \<noteq> [] then (exchange, ''exchange'')
          else ([], []))"

record queueSettings =
  qs_Max :: int
  qs_Full :: string
  qs_Expand :: string

definition applyQueueFile :: "queueSettings \<Rightarrow> queueFile \<Rightarrow> queueSettings" where
  "applyQueueFile c file =
     (let c = (case qf_Max file of None \<Rightarrow> c | Some m \<Rightarrow> c\<lparr>qs_Max := m\<rparr>);
          c = (if qf_Full file \<noteq> [] then c\<lparr>qs_Full := qf_Full file\<rparr> else c)
      in if qf_Expand file \<noteq> [] then c\<lparr>qs_Expand := qf_Expand file\<rparr> else c)"

definition envOverride :: "os_env \<Rightarrow> string \<Rightarrow> string \<Rightarrow> string" where
  "envOverride E name current = (case env_trimmed E name of Some v \<Rightarrow> v | None \<Rightarrow> current)"

section \<open>The environment\<close>

datatype config_err =
    EnvInt string | EnvDuration string | EnvNotPositive string | EnvLevel | ConfFile conf_err
  | NoServers | EmptyName | WorkersNotPositive int | QueueMaxNotPositive int | QueueFullWord string
  | QueueExpandWord string | NegativeMS | NoVersions | ProfilesDirBad | DataDirBad

definition go_env :: "os_env \<Rightarrow> string \<Rightarrow> string \<Rightarrow> string" where
  "go_env E name def = (case oe_vars E name of Some v \<Rightarrow> if v \<noteq> [] then v else def | None \<Rightarrow> def)"

text \<open>The value of a variable that is set and not empty.\<close>

definition env_raw :: "os_env \<Rightarrow> string \<Rightarrow> string option" where
  "env_raw E name = (case oe_vars E name of Some v \<Rightarrow> if v = [] then None else Some v | None \<Rightarrow> None)"

definition envIntIfSet :: "os_env \<Rightarrow> string \<Rightarrow> int \<Rightarrow> (config_err, int) outcome" where
  "envIntIfSet E name def =
     (case env_raw E name of
        None \<Rightarrow> Ok def
      | Some raw \<Rightarrow> (case Atoi (TrimSpace raw) of None \<Rightarrow> Err (EnvInt name) | Some v \<Rightarrow> Ok v))"

definition envInt :: "os_env \<Rightarrow> string \<Rightarrow> int \<Rightarrow> (config_err, int) outcome" where
  "envInt E name def = envIntIfSet E name def"

definition splitList :: "string \<Rightarrow> string list" where
  "splitList s = filter (\<lambda>p. p \<noteq> []) (map TrimSpace (Split s (CHR '','')))"

definition envIntList :: "os_env \<Rightarrow> string \<Rightarrow> int list \<Rightarrow> (config_err, int list) outcome" where
  "envIntList E name def =
     (case env_raw E name of
        None \<Rightarrow> Ok def
      | Some raw \<Rightarrow>
          for_each (\<lambda>_ part. case Atoi part of None \<Rightarrow> Err (EnvInt name) | Some v \<Rightarrow> Ok v) 0 (splitList raw))"

definition envDuration :: "os_env \<Rightarrow> string \<Rightarrow> duration \<Rightarrow> (config_err, duration) outcome" where
  "envDuration E name def =
     (case env_raw E name of
        None \<Rightarrow> Ok def
      | Some raw \<Rightarrow>
          (case ParseDuration (oe_lib E) (TrimSpace raw) of
             None \<Rightarrow> Err (EnvDuration name)
           | Some d \<Rightarrow> if d \<le> 0 then Err (EnvNotPositive name) else Ok d))"

definition parseLevel :: "os_env \<Rightarrow> string \<Rightarrow> (config_err, int) outcome" where
  "parseLevel E s = (case oe_level E s of None \<Rightarrow> Err EnvLevel | Some l \<Rightarrow> Ok l)"

record config =
  cf_Servers :: "string list"
  cf_Subject :: string
  cf_Name :: string
  cf_Queue :: string
  cf_ProfilesDir :: string
  cf_DataDir :: string
  cf_ReloadEvery :: duration
  cf_Workers :: int
  cf_QueueDepth :: int
  cf_QueueFull :: string
  cf_QueueExpand :: string
  cf_ConfPath :: string
  cf_ReserveMS :: int
  cf_MinBudgetMS :: int
  cf_Versions :: "int list"
  cf_LogLevel :: int
  cf_HeartbeatEvery :: duration
  cf_RedisURL :: string
  cf_InternalURL :: string
  cf_InternalFrom :: string
  cf_GeoAddr :: string
  cf_GeoTimeout :: duration
  cf_GeoNegMax :: int

text \<open>\<open>validate\<close> also makes the two directories absolute.\<close>

definition validate :: "os_env \<Rightarrow> config \<Rightarrow> (config_err, config) outcome" where
  "validate E c =
     (if cf_Servers c = [] then Err NoServers
      else if cf_Subject c = [] \<or> cf_Name c = [] \<or> cf_Queue c = [] then Err EmptyName
      else if cf_Workers c < 1 then Err (WorkersNotPositive (cf_Workers c))
      else if cf_QueueDepth c < 1 then Err (QueueMaxNotPositive (cf_QueueDepth c))
      else if cf_QueueFull c \<noteq> QueueFullDrop \<and> cf_QueueFull c \<noteq> QueueFullWait
        then Err (QueueFullWord (cf_QueueFull c))
      else if cf_QueueExpand c \<noteq> QueueExpandOff \<and> cf_QueueExpand c \<noteq> QueueExpandAsk
        then Err (QueueExpandWord (cf_QueueExpand c))
      else if cf_ReserveMS c < 0 \<or> cf_MinBudgetMS c < 0 then Err NegativeMS
      else if cf_Versions c = [] then Err NoVersions
      else case oe_abs E (cf_ProfilesDir c) of
        None \<Rightarrow> Err ProfilesDirBad
      | Some dir \<Rightarrow>
          if oe_is_dir E dir \<noteq> Some True then Err ProfilesDirBad
          else let data0 = (if cf_DataDir c = [] then dir @ ''.applied'' else cf_DataDir c)
          in case oe_abs E data0 of
               None \<Rightarrow> Err DataDirBad
             | Some data \<Rightarrow> Ok (c\<lparr>cf_ProfilesDir := dir, cf_DataDir := data\<rparr>))"

definition queue_defaults :: queueSettings where
  "queue_defaults = \<lparr>qs_Max = 256, qs_Full = QueueFullDrop, qs_Expand = QueueExpandOff\<rparr>"

text \<open>The file and what it makes of the queue settings.\<close>

definition load_file :: "os_env \<Rightarrow> (config_err, queueFile \<times> queueSettings) outcome" where
  "load_file E =
     (if confPath E ''WAF_ACTION_CONF'' = [] then Ok (queueFile_zero, queue_defaults)
      else obind (map_err ConfFile (loadQueueFile E (confPath E ''WAF_ACTION_CONF''))) (\<lambda>file.
        Ok (file, applyQueueFile queue_defaults file)))"

definition Load_config :: "os_env \<Rightarrow> (config_err, config) outcome" where
  "Load_config E =
     (let name = go_env E ''WAF_ACTION_NAME'' ''action''
      in obind (envInt E ''WAF_ACTION_WORKERS'' (oe_procs E)) (\<lambda>workers.
         obind (load_file E) (\<lambda>(file, q).
         let redis = exchangeRedis E file;
             (internal, from) = internalRedis E (confPath E ''WAF_ACTION_CONF'') file redis
         in obind (envIntIfSet E ''WAF_ACTION_QUEUE_DEPTH'' (qs_Max q)) (\<lambda>depth.
         obind (envInt E ''WAF_ACTION_RESERVE_MS'' 1) (\<lambda>reserve.
         obind (envInt E ''WAF_ACTION_MIN_BUDGET_MS'' 1) (\<lambda>minBudget.
         obind (envIntList E ''WAF_ACTION_VERSIONS'' [2]) (\<lambda>versions.
         obind (parseLevel E (go_env E ''WAF_ACTION_LOG'' ''info'')) (\<lambda>level.
         obind (envDuration E ''WAF_HEARTBEAT_EVERY'' (4 * Second)) (\<lambda>heartbeat.
         obind (envDuration E ''WAF_ACTION_RELOAD_EVERY'' Second) (\<lambda>reload.
         obind (envDuration E ''WAF_ACTION_GEO_TIMEOUT'' (500 * Millisecond)) (\<lambda>geoTimeout.
         obind (envInt E ''WAF_ACTION_GEO_NEG_MAX'' 0) (\<lambda>geoNeg.
           validate E
             \<lparr>cf_Servers = splitList (go_env E ''NATS_URL'' ''nats://127.0.0.1:4222''),
              cf_Subject = go_env E ''WAF_ACTION_SUBJECT'' ''waf.req.action'', cf_Name = name,
              cf_Queue = go_env E ''WAF_ACTION_QUEUE'' name,
              cf_ProfilesDir = go_env E ''WAF_ACTION_PROFILES'' ''./profiles'',
              cf_DataDir = go_env E ''WAF_ACTION_DATA'' [], cf_ReloadEvery = reload, cf_Workers = workers,
              cf_QueueDepth = depth, cf_QueueFull = envOverride E ''WAF_ACTION_QUEUE_FULL'' (qs_Full q),
              cf_QueueExpand = envOverride E ''WAF_ACTION_QUEUE_EXPAND'' (qs_Expand q),
              cf_ConfPath = confPath E ''WAF_ACTION_CONF'', cf_ReserveMS = reserve, cf_MinBudgetMS = minBudget,
              cf_Versions = versions, cf_LogLevel = level, cf_HeartbeatEvery = heartbeat, cf_RedisURL = redis,
              cf_InternalURL = internal, cf_InternalFrom = from, cf_GeoAddr = go_env E ''WAF_ACTION_GEO_ADDR'' [],
              cf_GeoTimeout = geoTimeout, cf_GeoNegMax = geoNeg\<rparr>))))))))))))"

definition Supports :: "config \<Rightarrow> int \<Rightarrow> bool" where
  "Supports c v = list_ex (\<lambda>known. known = v) (cf_Versions c)"

section \<open>Log shipping\<close>

definition LogShip :: "os_env \<Rightarrow> bool" where
  "LogShip E =
     (let w = ToLower (oe_lib E) (TrimSpace (case oe_vars E ''WAF_LOG_SHIP'' of None \<Rightarrow> [] | Some v \<Rightarrow> v))
      in \<not> (w = ''off'' \<or> w = ''0'' \<or> w = ''no'' \<or> w = ''false''))"

definition LogWriter :: "os_env \<Rightarrow> string \<Rightarrow> string" where
  "LogWriter E fallback =
     (case env_trimmed E ''WAF_LOG_WRITER'' of
        Some v \<Rightarrow> v
      | None \<Rightarrow> (case oe_hostname E of Some name \<Rightarrow> if name \<noteq> [] then name else fallback | None \<Rightarrow> fallback))"

end
