(* ===== verification/Queue_Pool.thy ===== *)
theory Queue_Pool
  imports Protocol Go_Time "HOL-Library.Multiset"
begin

text \<open>
  \<open>internal/queue\<close>: the bounded queue of requests and its workers. The critical sections under
  the mutex are functions on the record \<open>pool\<close>; the goroutines (the callers of \<open>Submit\<close>, the
  workers, the sweeper) are the values of \<open>thread\<close>, one constructor per place where a goroutine
  can be between two critical sections; \<open>step\<close> is the interleaving of their steps. A sleeping
  thread is one in the wait set of the condition variable: \<open>Signal\<close> wakes one of them, any,
  and \<open>Broadcast\<close> all. The clock is read anew in every step and may return anything.

  A task is a pointer in the code; \<open>t_id\<close> stands for its identity. \<open>sy_log\<close> records the calls of
  the handler, and \<open>sy_submitted\<close>, \<open>sy_accepted\<close>, \<open>sy_popped\<close> the tasks that entered \<open>Submit\<close>,
  the queue, and a worker.
\<close>

section \<open>The pool and its critical sections\<close>

abbreviation ReasonQueueLimit :: string where "ReasonQueueLimit \<equiv> ''ACTION_QUEUE_LIMIT''"
abbreviation ReasonDeadlineExceeded :: string where "ReasonDeadlineExceeded \<equiv> ''ACTION_DEADLINE_EXCEEDED''"
abbreviation FullDrop :: string where "FullDrop \<equiv> ''drop''"
abbreviation FullWait :: string where "FullWait \<equiv> ''wait''"

record task =
  t_id :: nat
  t_req :: request
  t_reply :: string
  t_fill :: int
  t_enqueued :: int

record pool =
  pl_q :: "task list"
  pl_depth :: int
  pl_closed :: bool
  pl_stop :: bool
  pl_full :: string
  pl_reserve :: duration
  pl_minBudget :: duration
  pl_Accepted :: int
  pl_Shed :: int
  pl_Expired :: int

definition New :: "int \<Rightarrow> int \<Rightarrow> int \<Rightarrow> string \<Rightarrow> pool" where
  "New depth reserveMS minBudgetMS full =
     \<lparr>pl_q = [], pl_depth = (if depth < 1 then 1 else depth), pl_closed = False, pl_stop = False,
      pl_full = (if full = [] then FullDrop else full),
      pl_reserve = wrap64 (reserveMS * Millisecond), pl_minBudget = wrap64 (minBudgetMS * Millisecond),
      pl_Accepted = 0, pl_Shed = 0, pl_Expired = 0\<rparr>"

text \<open>\<open>time.Time.Sub\<close> saturates.\<close>

definition time_sub :: "int \<Rightarrow> int \<Rightarrow> duration" where
  "time_sub a b = max (- (2 ^ 63)) (min (2 ^ 63 - 1) (a - b))"

definition leftAt :: "pool \<Rightarrow> task \<Rightarrow> int \<Rightarrow> duration" where
  "leftAt p t now =
     wrap64 (wrap64 (wrap64 (req_deadline_ms (t_req t) * Millisecond) - time_sub now (t_enqueued t)) - pl_reserve p)"

definition fillLocked :: "pool \<Rightarrow> int" where
  "fillLocked p =
     (if int (length (pl_q p)) \<ge> pl_depth p then 100 else int (length (pl_q p)) * 100 div pl_depth p)"

definition enqueueLocked :: "pool \<Rightarrow> task \<Rightarrow> pool" where
  "enqueueLocked p t = p\<lparr>pl_q := pl_q p @ [t], pl_Accepted := pl_Accepted p + 1\<rparr>"

definition takeExpiredLocked :: "pool \<Rightarrow> int \<Rightarrow> task list \<times> pool" where
  "takeExpiredLocked p now =
     (filter (\<lambda>t. leftAt p t now < pl_minBudget p) (pl_q p),
      p\<lparr>pl_q := filter (\<lambda>t. \<not> leftAt p t now < pl_minBudget p) (pl_q p)\<rparr>)"

datatype submit_result = Expire task duration | ShedLimit task | Enqueued | Wait task

text \<open>\<open>Submit\<close> under the lock, with the entry of \<open>submitWaitLocked\<close>.\<close>

definition submit_locked :: "pool \<Rightarrow> task \<Rightarrow> int \<Rightarrow> submit_result \<times> pool \<times> task" where
  "submit_locked p t now =
     (if pl_closed p then (Expire t 0, p, t)
      else let t = t\<lparr>t_fill := fillLocked p\<rparr>
      in if int (length (pl_q p)) < pl_depth p then (Enqueued, enqueueLocked p t, t)
         else if pl_full p = FullWait then
           (if leftAt p t now < pl_minBudget p then (Expire t (leftAt p t now), p, t) else (Wait t, p, t))
         else (ShedLimit t, p, t))"

datatype wait_result = WaitDead "task list" | WaitSleep | WaitExpire | WaitEnqueued

text \<open>One round of the loop of \<open>submitWaitLocked\<close>, or what follows it.\<close>

definition wait_round :: "pool \<Rightarrow> task \<Rightarrow> bool \<Rightarrow> int \<Rightarrow> wait_result \<times> pool" where
  "wait_round p t timedOut now =
     (if int (length (pl_q p)) \<ge> pl_depth p \<and> \<not> timedOut \<and> \<not> pl_closed p then
        (case takeExpiredLocked p now of
           (dead, p') \<Rightarrow> if dead \<noteq> [] then (WaitDead dead, p') else (WaitSleep, p'))
      else if pl_closed p then (WaitExpire, p)
      else if int (length (pl_q p)) < pl_depth p then (WaitEnqueued, enqueueLocked p t)
      else (WaitExpire, p))"

datatype pop_result = Popped task "task list" | PopClosed "task list" | PopDead "task list" | PopSleep

definition pop_round :: "pool \<Rightarrow> int \<Rightarrow> pop_result \<times> pool" where
  "pop_round p now =
     (case takeExpiredLocked p now of
        (dead, p') \<Rightarrow>
          (case pl_q p' of
             t # ts \<Rightarrow> (Popped t dead, p'\<lparr>pl_q := ts\<rparr>)
           | [] \<Rightarrow>
               if pl_closed p' then (PopClosed dead, p')
               else if dead \<noteq> [] then (PopDead dead, p')
               else (PopSleep, p')))"

definition budget :: "pool \<Rightarrow> task \<Rightarrow> int \<Rightarrow> (duration \<times> string) \<times> pool" where
  "budget p t now =
     (let left = leftAt p t now
      in if left < pl_minBudget p
         then ((left, ReasonDeadlineExceeded), p\<lparr>pl_Expired := pl_Expired p + 1\<rparr>)
         else ((left, []), p))"

definition Queued :: "pool \<Rightarrow> int" where
  "Queued p = int (length (pl_q p))"

section \<open>Goroutines\<close>

datatype thread =
    SubStart task | SubCollect task | SubReply task "task list" | SubLock task
  | SubWait task bool | SubSleep task bool | SubWaitReply task bool "task list"
  | SubExpire task duration | SubShed task | SubDone
  | WorkPop | WorkSleep | WorkReply "task list" "task option" bool | WorkRun task | WorkDone
  | SweepTick | SweepReply "task list" | SweepDone

record answer =
  an_task :: task
  an_budget :: duration
  an_shed :: string

abbreviation an_id :: "answer \<Rightarrow> nat" where "an_id a \<equiv> t_id (an_task a)"

record system =
  sy_pool :: pool
  sy_threads :: "thread list"
  sy_log :: "answer list"
  sy_submitted :: "nat list"
  sy_accepted :: "nat list"
  sy_popped :: "nat list"

definition init :: "nat \<Rightarrow> pool \<Rightarrow> system" where
  "init workers p =
     \<lparr>sy_pool = p, sy_threads = SweepTick # replicate workers WorkPop, sy_log = [],
      sy_submitted = [], sy_accepted = [], sy_popped = []\<rparr>"

fun wake :: "thread \<Rightarrow> thread" where
  "wake WorkSleep = WorkPop"
| "wake (SubSleep t b) = SubWait t b"
| "wake th = th"

definition sleeping :: "thread \<Rightarrow> bool" where
  "sleeping th = (case th of WorkSleep \<Rightarrow> True | SubSleep _ _ \<Rightarrow> True | _ \<Rightarrow> False)"

text \<open>\<open>Signal\<close>: one sleeping thread is woken, if there is one.\<close>

definition signalled :: "thread list \<Rightarrow> thread list \<Rightarrow> bool" where
  "signalled ths ths' \<longleftrightarrow>
     (if \<exists>th \<in> set ths. sleeping th
      then \<exists>j < length ths. sleeping (ths ! j) \<and> ths' = ths[j := wake (ths ! j)]
      else ths' = ths)"

definition broadcast_if :: "bool \<Rightarrow> thread list \<Rightarrow> thread list" where
  "broadcast_if b ths = (if b then map wake ths else ths)"

definition put :: "nat \<Rightarrow> thread \<Rightarrow> system \<Rightarrow> system" where
  "put i th s = s\<lparr>sy_threads := (sy_threads s)[i := th]\<rparr>"

text \<open>\<open>expire\<close> and \<open>shedLimit\<close>: count, and call the handler.\<close>

definition expire :: "task \<Rightarrow> duration \<Rightarrow> system \<Rightarrow> system" where
  "expire t left s =
     s\<lparr>sy_pool := (sy_pool s)\<lparr>pl_Expired := pl_Expired (sy_pool s) + 1\<rparr>,
       sy_log := sy_log s @ [\<lparr>an_task = t, an_budget = left, an_shed = ReasonDeadlineExceeded\<rparr>]\<rparr>"

definition shedLimit :: "task \<Rightarrow> system \<Rightarrow> system" where
  "shedLimit t s =
     s\<lparr>sy_pool := (sy_pool s)\<lparr>pl_Shed := pl_Shed (sy_pool s) + 1\<rparr>,
       sy_log := sy_log s @ [\<lparr>an_task = t, an_budget = 0, an_shed = ReasonQueueLimit\<rparr>]\<rparr>"

text \<open>A critical section that removes expired tasks ends with a broadcast when there were any;
  the tasks it took are the thread's to answer.\<close>

definition collect_to :: "nat \<Rightarrow> (task list \<Rightarrow> thread) \<Rightarrow> int \<Rightarrow> system \<Rightarrow> system" where
  "collect_to i f now s =
     (case takeExpiredLocked (sy_pool s) now of
        (dead, p') \<Rightarrow>
          put i (f dead) (s\<lparr>sy_pool := p', sy_threads := broadcast_if (dead \<noteq> []) (sy_threads s)\<rparr>))"

definition accept :: "nat \<Rightarrow> task \<Rightarrow> pool \<Rightarrow> thread list \<Rightarrow> system \<Rightarrow> system" where
  "accept i t p' ths s =
     put i SubDone (s\<lparr>sy_pool := p', sy_threads := ths, sy_accepted := sy_accepted s @ [t_id t]\<rparr>)"

text \<open>One task of \<open>replyDead\<close>, one tick of the sweeper, and the two moments of \<open>Close\<close> at which the
  others can run in between: the channel is closed first, the flag is set under the lock.\<close>

definition replyDead :: "task \<Rightarrow> system \<Rightarrow> system" where
  [simp]: "replyDead d s = expire d 0 s"

definition sweep :: "nat \<Rightarrow> int \<Rightarrow> system \<Rightarrow> system" where
  [simp]: "sweep i now s = collect_to i SweepReply now s"

definition Close_stop :: "system \<Rightarrow> system" where
  [simp]: "Close_stop s = s\<lparr>sy_pool := (sy_pool s)\<lparr>pl_stop := True\<rparr>\<rparr>"

definition Close_locked :: "system \<Rightarrow> system" where
  [simp]: "Close_locked s = s\<lparr>sy_pool := (sy_pool s)\<lparr>pl_closed := True\<rparr>, sy_threads := map wake (sy_threads s)\<rparr>"

definition work_next :: "pop_result \<Rightarrow> thread" where
  "work_next r =
     (case r of Popped t dead \<Rightarrow> WorkReply dead (Some t) True
      | PopClosed dead \<Rightarrow> WorkReply dead None False
      | PopDead dead \<Rightarrow> WorkReply dead None True
      | PopSleep \<Rightarrow> WorkSleep)"

definition pop_dead :: "pop_result \<Rightarrow> task list" where
  "pop_dead r =
     (case r of Popped t dead \<Rightarrow> dead | PopClosed dead \<Rightarrow> dead | PopDead dead \<Rightarrow> dead | PopSleep \<Rightarrow> [])"

definition pop_task :: "pop_result \<Rightarrow> task list" where
  "pop_task r = (case r of Popped t _ \<Rightarrow> [t] | _ \<Rightarrow> [])"

definition work_after :: "task option \<Rightarrow> bool \<Rightarrow> thread" where
  "work_after t ok = (if \<not> ok then WorkDone else case t of None \<Rightarrow> WorkPop | Some t \<Rightarrow> WorkRun t)"

inductive step :: "system \<Rightarrow> system \<Rightarrow> bool" where
  submit: "t_id t \<notin> set (sy_submitted s) \<Longrightarrow>
     step s (s\<lparr>sy_threads := sy_threads s @ [SubStart t], sy_submitted := sy_submitted s @ [t_id t]\<rparr>)"
| sub_start: "i < length (sy_threads s) \<Longrightarrow> sy_threads s ! i = SubStart t \<Longrightarrow> t' = t\<lparr>t_enqueued := now\<rparr> \<Longrightarrow>
     step s (put i (if leftAt (sy_pool s) t' now1 < pl_minBudget (sy_pool s)
                    then SubExpire t' (leftAt (sy_pool s) t' now2) else SubCollect t') s)"
| sub_collect: "i < length (sy_threads s) \<Longrightarrow> sy_threads s ! i = SubCollect t \<Longrightarrow>
     step s (collect_to i (SubReply t) now s)"
| sub_reply: "i < length (sy_threads s) \<Longrightarrow> sy_threads s ! i = SubReply t (d # ds) \<Longrightarrow>
     step s (put i (SubReply t ds) (replyDead d s))"
| sub_replied: "i < length (sy_threads s) \<Longrightarrow> sy_threads s ! i = SubReply t [] \<Longrightarrow>
     step s (put i (SubLock t) s)"
| sub_lock_expire: "i < length (sy_threads s) \<Longrightarrow> sy_threads s ! i = SubLock t \<Longrightarrow>
     submit_locked (sy_pool s) t now = (Expire t1 left, p', t') \<Longrightarrow>
     step s (put i (SubExpire t1 left) s)"
| sub_lock_shed: "i < length (sy_threads s) \<Longrightarrow> sy_threads s ! i = SubLock t \<Longrightarrow>
     submit_locked (sy_pool s) t now = (ShedLimit t1, p', t') \<Longrightarrow>
     step s (put i (SubShed t1) s)"
| sub_lock_wait: "i < length (sy_threads s) \<Longrightarrow> sy_threads s ! i = SubLock t \<Longrightarrow>
     submit_locked (sy_pool s) t now = (Wait t1, p', t') \<Longrightarrow>
     step s (put i (SubWait t1 False) s)"
| sub_lock_enqueue: "i < length (sy_threads s) \<Longrightarrow> sy_threads s ! i = SubLock t \<Longrightarrow>
     submit_locked (sy_pool s) t now = (Enqueued, p', t') \<Longrightarrow> signalled (sy_threads s) ths \<Longrightarrow>
     step s (accept i t' p' ths s)"
| sub_wait_dead: "i < length (sy_threads s) \<Longrightarrow> sy_threads s ! i = SubWait t b \<Longrightarrow>
     wait_round (sy_pool s) t b now = (WaitDead dead, p') \<Longrightarrow>
     step s (collect_to i (SubWaitReply t b) now s)"
| sub_wait_sleep: "i < length (sy_threads s) \<Longrightarrow> sy_threads s ! i = SubWait t b \<Longrightarrow>
     wait_round (sy_pool s) t b now = (WaitSleep, p') \<Longrightarrow>
     step s (put i (SubSleep t b) s)"
| sub_wait_expire: "i < length (sy_threads s) \<Longrightarrow> sy_threads s ! i = SubWait t b \<Longrightarrow>
     wait_round (sy_pool s) t b now = (WaitExpire, p') \<Longrightarrow>
     step s (put i (SubExpire t 0) s)"
| sub_wait_enqueue: "i < length (sy_threads s) \<Longrightarrow> sy_threads s ! i = SubWait t b \<Longrightarrow>
     wait_round (sy_pool s) t b now = (WaitEnqueued, p') \<Longrightarrow> signalled (sy_threads s) ths \<Longrightarrow>
     step s (accept i t p' ths s)"
| sub_wait_reply: "i < length (sy_threads s) \<Longrightarrow> sy_threads s ! i = SubWaitReply t b (d # ds) \<Longrightarrow>
     step s (put i (SubWaitReply t b ds) (replyDead d s))"
| sub_wait_replied: "i < length (sy_threads s) \<Longrightarrow> sy_threads s ! i = SubWaitReply t b [] \<Longrightarrow>
     step s (put i (SubWait t b) s)"
| timer: "i < length (sy_threads s) \<Longrightarrow> sy_threads s ! i \<in> {SubWait t b, SubSleep t b} \<Longrightarrow>
     step s (put i (SubWait t True) (s\<lparr>sy_threads := map wake (sy_threads s)\<rparr>))"
| timer_replying: "i < length (sy_threads s) \<Longrightarrow> sy_threads s ! i = SubWaitReply t b ds \<Longrightarrow>
     step s (put i (SubWaitReply t True ds) (s\<lparr>sy_threads := map wake (sy_threads s)\<rparr>))"
| timer_late: "step s (s\<lparr>sy_threads := map wake (sy_threads s)\<rparr>)"
| sub_expire: "i < length (sy_threads s) \<Longrightarrow> sy_threads s ! i = SubExpire t left \<Longrightarrow>
     step s (put i SubDone (expire t left s))"
| sub_shed: "i < length (sy_threads s) \<Longrightarrow> sy_threads s ! i = SubShed t \<Longrightarrow>
     step s (put i SubDone (shedLimit t s))"
| work_pop: "i < length (sy_threads s) \<Longrightarrow> sy_threads s ! i = WorkPop \<Longrightarrow>
     pop_round (sy_pool s) now = (r, p') \<Longrightarrow>
     step s (put i (work_next r)
       (s\<lparr>sy_pool := p', sy_popped := sy_popped s @ map t_id (pop_task r),
          sy_threads := broadcast_if (pop_task r \<noteq> [] \<or> pop_dead r \<noteq> []) (sy_threads s)\<rparr>))"
| work_reply: "i < length (sy_threads s) \<Longrightarrow> sy_threads s ! i = WorkReply (d # ds) t ok \<Longrightarrow>
     step s (put i (WorkReply ds t ok) (replyDead d s))"
| work_replied: "i < length (sy_threads s) \<Longrightarrow> sy_threads s ! i = WorkReply [] t ok \<Longrightarrow>
     step s (put i (work_after t ok) s)"
| work_run: "i < length (sy_threads s) \<Longrightarrow> sy_threads s ! i = WorkRun t \<Longrightarrow>
     budget (sy_pool s) t now = ((left, shed), p') \<Longrightarrow>
     step s (put i WorkPop
       (s\<lparr>sy_pool := p', sy_log := sy_log s @ [\<lparr>an_task = t, an_budget = left, an_shed = shed\<rparr>]\<rparr>))"
| sweep_tick: "i < length (sy_threads s) \<Longrightarrow> sy_threads s ! i = SweepTick \<Longrightarrow>
     step s (sweep i now s)"
| sweep_reply: "i < length (sy_threads s) \<Longrightarrow> sy_threads s ! i = SweepReply (d # ds) \<Longrightarrow>
     step s (put i (SweepReply ds) (replyDead d s))"
| sweep_replied: "i < length (sy_threads s) \<Longrightarrow> sy_threads s ! i = SweepReply [] \<Longrightarrow>
     step s (put i SweepTick s)"
| sweep_stop: "i < length (sy_threads s) \<Longrightarrow> sy_threads s ! i = SweepTick \<Longrightarrow> pl_stop (sy_pool s) \<Longrightarrow>
     step s (put i SweepDone s)"
| close_stop: "\<not> pl_stop (sy_pool s) \<Longrightarrow> step s (Close_stop s)"
| close: "pl_stop (sy_pool s) \<Longrightarrow> step s (Close_locked s)"

inductive reachable :: "nat \<Rightarrow> pool \<Rightarrow> system \<Rightarrow> bool" for workers p where
  start: "reachable workers p (init workers p)"
| further: "reachable workers p s \<Longrightarrow> step s s' \<Longrightarrow> reachable workers p s'"

end
