(* ===== verification/Handler.thy ===== *)
theory Handler
  imports Source Audit_Sink Config Queue_Pool
begin

text \<open>
  \<open>cmd/inspector/handler.go\<close> and \<open>lists.go\<close>: what becomes of a message of the bus. \<open>server\<close> is what
  the handler holds: the configuration, the snapshot of the profiles, the mirror behind the interface
  \<open>Sets\<close>, the object loader, and, as arguments, the coders, the geo resolver and \<open>netinfo.Networked\<close>.
  \<open>effects\<close> collects what the handler does to the outside: messages handed to \<open>nc.Publish\<close>, calls of the
  audit sink, and calls of the list publisher. Whether \<open>Publish\<close> succeeds is not in the model: the code
  logs its error and goes on in the same way. So are failures of the publisher only logged.

  A panic of the loader unwinds to \<open>recoverInto\<close>; nothing was published before it, so \<open>inspect\<close>
  decides it from the objects its evaluation asked for.
\<close>

section \<open>List writes\<close>

record list_call =
  lc_list :: string
  lc_values :: "string list"
  lc_ttl :: duration
  lc_reason :: string

fun write_loop ::
  "(string \<Rightarrow> bool) \<Rightarrow> (string \<Rightarrow> string \<Rightarrow> string + string list) \<Rightarrow> string \<Rightarrow> list_write list \<Rightarrow>
   string option \<Rightarrow> list_call list \<Rightarrow> string option \<times> list_call list" where
  "write_loop networked geo addr [] failed calls = (failed, calls)"
| "write_loop networked geo addr (w # ws) failed calls =
     (if networked (w_subject w) then
        (case geo (w_subject w) addr of
           Inr vs \<Rightarrow>
             if vs = [] then write_loop networked geo addr ws failed calls
             else write_loop networked geo addr ws failed
               (calls @ [\<lparr>lc_list = w_list w, lc_values = vs, lc_ttl = w_ttl w, lc_reason = w_reason w\<rparr>])
         | Inl e \<Rightarrow> write_loop networked geo addr ws (if failed = None then Some e else failed) calls)
      else write_loop networked geo addr ws failed
        (calls @ [\<lparr>lc_list = w_list w, lc_values = [addr], lc_ttl = w_ttl w, lc_reason = w_reason w\<rparr>]))"

definition writeLists ::
  "(string \<Rightarrow> bool) \<Rightarrow> (string \<Rightarrow> string \<Rightarrow> string + string list) \<Rightarrow> string \<Rightarrow> list_write list \<Rightarrow>
   string option \<times> list_call list" where
  "writeLists networked geo addr writes =
     (if addr = [] then (None, []) else write_loop networked geo addr writes None [])"

section \<open>The handler\<close>

abbreviation codeOK :: string where "codeOK \<equiv> ''ACTION_OK''"
abbreviation codeMalformedRequest :: string where "codeMalformedRequest \<equiv> ''ACTION_MALFORMED_REQUEST''"
abbreviation codeUnsupportedVersion :: string where "codeUnsupportedVersion \<equiv> ''ACTION_UNSUPPORTED_VERSION''"
abbreviation codeUnknownProfile :: string where "codeUnknownProfile \<equiv> ''ACTION_UNKNOWN_PROFILE''"
abbreviation codeProfileOff :: string where "codeProfileOff \<equiv> ''ACTION_PROFILE_OFF''"
abbreviation codeIdle :: string where "codeIdle \<equiv> ''ACTION_IDLE''"
abbreviation codeInternalError :: string where "codeInternalError \<equiv> ''ACTION_INTERNAL_ERROR''"
abbreviation codeStoreError :: string where "codeStoreError \<equiv> ''ACTION_STORE_ERROR''"
abbreviation codeGeoUnavailable :: string where "codeGeoUnavailable \<equiv> ''ACTION_GEO_UNAVAILABLE''"

record server =
  sv_lib :: go_lib
  sv_cfg :: config
  sv_profiles :: "(string \<times> profile) list"
  sv_sets :: "sets_ops option"
  sv_loader :: loader
  sv_lists :: bool
  sv_networked :: "string \<Rightarrow> bool"
  sv_geo :: "string \<Rightarrow> string \<Rightarrow> string + string list"
  sv_json_reply :: "reply \<Rightarrow> string option"
  sv_json_request :: "string \<Rightarrow> request option"
  sv_json_headers :: "string \<Rightarrow> header list option"
  sv_json_event :: "event \<Rightarrow> string option"
  sv_std_order :: "(string \<times> string) list"
  sv_obj_order :: "string list"
  sv_bus :: bool

record effects =
  ef_sent :: "(string \<times> string) list"
  ef_audit :: "add_call list"
  ef_lists :: "list_call list"

definition plain :: "request \<Rightarrow> string \<Rightarrow> reply" where
  "plain req code = (NewReply req VerdictAllow)\<lparr>rep_reason := Some \<lparr>reason_code = code, reason_class = []\<rparr>\<rparr>"

definition fallback :: "server \<Rightarrow> string \<Rightarrow> string \<Rightarrow> reply" where
  "fallback sv payload code = FallbackReply (SniffRID payload) (cf_Name (sv_cfg sv)) code"

definition publish :: "server \<Rightarrow> list_write list \<Rightarrow> request \<Rightarrow> string option \<times> list_call list" where
  "publish sv writes req =
     (if writes = [] \<or> \<not> sv_lists sv then (None, [])
      else writeLists (sv_networked sv) (sv_geo sv) (client_ip (req_conn req)) writes)"

text \<open>The payload of a reply: its encoding, or that of the fallback, or none.\<close>

definition payload_of :: "server \<Rightarrow> reply \<Rightarrow> string option" where
  "payload_of sv reply =
     (case Marshal (sv_json_reply sv) reply of
        Ok p \<Rightarrow> Some p
      | _ \<Rightarrow> (case Marshal (sv_json_reply sv) (FallbackReply (rep_rid reply) (rep_inspector reply) codeInternalError) of
                Ok p \<Rightarrow> Some p
              | _ \<Rightarrow> None))"

definition send :: "server \<Rightarrow> string \<Rightarrow> string \<Rightarrow> reply \<Rightarrow> request option \<Rightarrow> details \<Rightarrow> effects \<Rightarrow> effects" where
  "send sv ts subject reply req' det ef =
     (if subject = [] then ef
      else case payload_of sv reply of
        None \<Rightarrow> ef
      | Some p \<Rightarrow>
          ef\<lparr>ef_sent := ef_sent ef @ [(subject, p)],
             ef_audit := ef_audit ef @ [add_call (sv_bus sv) (sv_json_event sv) ts req' (Some reply) det]\<rparr>)"

definition recoverInto :: "server \<Rightarrow> string \<Rightarrow> string \<Rightarrow> string \<Rightarrow> effects \<Rightarrow> effects" where
  "recoverInto sv ts subject rid ef =
     (if subject = [] then ef
      else send sv ts subject (FallbackReply rid (cf_Name (sv_cfg sv)) codeInternalError) None no_details ef)"

subsection \<open>Evaluation of a request\<close>

definition load_total :: "server \<Rightarrow> locator \<Rightarrow> body" where
  "load_total sv loc = (case Load (sv_loader sv) (Some loc) of Ok b \<Rightarrow> b | _ \<Rightarrow> body_zero)"

definition request_env :: "server \<Rightarrow> request \<Rightarrow> source_env" where
  "request_env sv req =
     \<lparr>se_lib = sv_lib sv, se_req = req, se_load = load_total sv, se_json = sv_json_headers sv,
      se_order = sv_std_order sv\<rparr>"

definition load_panicked :: "server \<Rightarrow> request \<Rightarrow> source \<Rightarrow> bool" where
  "load_panicked sv req s = list_ex (\<lambda>obj. Load (sv_loader sv) (store_object (req_store req) obj) = Panic) (sr_loads s)"

definition eval_env_of :: "server \<Rightarrow> request \<Rightarrow> profile \<Rightarrow> source eval_env" where
  "eval_env_of sv req p =
     \<lparr>en_lib = sv_lib sv, en_ops = source_ops_of (request_env sv req), en_sets = sv_sets sv, en_conds = p_conditions p\<rparr>"

definition start_evaluator :: "server \<Rightarrow> request \<Rightarrow> profile \<Rightarrow> (source eval_env \<times> source evaluator) option" where
  "start_evaluator sv req p =
     (if p_conditions p = [] then None else Some (eval_env_of sv req p, NewEvaluator newSource))"

definition engine_of ::
  "profile \<Rightarrow> collected \<Rightarrow> (source eval_env \<times> source evaluator) option \<Rightarrow> engine" where
  "engine_of p c ev =
     [(''profile'', EngText (p_name p)), (''mode'', EngText (p_mode p)), (''rules'', EngNames (snd (snd c))),
      (''actions'', EngCount (length (fst c)))] @
     (if fst (snd c) \<noteq> [] then [(''lists'', EngCount (length (fst (snd c))))] else []) @
     (case ev of None \<Rightarrow> []
      | Some (E, e) \<Rightarrow>
          (if Evaluated e \<noteq> [] then [(''conditions'', EngResults (Evaluated e))] else []) @
          (if ev_notes e \<noteq> [] then [(''notes'', EngNotes (ev_notes e))] else []))"

definition engine_details :: "int \<Rightarrow> engine \<Rightarrow> details" where
  "engine_details ms eng = \<lparr>det_engineMS = ms, det_findings = None, det_engine = Some eng\<rparr>"

definition inspect ::
  "server \<Rightarrow> int \<Rightarrow> request \<Rightarrow> int \<Rightarrow> (unit, reply \<times> details \<times> list_call list) outcome" where
  "inspect sv ms req fill =
     (case map_of (sv_profiles sv) (route_profile (req_route req)) of
        None \<Rightarrow> Ok (ErrorReply req codeUnknownProfile, no_details, [])
      | Some p \<Rightarrow>
          if p_mode p = ModeOff then Ok (plain req codeProfileOff, no_details, [])
          else case Collect (sv_lib sv) p (start_evaluator sv req p) (http_method (req_http req)) (http_uri (req_http req)) of
            (c0, ev) \<Rightarrow>
              let c = (if req_phase req = PhaseRequest then add_up c0 (CollectOverload p fill False) else c0);
                  eng = engine_of p c ev;
                  src = map_option (\<lambda>(E, e). ev_src e) ev
              in if (case src of Some s \<Rightarrow> load_panicked sv req s | None \<Rightarrow> False) then Panic
                 else if (case src of Some s \<Rightarrow> sr_Fault s | None \<Rightarrow> False)
                   then Ok (ErrorReply req codeStoreError,
                            engine_details ms (eng @ [(''store'', EngText (sr_Why (the src)))]), [])
                 else (case publish sv (fst (snd c)) req of
                     (Some err, calls) \<Rightarrow>
                       Ok (ErrorReply req codeGeoUnavailable, engine_details ms (eng @ [(''geo'', EngText err)]), calls)
                   | (None, calls) \<Rightarrow>
                       Ok ((plain req codeOK)\<lparr>rep_actions := fst c\<rparr>, engine_details ms eng, calls)))"

definition overloadOnShed ::
  "server \<Rightarrow> task \<Rightarrow> string \<Rightarrow> reply \<Rightarrow> engine \<Rightarrow> reply \<times> engine \<times> list_call list" where
  "overloadOnShed sv t shed reply eng =
     (if shed \<noteq> ReasonQueueLimit \<or> req_phase (t_req t) \<noteq> PhaseRequest then (reply, eng, [])
      else case map_of (sv_profiles sv) (route_profile (req_route (t_req t))) of
        None \<Rightarrow> (reply, eng, [])
      | Some p \<Rightarrow>
          if p_mode p = ModeOff then (reply, eng, [])
          else case CollectOverload p (t_fill t) True of
            (actions, writes, names) \<Rightarrow>
              if names = [] then (reply, eng, [])
              else let eng = eng @ [(''rules'', EngNames names)]
              in case publish sv writes (t_req t) of
                   (err, calls) \<Rightarrow>
                     (reply\<lparr>rep_actions := actions\<rparr>,
                      (case err of None \<Rightarrow> eng | Some e \<Rightarrow> eng @ [(''geo'', EngText e)]), calls))"

definition evaluate :: "server \<Rightarrow> string \<Rightarrow> int \<Rightarrow> task \<Rightarrow> string \<Rightarrow> effects \<Rightarrow> effects" where
  "evaluate sv ts ms t shed ef =
     (if shed \<noteq> [] then
        (case overloadOnShed sv t shed (ShedReply (t_req t) shed) [(''shed'', EngText shed)] of
           (reply, eng, calls) \<Rightarrow>
             send sv ts (t_reply t) reply (Some (t_req t)) \<lparr>det_engineMS = 0, det_findings = None, det_engine = Some eng\<rparr>
               (ef\<lparr>ef_lists := ef_lists ef @ calls\<rparr>))
      else (case inspect sv ms (t_req t) (t_fill t) of
          Ok (reply, det, calls) \<Rightarrow>
            send sv ts (t_reply t) reply (Some (t_req t)) det (ef\<lparr>ef_lists := ef_lists ef @ calls\<rparr>)
        | _ \<Rightarrow> recoverInto sv ts (t_reply t) (req_rid (t_req t)) ef))"

text \<open>A message of the bus: the effects, and the task submitted to the pool if there is one.\<close>

definition receive :: "server \<Rightarrow> string \<Rightarrow> nat \<Rightarrow> string \<Rightarrow> string \<Rightarrow> effects \<Rightarrow> effects \<times> task option" where
  "receive sv ts tid subject payload ef =
     (case Parse (sv_obj_order sv) (sv_json_request sv) payload of
        Ok req \<Rightarrow>
          if \<not> Supports (sv_cfg sv) (req_v req)
            then (send sv ts subject (plain req codeUnsupportedVersion) (Some req) no_details ef, None)
          else if req_release req \<noteq> None then (ef, None)
          else if req_phase req \<noteq> PhaseRequest then (send sv ts subject (plain req codeIdle) (Some req) no_details ef, None)
          else (ef, Some \<lparr>t_id = tid, t_req = req, t_reply = subject, t_fill = 0, t_enqueued = 0\<rparr>)
      | Err _ \<Rightarrow> (send sv ts subject (fallback sv payload codeMalformedRequest) None no_details ef, None)
      | Panic \<Rightarrow> (recoverInto sv ts subject [] ef, None))"

end
