(* ===== verification/Queue_Props.thy ===== *)
theory Queue_Props
  imports Queue_Pool
begin

text \<open>
  Invariants of the pool, by rule induction over the interleavings: no task is lost or answered
  twice, the queue keeps its bound, workers take the tasks in the order they were accepted, the
  counters count the answers, no wake-up is lost, and a worker stops only when the pool is closed
  and its queue is empty.
\<close>

section \<open>Threads and what they hold\<close>

fun held :: "thread \<Rightarrow> task list" where
  "held (SubStart t) = [t]"
| "held (SubCollect t) = [t]"
| "held (SubReply t ds) = t # ds"
| "held (SubLock t) = [t]"
| "held (SubWait t b) = [t]"
| "held (SubSleep t b) = [t]"
| "held (SubWaitReply t b ds) = t # ds"
| "held (SubExpire t left) = [t]"
| "held (SubShed t) = [t]"
| "held SubDone = []"
| "held WorkPop = []"
| "held WorkSleep = []"
| "held (WorkReply ds t ok) = (case t of None \<Rightarrow> ds | Some t \<Rightarrow> t # ds)"
| "held (WorkRun t) = [t]"
| "held WorkDone = []"
| "held SweepTick = []"
| "held (SweepReply ds) = ds"
| "held SweepDone = []"

text \<open>A task is known by its identity, its request and its reply subject, which no step changes.\<close>

type_synonym ticket = "nat \<times> request \<times> string"

definition ticket :: "task \<Rightarrow> ticket" where
  "ticket t = (t_id t, t_req t, t_reply t)"

lemma ticket_simps [simp]:
  "fst (ticket t) = t_id t" "snd (snd (ticket t)) = t_reply t"
  "ticket (t\<lparr>t_fill := n\<rparr>) = ticket t" "ticket (t\<lparr>t_enqueued := m\<rparr>) = ticket t"
  by (simp_all add: ticket_def)

definition ids :: "task list \<Rightarrow> ticket multiset" where
  "ids ts = mset (map ticket ts)"

definition thread_ids :: "thread list \<Rightarrow> ticket multiset" where
  "thread_ids ths = ids (concat (map held ths))"

definition answered :: "system \<Rightarrow> ticket multiset" where
  "answered s = mset (map (\<lambda>a. ticket (an_task a)) (sy_log s))"

lemma ids_simps [simp]:
  "ids [] = {#}" "ids (t # ts) = add_mset (ticket t) (ids ts)" "ids (ts @ us) = ids ts + ids us"
  by (simp_all add: ids_def)

lemma ids_filter: "ids (filter P ts) + ids (filter (\<lambda>t. \<not> P t) ts) = ids ts"
  by (induction ts) auto

lemma held_wake [simp]: "held (wake th) = held th"
  by (cases th) auto

lemma thread_ids_wake [simp]: "thread_ids (map wake ths) = thread_ids ths"
  by (simp add: thread_ids_def comp_def)

lemma thread_ids_append [simp]: "thread_ids (ths @ [th]) = thread_ids ths + ids (held th)"
  by (simp add: thread_ids_def)

lemma thread_ids_update:
  "i < length ths \<Longrightarrow> thread_ids (ths[i := th]) + ids (held (ths ! i)) = thread_ids ths + ids (held th)"
proof (induction ths arbitrary: i)
  case (Cons x xs)
  then show ?case by (cases i) (auto simp: thread_ids_def ac_simps)
qed simp

lemma thread_ids_broadcast [simp]: "thread_ids (broadcast_if b ths) = thread_ids ths"
  by (simp add: broadcast_if_def)

lemma length_broadcast [simp]: "length (broadcast_if b ths) = length ths"
  by (simp add: broadcast_if_def)

lemma held_broadcast: "i < length ths \<Longrightarrow> held (broadcast_if b ths ! i) = held (ths ! i)"
  by (simp add: broadcast_if_def)

lemma signalled_length: "signalled ths ths' \<Longrightarrow> length ths' = length ths"
  by (auto simp: signalled_def split: if_splits)

lemma signalled_held: "signalled ths ths' \<Longrightarrow> i < length ths \<Longrightarrow> held (ths' ! i) = held (ths ! i)"
  by (auto simp: signalled_def nth_list_update split: if_splits)

lemma signalled_ids: "signalled ths ths' \<Longrightarrow> thread_ids ths' = thread_ids ths"
proof -
  assume s: "signalled ths ths'"
  have "map held ths' = map held ths"
    by (rule nth_equalityI) (use s in \<open>auto simp: signalled_length signalled_held\<close>)
  then show ?thesis by (simp add: thread_ids_def)
qed

section \<open>Critical sections\<close>

lemma takeExpired_ids:
  "takeExpiredLocked p now = (dead, p') \<Longrightarrow> ids dead + ids (pl_q p') = ids (pl_q p)"
  using ids_filter [of "\<lambda>t. leftAt p t now < pl_minBudget p" "pl_q p"] by (auto simp: takeExpiredLocked_def)

lemma submit_locked_cases:
  assumes "submit_locked p t now = (r, p', t')"
  shows "ticket t' = ticket t \<and>
    (case r of Expire t1 left \<Rightarrow> ticket t1 = ticket t \<and> p' = p
     | ShedLimit t1 \<Rightarrow> ticket t1 = ticket t \<and> p' = p
     | Enqueued \<Rightarrow> p' = enqueueLocked p t' \<and> int (length (pl_q p)) < pl_depth p \<and> \<not> pl_closed p
     | Wait t1 \<Rightarrow> ticket t1 = ticket t \<and> p' = p)"
  using assms by (auto simp: submit_locked_def Let_def split: if_splits)

lemma wait_round_enqueued:
  "wait_round p t b now = (WaitEnqueued, p') \<Longrightarrow>
     p' = enqueueLocked p t \<and> int (length (pl_q p)) < pl_depth p \<and> \<not> pl_closed p"
  by (auto simp: wait_round_def split: if_splits prod.splits)

lemma wait_round_sleep:
  "wait_round p t b now = (WaitSleep, p') \<Longrightarrow> int (length (pl_q p)) \<ge> pl_depth p \<and> \<not> pl_closed p"
  by (auto simp: wait_round_def split: if_splits prod.splits)

lemma pop_round_ids:
  "pop_round p now = (r, p') \<Longrightarrow> ids (pop_dead r) + ids (pop_task r) + ids (pl_q p') = ids (pl_q p)"
  using takeExpired_ids [of p now]
  by (auto simp: pop_round_def pop_dead_def pop_task_def split: prod.splits list.splits if_splits)

lemma held_work_next: "ids (held (work_next r)) = ids (pop_dead r) + ids (pop_task r)"
  by (cases r) (auto simp: work_next_def pop_dead_def pop_task_def)

lemma pop_round_pool:
  "pop_round p now = (r, p') \<Longrightarrow>
     pl_depth p' = pl_depth p \<and> pl_closed p' = pl_closed p \<and> pl_minBudget p' = pl_minBudget p \<and>
     length (pl_q p') \<le> length (pl_q p) \<and>
     pl_Accepted p' = pl_Accepted p \<and> pl_Expired p' = pl_Expired p \<and> pl_Shed p' = pl_Shed p"
  by (auto simp: pop_round_def takeExpiredLocked_def split: list.splits if_splits)
     (metis (no_types, lifting) Suc_leD length_Cons length_filter_le)

section \<open>No task is lost, none is answered twice\<close>

definition total :: "system \<Rightarrow> ticket multiset" where
  "total s = answered s + ids (pl_q (sy_pool s)) + thread_ids (sy_threads s)"

text \<open>Every task there is: answered, queued, or in the hands of a goroutine.\<close>

definition all_tasks :: "system \<Rightarrow> task list" where
  "all_tasks s = map an_task (sy_log s) @ pl_q (sy_pool s) @ concat (map held (sy_threads s))"

lemma total_tasks: "total s = mset (map ticket (all_tasks s))"
  by (simp add: total_def answered_def all_tasks_def ids_def thread_ids_def comp_def)

lemma total_image: "image_mset f (total s) = mset (map (\<lambda>t. f (ticket t)) (all_tasks s))"
  by (simp add: total_tasks multiset.map_comp comp_def)

lemma total_put:
  assumes "i < length (sy_threads s)" and "ids (held (sy_threads s ! i)) = ids (held th) + m"
  shows "total (put i th s) + m = total s"
  using thread_ids_update [OF assms(1), of th] assms(2)
  by (simp add: total_def put_def answered_def union_assoc union_lcomm union_commute)

lemma submitted_simps [simp]:
  "sy_submitted (put i th s) = sy_submitted s" "sy_submitted (expire t l s) = sy_submitted s"
  "sy_submitted (shedLimit t s) = sy_submitted s" "sy_submitted (accept i t p ths s) = sy_submitted s"
  "sy_submitted (collect_to i f now s) = sy_submitted s"
  by (simp_all add: put_def expire_def shedLimit_def accept_def collect_to_def split: prod.splits)

lemma total_put_same:
  "i < length (sy_threads s) \<Longrightarrow> ids (held (sy_threads s ! i)) = ids (held th) \<Longrightarrow> total (put i th s) = total s"
  using total_put [of i s th "{#}"] by simp

lemma total_expire [simp]: "total (expire t left s) = add_mset (ticket t) (total s)"
  by (simp add: total_def expire_def answered_def)

lemma total_shedLimit [simp]: "total (shedLimit t s) = add_mset (ticket t) (total s)"
  by (simp add: total_def shedLimit_def answered_def)

lemma total_put_answer:
  assumes "i < length (sy_threads s)" and "ids (held (sy_threads s ! i)) = add_mset (ticket d) (ids (held th))"
  shows "total (put i th (expire d left s)) = total s" and "total (put i th (shedLimit d s)) = total s"
  using total_put [of i "expire d left s" th "{#ticket d#}"] total_put [of i "shedLimit d s" th "{#ticket d#}"] assms
  by (simp_all add: expire_def [of d left s] shedLimit_def [of d s])
     (simp_all add: total_def answered_def put_def)

lemma total_collect:
  assumes "i < length (sy_threads s)" and "\<And>dead. ids (held (f dead)) = ids (held (sy_threads s ! i)) + ids dead"
  shows "total (collect_to i f now s) = total s"
proof -
  obtain dead p' where t: "takeExpiredLocked (sy_pool s) now = (dead, p')"
    by (cases "takeExpiredLocked (sy_pool s) now")
  let ?s = "s\<lparr>sy_pool := p', sy_threads := broadcast_if (dead \<noteq> []) (sy_threads s)\<rparr>"
  have "total ?s + ids dead = total s"
    using takeExpired_ids [OF t] by (simp add: total_def answered_def ac_simps)
  moreover have "total (put i (f dead) ?s) = total ?s + ids dead"
    using thread_ids_update [of i "sy_threads ?s" "f dead"] assms
    by (simp add: total_def put_def answered_def held_broadcast union_assoc union_lcomm)
  ultimately show ?thesis by (simp add: collect_to_def t)
qed

lemma total_accept:
  assumes "i < length (sy_threads s)" and "signalled (sy_threads s) ths"
    and "ids (held (sy_threads s ! i)) = {#ticket t#}" and "pl_q p' = pl_q (sy_pool s) @ [t]"
  shows "total (accept i t p' ths s) = total s"
proof -
  have "i < length ths" "ids (held (ths ! i)) = {#ticket t#}"
    using assms by (simp_all add: signalled_length signalled_held)
  then have "thread_ids (ths[i := SubDone]) + {#ticket t#} = thread_ids (sy_threads s)"
    using thread_ids_update [of i ths SubDone] signalled_ids [OF assms(2)] by simp
  then show ?thesis
    using assms(4) by (simp add: accept_def put_def total_def answered_def)
qed

lemma total_pop:
  assumes "i < length (sy_threads s)" and "sy_threads s ! i = WorkPop" and "pop_round (sy_pool s) now = (r, p')"
  shows "total (put i (work_next r) (s\<lparr>sy_pool := p', sy_popped := sy_popped s @ map t_id (pop_task r),
          sy_threads := broadcast_if b (sy_threads s)\<rparr>)) = total s"
proof -
  let ?ths = "broadcast_if b (sy_threads s)"
  have "thread_ids (?ths[i := work_next r]) = thread_ids (sy_threads s) + (ids (pop_dead r) + ids (pop_task r))"
    using thread_ids_update [of i ?ths "work_next r"] assms(1,2)
    by (simp add: held_broadcast held_work_next)
  then show ?thesis
    using pop_round_ids [OF assms(3)] by (simp add: put_def total_def answered_def ac_simps)
qed

lemma total_run:
  assumes "i < length (sy_threads s)" and "sy_threads s ! i = WorkRun t" and "pl_q p' = pl_q (sy_pool s)"
  shows "total (put i WorkPop (s\<lparr>sy_pool := p', sy_log := sy_log s @ [\<lparr>an_task = t, an_budget = left, an_shed = shed\<rparr>]\<rparr>)) = total s"
  using thread_ids_update [OF assms(1), of WorkPop] assms(2,3)
  by (simp add: total_def put_def answered_def)

lemma held_work_after: "ids (held (work_after t ok)) = ids (held (WorkReply [] (if ok then t else None) ok))"
  by (cases t) (auto simp: work_after_def)

text \<open>A worker that is to stop holds no task.\<close>

definition stop_ok :: "thread \<Rightarrow> bool" where
  "stop_ok th = (case th of WorkReply ds t ok \<Rightarrow> ok \<or> t = None | _ \<Rightarrow> True)"

definition stops_ok :: "system \<Rightarrow> bool" where
  "stops_ok s \<longleftrightarrow> (\<forall>th \<in> set (sy_threads s). stop_ok th)"

lemma stop_ok_wake [simp]: "stop_ok (wake th) = stop_ok th"
  by (cases th) (auto simp: stop_ok_def)

lemma set_update_all: "\<forall>x \<in> set xs. P x \<Longrightarrow> P y \<Longrightarrow> \<forall>x \<in> set (xs[i := y]). P x"
  using set_update_subset_insert [of xs i y] by auto

lemma stops_ok_put: "stops_ok s \<Longrightarrow> stop_ok th \<Longrightarrow> stops_ok (put i th s)"
  using set_update_all [of "sy_threads s" stop_ok th i] by (simp add: stops_ok_def put_def)

lemma stops_ok_fields [simp]:
  "stops_ok (expire d l s) = stops_ok s" "stops_ok (shedLimit d s) = stops_ok s"
  "stops_ok (s\<lparr>sy_pool := p\<rparr>) = stops_ok s"
  "stops_ok (s\<lparr>sy_pool := p, sy_log := lg\<rparr>) = stops_ok s"
  "stops_ok (s\<lparr>sy_pool := p, sy_threads := ths\<rparr>) = stops_ok (s\<lparr>sy_threads := ths\<rparr>)"
  "stops_ok (s\<lparr>sy_threads := map wake (sy_threads s)\<rparr>) = stops_ok s"
  "stops_ok (s\<lparr>sy_threads := broadcast_if b (sy_threads s)\<rparr>) = stops_ok s"
  by (auto simp: stops_ok_def expire_def shedLimit_def broadcast_if_def)

lemma signalled_stops:
  assumes "signalled ths ths'" and "\<forall>th \<in> set ths. stop_ok th"
  shows "\<forall>th \<in> set ths'. stop_ok th"
proof (cases "ths' = ths")
  case False
  then obtain j where "j < length ths" "ths' = ths[j := wake (ths ! j)]"
    using assms(1) by (auto simp: signalled_def split: if_splits)
  then show ?thesis using set_update_all [of ths stop_ok "wake (ths ! j)" j] assms(2) by simp
qed (use assms in simp)

lemma stops_ok_collect:
  assumes "stops_ok s" and "\<And>dead. stop_ok (f dead)"
  shows "stops_ok (collect_to i f now s)"
  using assms by (auto simp: collect_to_def intro!: stops_ok_put split: prod.splits)

lemma stops_ok_accept:
  "stops_ok s \<Longrightarrow> signalled (sy_threads s) ths \<Longrightarrow> stops_ok (accept i t p' ths s)"
  unfolding accept_def
  by (rule stops_ok_put) (use signalled_stops in \<open>simp_all add: stops_ok_def stop_ok_def\<close>)

lemma stops_ok_step: "step s s' \<Longrightarrow> stops_ok s \<Longrightarrow> stops_ok s'"
proof (induction rule: step.induct)
  case (work_pop i s now r p')
  then have "stops_ok (s\<lparr>sy_pool := p', sy_popped := sy_popped s @ map t_id (pop_task r),
      sy_threads := broadcast_if (pop_task r \<noteq> [] \<or> pop_dead r \<noteq> []) (sy_threads s)\<rparr>)"
    by (auto simp: stops_ok_def broadcast_if_def)
  then show ?case
    by (rule stops_ok_put) (cases r; simp add: work_next_def stop_ok_def)
next
  case (sub_lock_enqueue i s t now p' t' ths)
  then show ?case by (simp add: stops_ok_accept)
next
  case (sub_wait_enqueue i s t b now p' ths)
  then show ?case by (simp add: stops_ok_accept)
next
  case (work_reply i s d ds t ok)
  then have "stop_ok (WorkReply (d # ds) t ok)" by (metis nth_mem stops_ok_def)
  then show ?case using work_reply by (intro stops_ok_put) (simp_all add: stop_ok_def)
next
  case (submit t s)
  then show ?case by (simp add: stops_ok_def stop_ok_def)
qed (auto simp: stop_ok_def work_after_def intro!: stops_ok_put stops_ok_collect split: option.splits)

lemma total_step:
  assumes "step s s'" and "stops_ok s"
  shows "(\<exists>t. s' = s\<lparr>sy_threads := sy_threads s @ [SubStart t], sy_submitted := sy_submitted s @ [t_id t]\<rparr> \<and>
        t_id t \<notin> set (sy_submitted s)) \<or> sy_submitted s' = sy_submitted s \<and> total s' = total s"
  using assms
proof (induction rule: step.induct)
  case (sub_start i s t t' now now1 now2)
  then show ?case by (auto intro!: disjI2 total_put_same)
next
  case (sub_lock_enqueue i s t now p' t' ths)
  then have "ticket t' = ticket t \<and> p' = enqueueLocked (sy_pool s) t'" by (auto dest: submit_locked_cases)
  then have "total (accept i t' p' ths s) = total s"
    using sub_lock_enqueue by (intro total_accept) (simp_all add: enqueueLocked_def)
  then show ?case by simp
next
  case (sub_wait_enqueue i s t b now p' ths)
  then have "p' = enqueueLocked (sy_pool s) t" by (auto dest: wait_round_enqueued)
  then have "total (accept i t p' ths s) = total s"
    using sub_wait_enqueue by (intro total_accept) (simp_all add: enqueueLocked_def)
  then show ?case by simp
next
  case (work_pop i s now r p')
  from total_pop [OF this(1-3)] show ?case by simp
next
  case (work_run i s t now left shed p')
  then have "pl_q p' = pl_q (sy_pool s)" by (auto simp: budget_def Let_def split: if_splits)
  from total_run [OF work_run(1,2) this] show ?case by simp
next
  case (timer i s t b)
  have "total (put i (SubWait t True) (s\<lparr>sy_threads := map wake (sy_threads s)\<rparr>)) =
      total (s\<lparr>sy_threads := map wake (sy_threads s)\<rparr>)"
    by (rule total_put_same) (use timer in auto)
  then show ?case by simp (simp add: total_def answered_def)
next
  case (timer_replying i s t b ds)
  have "total (put i (SubWaitReply t True ds) (s\<lparr>sy_threads := map wake (sy_threads s)\<rparr>)) =
      total (s\<lparr>sy_threads := map wake (sy_threads s)\<rparr>)"
    by (rule total_put_same) (use timer_replying in auto)
  then show ?case by simp (simp add: total_def answered_def)
next
  case (work_replied i s t ok)
  then have "stop_ok (WorkReply [] t ok)" by (metis nth_mem stops_ok_def)
  then have "ids (held (sy_threads s ! i)) = ids (held (work_after t ok))"
    using work_replied by (auto simp: held_work_after stop_ok_def)
  from total_put_same [OF work_replied(1) this] show ?case by simp
next
  case (sub_lock_expire i s t now t1 left p' t')
  then show ?case using submit_locked_cases [OF sub_lock_expire(3)] total_put_same [OF sub_lock_expire(1), of "SubExpire t1 left"]
    by simp
next
  case (sub_lock_shed i s t now t1 p' t')
  then show ?case using submit_locked_cases [OF sub_lock_shed(3)] total_put_same [OF sub_lock_shed(1), of "SubShed t1"]
    by simp
next
  case (sub_lock_wait i s t now t1 p' t')
  then show ?case using submit_locked_cases [OF sub_lock_wait(3)] total_put_same [OF sub_lock_wait(1), of "SubWait t1 False"]
    by simp
next
  case (sub_collect i s t now)
  then have "total (collect_to i (SubReply t) now s) = total s" by (intro total_collect) auto
  then show ?case by simp
next
  case (sub_wait_dead i s t b now dead p')
  then have "total (collect_to i (SubWaitReply t b) now s) = total s" by (intro total_collect) auto
  then show ?case by simp
next
  case (sweep_tick i s now)
  then have "total (collect_to i SweepReply now s) = total s" by (intro total_collect) auto
  then show ?case by simp
next
  case (timer_late s)
  then show ?case by (simp add: total_def answered_def)
next
  case (close_stop s)
  then show ?case by (simp add: total_def answered_def)
next
  case (close s)
  then show ?case by (simp add: total_def answered_def)
next
  case (work_reply i s d ds t ok)
  then show ?case by (cases t) (auto simp: total_put_answer)
qed (auto simp: total_put_same total_put_answer)

lemma reachable_total:
  "reachable workers p s \<Longrightarrow> pl_q p = [] \<Longrightarrow>
     stops_ok s \<and> image_mset fst (total s) = mset (sy_submitted s) \<and> distinct (sy_submitted s)"
proof (induction rule: reachable.induct)
  case start
  then show ?case
    by (simp add: init_def stops_ok_def stop_ok_def total_def answered_def thread_ids_def)
next
  case (further s s')
  then have IH: "stops_ok s" "image_mset fst (total s) = mset (sy_submitted s)" "distinct (sy_submitted s)" by simp_all
  from total_step [OF further(2) IH(1)] show ?case
  proof
    assume "\<exists>t. s' = s\<lparr>sy_threads := sy_threads s @ [SubStart t], sy_submitted := sy_submitted s @ [t_id t]\<rparr> \<and>
      t_id t \<notin> set (sy_submitted s)"
    then obtain t where s': "s' = s\<lparr>sy_threads := sy_threads s @ [SubStart t], sy_submitted := sy_submitted s @ [t_id t]\<rparr>"
      and new: "t_id t \<notin> set (sy_submitted s)" by blast
    have "total s' = add_mset (ticket t) (total s)" by (simp add: s' total_def answered_def)
    then show ?thesis using s' new IH by (simp add: stops_ok_def stop_ok_def)
  next
    assume "sy_submitted s' = sy_submitted s \<and> total s' = total s"
    then show ?thesis using IH stops_ok_step [OF further(2)] by simp
  qed
qed

section \<open>Wake-ups\<close>

definition worker :: "thread \<Rightarrow> bool" where
  "worker th = (case th of WorkPop \<Rightarrow> True | WorkSleep \<Rightarrow> True | WorkReply _ _ _ \<Rightarrow> True | WorkRun _ \<Rightarrow> True
     | WorkDone \<Rightarrow> True | _ \<Rightarrow> False)"

definition awake :: "thread \<Rightarrow> bool" where
  "awake th = (case th of WorkPop \<Rightarrow> True | WorkReply _ _ ok \<Rightarrow> ok | WorkRun _ \<Rightarrow> True | _ \<Rightarrow> False)"

definition thread_inv :: "pool \<Rightarrow> thread \<Rightarrow> bool" where
  "thread_inv p th =
     (case th of
        WorkDone \<Rightarrow> pl_closed p \<and> pl_q p = []
      | WorkReply _ _ ok \<Rightarrow> ok \<or> pl_closed p \<and> pl_q p = []
      | WorkSleep \<Rightarrow> \<not> pl_closed p
      | SubSleep _ _ \<Rightarrow> pl_depth p \<le> int (length (pl_q p))
      | _ \<Rightarrow> True)"

definition pool_inv :: "pool \<Rightarrow> thread list \<Rightarrow> bool" where
  "pool_inv p ths \<longleftrightarrow>
     1 \<le> pl_depth p \<and> int (length (pl_q p)) \<le> pl_depth p \<and> (\<forall>th \<in> set ths. thread_inv p th) \<and>
     (pl_q p \<noteq> [] \<longrightarrow> (\<exists>th \<in> set ths. awake th)) \<and> (\<exists>th \<in> set ths. worker th)"

lemma wake_simps [simp]:
  "awake th \<Longrightarrow> awake (wake th)" "worker (wake th) = worker th" "thread_inv p th \<Longrightarrow> thread_inv p (wake th)"
  by (cases th; simp add: awake_def worker_def thread_inv_def)+

lemma update_keeps:
  assumes "\<exists>th \<in> set ths. P th" and "i < length ths" and "P (ths ! i) \<longrightarrow> P th"
  shows "\<exists>th \<in> set (ths[i := th]). P th"
proof -
  obtain j where j: "j < length ths" "P (ths ! j)" using assms(1) by (auto simp: in_set_conv_nth)
  then have "P (ths[i := th] ! j)" using assms(2,3) by (cases "i = j") auto
  then show ?thesis using j(1) by (metis length_list_update nth_mem)
qed

lemma pool_inv_put:
  assumes "pool_inv p ths" and "i < length ths" and "thread_inv p th"
    and "awake (ths ! i) \<longrightarrow> awake th \<or> pl_q p = []" and "worker (ths ! i) \<longrightarrow> worker th"
  shows "pool_inv p (ths[i := th])"
proof -
  have "\<exists>th' \<in> set (ths[i := th]). awake th'" if "pl_q p \<noteq> []"
    by (rule update_keeps) (use assms that in \<open>auto simp: pool_inv_def\<close>)
  moreover have "\<exists>th' \<in> set (ths[i := th]). worker th'"
    by (rule update_keeps) (use assms in \<open>auto simp: pool_inv_def\<close>)
  moreover have "\<forall>th' \<in> set (ths[i := th]). thread_inv p th'"
    by (rule set_update_all) (use assms in \<open>auto simp: pool_inv_def\<close>)
  ultimately show ?thesis using assms(1) by (simp add: pool_inv_def)
qed

lemma pool_inv_wake: "pool_inv p ths \<Longrightarrow> pool_inv p (map wake ths)"
  by (auto simp: pool_inv_def) (use wake_simps(1) in blast)

lemma pool_inv_shrink:
  assumes "pool_inv p ths" and "pl_depth p' = pl_depth p" and "pl_closed p' = pl_closed p"
    and "length (pl_q p') \<le> length (pl_q p)" and "pl_q p' = pl_q p \<or> (\<forall>t b. SubSleep t b \<notin> set ths)"
  shows "pool_inv p' ths"
proof (cases "pl_q p' = pl_q p")
  case True
  then show ?thesis using assms(1-3) by (simp add: pool_inv_def thread_inv_def cong: thread.case_cong)
next
  case False
  have "thread_inv p' th" if "th \<in> set ths" for th
    using assms that False by (cases th) (auto simp: pool_inv_def thread_inv_def)
  then show ?thesis using assms by (auto simp: pool_inv_def)
qed

lemma no_sleep_wake [simp]: "SubSleep t b \<notin> set (map wake ths)" "WorkSleep \<notin> set (map wake ths)"
proof -
  have w: "wake th \<noteq> SubSleep t b \<and> wake th \<noteq> WorkSleep" for th by (cases th) auto
  show "SubSleep t b \<notin> set (map wake ths)" using w by force
  show "WorkSleep \<notin> set (map wake ths)" using w by (metis (no_types) imageE list.set_map)
qed

lemma pool_inv_take:
  assumes "pool_inv p ths" and "takeExpiredLocked p now = (dead, p')"
  shows "pool_inv p' (broadcast_if (dead \<noteq> []) ths)"
proof (cases "dead = []")
  case True
  then have "pl_q p' = pl_q p" using assms(2) by (auto simp: takeExpiredLocked_def filter_empty_conv)
  then show ?thesis
    using pool_inv_shrink [OF assms(1), of p'] assms(2) True
    by (auto simp: broadcast_if_def takeExpiredLocked_def)
next
  case False
  then show ?thesis
    using pool_inv_shrink [OF pool_inv_wake [OF assms(1)], of p'] assms(2) no_sleep_wake
    by (auto simp: broadcast_if_def takeExpiredLocked_def)
qed

lemma pool_inv_enqueue:
  assumes inv: "pool_inv p ths" and room: "int (length (pl_q p)) < pl_depth p" and open': "\<not> pl_closed p"
    and sig: "signalled ths ths'"
  shows "pool_inv (enqueueLocked p t) ths'"
proof -
  have no: "SubSleep u b \<notin> set ths" for u b
    using inv room by (force simp: pool_inv_def thread_inv_def)
  have stop: "th \<noteq> WorkDone \<and> (\<forall>ds u. th \<noteq> WorkReply ds u False)" if "th \<in> set ths" for th
    using inv open' that by (force simp: pool_inv_def thread_inv_def)
  have ths': "th \<in> set ths'" if "th \<in> set ths" "\<not> sleeping th" for th
    using sig that
    by (auto simp: signalled_def in_set_conv_nth nth_list_update split: if_splits)
  have sub: "th \<in> set ths \<or> (\<exists>u \<in> set ths. th = wake u)" if "th \<in> set ths'" for th
  proof (cases "ths' = ths")
    case False
    then obtain j where "j < length ths" "ths' = ths[j := wake (ths ! j)]"
      using sig by (auto simp: signalled_def split: if_splits)
    then show ?thesis using that set_update_subset_insert [of ths j "wake (ths ! j)"] by auto
  qed (use that in simp)
  obtain w where w: "w \<in> set ths" "worker w" using inv by (auto simp: pool_inv_def)
  have "\<exists>th \<in> set ths'. awake th"
  proof (cases "awake w")
    case True
    then have "\<not> sleeping w" by (cases w) (auto simp: awake_def sleeping_def)
    then show ?thesis using ths' w True by blast
  next
    case False
    then have "w = WorkSleep" using w stop [OF w(1)] by (cases w) (auto simp: worker_def awake_def)
    then have "\<exists>th \<in> set ths. sleeping th" using w by (force simp: sleeping_def)
    then obtain j where j: "j < length ths" "sleeping (ths ! j)" "ths' = ths[j := wake (ths ! j)]"
      using sig by (auto simp: signalled_def)
    then have "ths ! j = WorkSleep" using no nth_mem [OF j(1)] by (cases "ths ! j") (auto simp: sleeping_def)
    then have "WorkPop \<in> set ths'" using j by (simp add: set_update_memI)
    then show ?thesis by (force simp: awake_def)
  qed
  moreover have "\<exists>th \<in> set ths'. worker th" using calculation by (auto simp: awake_def worker_def split: thread.splits)
  moreover have "thread_inv (enqueueLocked p t) th" if "th \<in> set ths" for th
    using inv that stop [OF that] no by (cases th) (auto simp: pool_inv_def thread_inv_def enqueueLocked_def)
  then have "\<forall>th \<in> set ths'. thread_inv (enqueueLocked p t) th" using sub by force
  ultimately show ?thesis using inv room by (simp add: pool_inv_def enqueueLocked_def)
qed

lemma pool_inv_same:
  assumes "pool_inv p ths" and "pl_depth p' = pl_depth p" and "pl_closed p' = pl_closed p" and "pl_q p' = pl_q p"
  shows "pool_inv p' ths"
  using assms by (intro pool_inv_shrink [OF assms(1)]) auto

definition system_inv :: "system \<Rightarrow> bool" where
  "system_inv s \<longleftrightarrow> pool_inv (sy_pool s) (sy_threads s)"

lemma system_inv_put:
  assumes "system_inv s" and "i < length (sy_threads s)" and "thread_inv (sy_pool s) th"
    and "awake (sy_threads s ! i) \<longrightarrow> awake th \<or> pl_q (sy_pool s) = []"
    and "worker (sy_threads s ! i) \<longrightarrow> worker th"
  shows "system_inv (put i th s)"
  using pool_inv_put [of "sy_pool s" "sy_threads s" i th] assms by (simp add: system_inv_def put_def)

lemma system_inv_answer:
  "system_inv s \<Longrightarrow> system_inv (expire d l s)" "system_inv s \<Longrightarrow> system_inv (shedLimit d s)"
  unfolding system_inv_def
  by (auto simp: expire_def shedLimit_def intro: pool_inv_same)

lemma expire_simps [simp]:
  "sy_threads (expire d l s) = sy_threads s" "pl_q (sy_pool (expire d l s)) = pl_q (sy_pool s)"
  "sy_threads (shedLimit d s) = sy_threads s" "pl_q (sy_pool (shedLimit d s)) = pl_q (sy_pool s)"
  "pl_closed (sy_pool (expire d l s)) = pl_closed (sy_pool s)"
  by (simp_all add: expire_def shedLimit_def)

lemma system_inv_collect:
  assumes "system_inv s" and "i < length (sy_threads s)" and "\<not> worker (sy_threads s ! i)"
    and "\<And>dead p. thread_inv p (f dead)" and "\<And>dead. \<not> worker (f dead)"
  shows "system_inv (collect_to i f now s)"
proof -
  obtain dead p' where t: "takeExpiredLocked (sy_pool s) now = (dead, p')"
    by (cases "takeExpiredLocked (sy_pool s) now")
  let ?ths = "broadcast_if (dead \<noteq> []) (sy_threads s)"
  have na: "\<not> awake (?ths ! i)" "\<not> worker (?ths ! i)"
    using assms(2,3) by (auto simp: broadcast_if_def awake_def worker_def wake_simps(2) split: thread.splits)
  have "pool_inv p' (?ths[i := f dead])"
    by (rule pool_inv_put [OF pool_inv_take [OF _ t]])
      (use assms na in \<open>auto simp: system_inv_def\<close>)
  then show ?thesis by (simp add: collect_to_def t system_inv_def put_def)
qed

lemma system_inv_accept:
  assumes "system_inv s" and "i < length (sy_threads s)" and "\<not> worker (sy_threads s ! i)"
    and "\<not> sleeping (sy_threads s ! i)" and "signalled (sy_threads s) ths"
    and "p' = enqueueLocked (sy_pool s) t" and "int (length (pl_q (sy_pool s))) < pl_depth (sy_pool s)"
    and "\<not> pl_closed (sy_pool s)"
  shows "system_inv (accept i t p' ths s)"
proof -
  have same: "ths ! i = sy_threads s ! i"
    using assms(2,4,5) by (auto simp: signalled_def nth_list_update split: if_splits)
  have "pool_inv p' (ths[i := SubDone])"
    by (rule pool_inv_put [OF pool_inv_enqueue [OF _ assms(7,8,5), of t, folded assms(6)]])
      (use assms same in \<open>auto simp: system_inv_def signalled_length thread_inv_def awake_def worker_def split: thread.splits\<close>)
  then show ?thesis by (simp add: accept_def put_def system_inv_def)
qed

lemma pool_inv_pop:
  assumes "pool_inv p ths" and "i < length ths" and "ths ! i = WorkPop" and "pop_round p now = (r, p')"
  shows "pool_inv p' ((broadcast_if (pop_task r \<noteq> [] \<or> pop_dead r \<noteq> []) ths)[i := work_next r])"
proof -
  let ?b = "pop_task r \<noteq> [] \<or> pop_dead r \<noteq> []"
  note same = pop_round_pool [OF assms(4)]
  have "pl_q p' = pl_q p" if "\<not> ?b"
    using assms(4) that
    by (cases r) (auto simp: pop_round_def takeExpiredLocked_def pop_task_def pop_dead_def filter_empty_conv
        split: list.splits if_splits)
  then have inv: "pool_inv p' (broadcast_if ?b ths)"
    using pool_inv_shrink [of p "broadcast_if ?b ths" p'] pool_inv_wake [OF assms(1)] assms(1) same no_sleep_wake
    by (auto simp: broadcast_if_def split: if_splits)
  have t: "thread_inv p' (work_next r)" "worker (work_next r)" "awake (work_next r) \<or> pl_q p' = []"
    using assms(4)
    by (auto simp: pop_round_def work_next_def thread_inv_def worker_def awake_def split: prod.splits list.splits if_splits)
  show ?thesis
    by (rule pool_inv_put [OF inv]) (use assms(2) t in auto)
qed

lemmas thread_class = thread_inv_def worker_def awake_def sleeping_def

lemma system_inv_step: "step s s' \<Longrightarrow> system_inv s \<Longrightarrow> system_inv s'"
proof (induction rule: step.induct)
  case (submit t s)
  then show ?case by (auto simp: system_inv_def pool_inv_def thread_class)
next
  case (sub_lock_enqueue i s t now p' t' ths)
  then show ?case
    using submit_locked_cases [OF sub_lock_enqueue(3)]
    by (intro system_inv_accept) (auto simp: thread_class)
next
  case (sub_wait_enqueue i s t b now p' ths)
  then show ?case
    using wait_round_enqueued [OF sub_wait_enqueue(3)]
    by (intro system_inv_accept) (auto simp: thread_class)
next
  case (sub_wait_sleep i s t b now p')
  then show ?case
    using wait_round_sleep [OF sub_wait_sleep(3)] by (intro system_inv_put) (auto simp: thread_class)
next
  case (work_pop i s now r p')
  then show ?case
    using pool_inv_pop [of "sy_pool s" "sy_threads s" i now r p'] by (simp add: system_inv_def put_def)
next
  case (work_reply i s d ds t ok)
  then have "thread_inv (sy_pool s) (WorkReply (d # ds) t ok)"
    by (metis nth_mem pool_inv_def system_inv_def)
  then show ?case
    using work_reply by (auto intro!: system_inv_put system_inv_answer simp: thread_class)
next
  case (work_replied i s t ok)
  then have "thread_inv (sy_pool s) (WorkReply [] t ok)"
    by (metis nth_mem pool_inv_def system_inv_def)
  then show ?case
    using work_replied by (intro system_inv_put) (auto simp: thread_class work_after_def split: option.splits)
next
  case (work_run i s t now left shed p')
  have "pool_inv p' (sy_threads s)"
    by (rule pool_inv_same [of "sy_pool s"]) (use work_run in \<open>auto simp: system_inv_def budget_def Let_def split: if_splits\<close>)
  then have "pool_inv p' ((sy_threads s)[i := WorkPop])"
    using work_run by (intro pool_inv_put) (auto simp: thread_class)
  then show ?case by (simp add: system_inv_def put_def)
next
  case (timer i s t b)
  then have "system_inv (s\<lparr>sy_threads := map wake (sy_threads s)\<rparr>)"
    by (simp add: system_inv_def pool_inv_wake)
  then show ?case using timer by (intro system_inv_put) (auto simp: thread_class)
next
  case (timer_replying i s t b ds)
  then have "system_inv (s\<lparr>sy_threads := map wake (sy_threads s)\<rparr>)"
    by (simp add: system_inv_def pool_inv_wake)
  then show ?case using timer_replying by (intro system_inv_put) (auto simp: thread_class)
next
  case (timer_late s)
  then show ?case by (simp add: system_inv_def pool_inv_wake)
next
  case (close_stop s)
  then show ?case by (auto simp: system_inv_def intro: pool_inv_same)
next
  case (close s)
  have "thread_inv ((sy_pool s)\<lparr>pl_closed := True\<rparr>) th"
    if m: "th \<in> set (map wake (sy_threads s))" for th
  proof -
    have "thread_inv (sy_pool s) th"
      using close m by (auto simp: system_inv_def pool_inv_def)
    moreover have "th \<noteq> WorkSleep" using m no_sleep_wake(2) [of "sy_threads s"] by metis
    ultimately show ?thesis by (cases th) (auto simp: thread_inv_def)
  qed
  then show ?case
    using pool_inv_wake [of "sy_pool s" "sy_threads s"] close by (simp add: system_inv_def pool_inv_def)
next
  case (sub_collect i s t now)
  then show ?case by (intro system_inv_collect) (auto simp: thread_class)
next
  case (sub_wait_dead i s t b now dead p')
  then show ?case by (intro system_inv_collect) (auto simp: thread_class)
next
  case (sweep_tick i s now)
  then show ?case unfolding sweep_def by (intro system_inv_collect) (auto simp: thread_class)
qed (auto intro!: system_inv_put system_inv_answer simp: thread_class)

lemma reachable_system_inv:
  "reachable workers p s \<Longrightarrow> 1 \<le> workers \<Longrightarrow> pl_q p = [] \<Longrightarrow> 1 \<le> pl_depth p \<Longrightarrow> system_inv s"
proof (induction rule: reachable.induct)
  case start
  then show ?case by (auto simp: init_def system_inv_def pool_inv_def thread_class)
next
  case (further s s')
  then show ?case using system_inv_step by blast
qed

section \<open>Order\<close>

text \<open>What the workers took, followed by what is queued, is a subsequence of what was accepted: tasks
  leave in order, and those missing have expired.\<close>

definition fifo :: "system \<Rightarrow> bool" where
  "fifo s \<longleftrightarrow> subseq (sy_popped s @ map t_id (pl_q (sy_pool s))) (sy_accepted s)"

lemma fifo_shrink:
  assumes "fifo s" and "subseq (ps @ map t_id q) (sy_popped s @ map t_id (pl_q (sy_pool s)))"
    and "sy_popped s' = ps" and "pl_q (sy_pool s') = q" and "sy_accepted s' = sy_accepted s"
  shows "fifo s'"
  using assms subseq_order.trans unfolding fifo_def by metis

lemma subseq_expired: "takeExpiredLocked p now = (dead, p') \<Longrightarrow> subseq (map t_id (pl_q p')) (map t_id (pl_q p))"
  by (auto simp: takeExpiredLocked_def intro: subseq_map subseq_filter_left)

lemma fifo_collect:
  assumes "fifo s"
  shows "fifo (collect_to i f now s)"
proof -
  obtain dead p' where t: "takeExpiredLocked (sy_pool s) now = (dead, p')"
    by (cases "takeExpiredLocked (sy_pool s) now")
  show ?thesis
    by (rule fifo_shrink [OF assms list_emb_append_mono [OF _ subseq_expired [OF t]]])
      (simp_all add: collect_to_def t put_def)
qed

lemma fifo_step: "step s s' \<Longrightarrow> fifo s \<Longrightarrow> fifo s'"
proof (induction rule: step.induct)
  case (sub_lock_enqueue i s t now p' t' ths)
  then have "p' = enqueueLocked (sy_pool s) t'" by (auto dest: submit_locked_cases)
  then show ?case
    using sub_lock_enqueue by (simp add: fifo_def accept_def put_def enqueueLocked_def flip: append_assoc)
next
  case (sub_wait_enqueue i s t b now p' ths)
  then have "p' = enqueueLocked (sy_pool s) t" by (auto dest: wait_round_enqueued)
  then show ?case
    using sub_wait_enqueue by (simp add: fifo_def accept_def put_def enqueueLocked_def flip: append_assoc)
next
  case (work_pop i s now r p')
  have "subseq (map t_id (pop_task r) @ map t_id (pl_q p')) (map t_id (pl_q (sy_pool s)))"
    using work_pop(3) subseq_expired [of "sy_pool s" now]
    by (auto simp: pop_round_def pop_task_def split: prod.splits list.splits if_splits)
  then have "subseq ((sy_popped s @ map t_id (pop_task r)) @ map t_id (pl_q p'))
      (sy_popped s @ map t_id (pl_q (sy_pool s)))"
    by (simp add: list_emb_append_mono)
  then show ?case by (rule fifo_shrink [OF work_pop(4)]) (simp_all add: put_def)
next
  case (work_run i s t now left shed p')
  then show ?case by (auto simp: fifo_def put_def budget_def Let_def split: if_splits)
next
  case (sub_collect i s t now)
  then show ?case by (simp add: fifo_collect)
next
  case (sub_wait_dead i s t b now dead p')
  then show ?case by (simp add: fifo_collect)
next
  case (sweep_tick i s now)
  then show ?case by (simp add: fifo_collect)
qed (simp_all add: fifo_def put_def expire_def shedLimit_def)

lemma reachable_fifo: "reachable workers p s \<Longrightarrow> pl_q p = [] \<Longrightarrow> fifo s"
proof (induction rule: reachable.induct)
  case start
  then show ?case by (simp add: init_def fifo_def)
next
  case (further s s')
  then show ?case using fifo_step by blast
qed

section \<open>Counters and budgets\<close>

definition shed_count :: "string \<Rightarrow> system \<Rightarrow> int" where
  "shed_count why s = int (length (filter (\<lambda>a. an_shed a = why) (sy_log s)))"

definition counted :: "system \<Rightarrow> bool" where
  "counted s \<longleftrightarrow>
     pl_Accepted (sy_pool s) = int (length (sy_accepted s)) \<and>
     pl_Expired (sy_pool s) = shed_count ReasonDeadlineExceeded s \<and>
     pl_Shed (sy_pool s) = shed_count ReasonQueueLimit s \<and>
     (\<forall>a \<in> set (sy_log s). an_shed a \<in> {[], ReasonDeadlineExceeded, ReasonQueueLimit} \<and>
        (an_shed a = [] \<longrightarrow> pl_minBudget (sy_pool s) \<le> an_budget a))"

lemma counted_same:
  assumes "counted s" and "sy_log s' = sy_log s" and "sy_accepted s' = sy_accepted s"
    and "pl_Accepted (sy_pool s') = pl_Accepted (sy_pool s)" and "pl_Expired (sy_pool s') = pl_Expired (sy_pool s)"
    and "pl_Shed (sy_pool s') = pl_Shed (sy_pool s)" and "pl_minBudget (sy_pool s') = pl_minBudget (sy_pool s)"
  shows "counted s'"
  using assms by (simp add: counted_def shed_count_def)

lemma counted_answer:
  "counted s \<Longrightarrow> counted (put i th (expire d l s))" "counted s \<Longrightarrow> counted (put i th (shedLimit d s))"
  by (auto simp: counted_def shed_count_def expire_def shedLimit_def put_def)

lemma counted_put: "counted s \<Longrightarrow> counted (put i th s)"
  by (rule counted_same) (simp_all add: put_def)

lemma counted_wake: "counted s \<Longrightarrow> counted (put i th (s\<lparr>sy_threads := ths\<rparr>))"
  by (rule counted_same) (simp_all add: put_def)

lemma counted_collect: "counted s \<Longrightarrow> counted (collect_to i f now s)"
  by (rule counted_same) (auto simp: put_def collect_to_def takeExpiredLocked_def)

lemma counted_accept: "counted s \<Longrightarrow> counted (accept i t (enqueueLocked (sy_pool s) t) ths s)"
  by (simp add: counted_def shed_count_def accept_def put_def enqueueLocked_def)

lemma counted_run:
  assumes "counted s" and "budget (sy_pool s) t now = ((left, shed), p')"
  shows "counted (put i th (s\<lparr>sy_pool := p', sy_log := sy_log s @ [\<lparr>an_task = u, an_budget = left, an_shed = shed\<rparr>]\<rparr>))"
proof (cases "left < pl_minBudget (sy_pool s)")
  case True
  then have "shed = ReasonDeadlineExceeded" "p' = (sy_pool s)\<lparr>pl_Expired := pl_Expired (sy_pool s) + 1\<rparr>"
    using assms(2) by (auto simp: budget_def Let_def split: if_splits)
  then show ?thesis using assms(1) by (simp add: counted_def shed_count_def put_def)
next
  case False
  then have "shed = []" "p' = sy_pool s" using assms(2) by (auto simp: budget_def Let_def split: if_splits)
  then show ?thesis using assms(1) False by (simp add: counted_def shed_count_def put_def)
qed

lemma counted_step: "step s s' \<Longrightarrow> counted s \<Longrightarrow> counted s'"
proof (induction rule: step.induct)
  case (sub_lock_enqueue i s t now p' t' ths)
  then have "p' = enqueueLocked (sy_pool s) t'" by (auto dest: submit_locked_cases)
  then show ?case using sub_lock_enqueue by (simp add: counted_accept)
next
  case (sub_wait_enqueue i s t b now p' ths)
  then have "p' = enqueueLocked (sy_pool s) t" by (auto dest: wait_round_enqueued)
  then show ?case using sub_wait_enqueue by (simp add: counted_accept)
next
  case (work_pop i s now r p')
  then show ?case
    using pop_round_pool [OF work_pop(3)] by (intro counted_same [OF work_pop(4)]) (simp_all add: put_def)
next
  case (work_run i s t now left shed p')
  show ?case by (rule counted_run [OF work_run(4,3)])
qed (auto intro: counted_answer counted_put counted_wake counted_collect counted_same)

lemma reachable_counted:
  "reachable workers p s \<Longrightarrow> pl_Accepted p = 0 \<Longrightarrow> pl_Expired p = 0 \<Longrightarrow> pl_Shed p = 0 \<Longrightarrow> counted s"
proof (induction rule: reachable.induct)
  case start
  then show ?case by (simp add: init_def counted_def shed_count_def)
next
  case (further s s')
  then show ?case using counted_step by blast
qed

end
