(* ===== verification/Queue_Claims.thy ===== *)
theory Queue_Claims
  imports Queue_Props
begin

text \<open>
  The properties of the pool, for every interleaving of callers, workers, sweeper, timers and
  \<open>Close\<close>, from a pool built by \<open>New\<close>.
\<close>

lemma New_fields [simp]:
  "pl_q (New d r m f) = []" "1 \<le> pl_depth (New d r m f)" "pl_Accepted (New d r m f) = 0"
  "pl_Expired (New d r m f) = 0" "pl_Shed (New d r m f) = 0"
  by (simp_all add: New_def)

definition some_request :: request where
  "some_request =
     \<lparr>req_v = 2, req_rid = ''r'', req_ray = [], req_phase = PhaseRequest, req_wave = 0, req_inspector = ''action'',
      req_deadline_ms = 100, req_audit_subject = None, req_node = [],
      req_conn = \<lparr>client_ip = ''10.1.2.3'', client_port = 0, server_ip = [], server_port = 0, conn_tls = None\<rparr>,
      req_http = \<lparr>http_method = ''GET'', http_scheme = ''https'', http_host = ''h'', http_uri = ''/login'',
        args_size = 0, http_version = []\<rparr>,
      req_vars = None, req_needs = [],
      req_store = \<lparr>store_headers = None, store_args = None, store_body = None\<rparr>,
      req_route = \<lparr>route_server_name = [], route_location = [], route_profile = ''shop''\<rparr>,
      req_score = \<lparr>score_total = 0, score_deny_at = 0\<rparr>, req_prior = [], req_response = None, req_release = None\<rparr>"

definition some_task :: task where
  "some_task = \<lparr>t_id = 7, t_req = some_request, t_reply = ''_INBOX.1'', t_fill = 0, t_enqueued = 0\<rparr>"

definition submitted_state :: system where
  "submitted_state =
     (let s = init 1 (New 2 0 0 []) in s\<lparr>sy_threads := sy_threads s @ [SubStart some_task], sy_submitted := [7]\<rparr>)"

lemma submitted_reachable: "reachable 1 (New 2 0 0 []) submitted_state"
proof -
  let ?s = "init 1 (New 2 0 0 [])"
  have "step ?s (?s\<lparr>sy_threads := sy_threads ?s @ [SubStart some_task], sy_submitted := sy_submitted ?s @ [t_id some_task]\<rparr>)"
    by (rule step.submit) (simp add: init_def)
  then have "reachable 1 (New 2 0 0 []) (?s\<lparr>sy_threads := sy_threads ?s @ [SubStart some_task],
      sy_submitted := sy_submitted ?s @ [t_id some_task]\<rparr>)"
    by (rule reachable.further [OF reachable.start])
  then show ?thesis by (simp add: submitted_state_def Let_def init_def some_task_def)
qed

text \<open>The pool after \<open>Close\<close>, with its worker gone.\<close>

definition drained_state :: system where
  "drained_state =
     (let s = init 1 (New 2 0 0 []) in s\<lparr>sy_pool := (sy_pool s)\<lparr>pl_stop := True, pl_closed := True\<rparr>,
        sy_threads := [SweepTick, WorkDone]\<rparr>)"

lemma drained_reachable: "reachable 1 (New 2 0 0 []) drained_state"
proof -
  let ?p = "(New 2 0 0 [])\<lparr>pl_stop := True\<rparr>"
  let ?q = "?p\<lparr>pl_closed := True\<rparr>"
  let ?s0 = "init 1 (New 2 0 0 [])"
  let ?s1 = "?s0\<lparr>sy_pool := ?p\<rparr>"
  let ?s2 = "?s1\<lparr>sy_pool := ?q, sy_threads := map wake (sy_threads ?s1)\<rparr>"
  have s1: "step ?s0 ?s1" using step.close_stop [of ?s0] by (simp add: init_def New_def)
  have s2: "step ?s1 ?s2" using step.close [of ?s1] by (simp add: init_def)
  have r: "pop_round ?q 0 = (PopClosed [], ?q)"
    by (simp add: pop_round_def takeExpiredLocked_def New_def)
  have s3: "step ?s2 (put 1 (WorkReply [] None False) ?s2)"
    using step.work_pop [of 1 ?s2 0 "PopClosed []" ?q] r
    by (simp add: init_def work_next_def pop_task_def pop_dead_def broadcast_if_def put_def)
  have s4: "step (put 1 (WorkReply [] None False) ?s2) (put 1 WorkDone (put 1 (WorkReply [] None False) ?s2))"
    using step.work_replied [of 1 "put 1 (WorkReply [] None False) ?s2" None False]
    by (simp add: put_def init_def work_after_def)
  have "reachable 1 (New 2 0 0 []) (put 1 WorkDone (put 1 (WorkReply [] None False) ?s2))"
    using reachable.further [OF reachable.further [OF reachable.further [OF reachable.further [OF reachable.start s1] s2] s3] s4] .
  then show ?thesis by (simp add: drained_state_def init_def put_def Let_def)
qed

section \<open>Properties\<close>

text \<open>C4: no task is lost and none is answered twice. At every moment each submitted task is in
  exactly one place: answered, in the queue, or in the hands of one goroutine, and exactly once
  there; nothing else is anywhere.\<close>

theorem pool_exactly_once:
  assumes "reachable workers (New depth reserveMS minBudgetMS full) s"
  shows "count (mset (map an_id (sy_log s))) x + count (mset (map t_id (pl_q (sy_pool s)))) x +
      count (mset (map t_id (concat (map held (sy_threads s))))) x =
    (if x \<in> set (sy_submitted s) then 1 else 0)"
proof -
  have "image_mset fst (total s) = mset (sy_submitted s)" "distinct (sy_submitted s)"
    using reachable_total [OF assms] by simp_all
  then have "count (image_mset fst (total s)) x = (if x \<in> set (sy_submitted s) then 1 else 0)"
    by (simp add: distinct_count_atmost_1)
  then show ?thesis by (simp add: total_image all_tasks_def multiset.map_comp comp_def)
qed

theorem pool_exactly_once_witness:
  "reachable 1 (New 2 0 0 []) submitted_state \<and> 7 \<in> set (sy_submitted submitted_state) \<and>
   count (mset (map an_id (sy_log submitted_state))) 7 +
   count (mset (map t_id (pl_q (sy_pool submitted_state)))) 7 +
   count (mset (map t_id (concat (map held (sy_threads submitted_state))))) 7 = 1"
proof -
  have "7 \<in> set (sy_submitted submitted_state)" by (simp add: submitted_state_def Let_def)
  then show ?thesis using pool_exactly_once [OF submitted_reachable, of 7] submitted_reachable by simp
qed

text \<open>C20: the queue never holds more than its depth. The tasks the workers have taken from its front, and
  after them those that wait in it, stand in the order in which they were accepted. A task whose
  budget is used up is removed from wherever it stands in the queue (\<open>takeExpiredLocked\<close>), so it may
  leave before tasks accepted earlier; the order is that of the tasks that remain.\<close>

theorem pool_bounded_fifo:
  assumes "reachable workers (New depth reserveMS minBudgetMS full) s" and "1 \<le> workers"
  shows "int (length (pl_q (sy_pool s))) \<le> pl_depth (sy_pool s) \<and>
    subseq (sy_popped s @ map t_id (pl_q (sy_pool s))) (sy_accepted s)"
  using reachable_system_inv [OF assms] reachable_fifo [OF assms(1)]
  by (simp add: system_inv_def pool_inv_def fifo_def)

theorem pool_bounded_fifo_witness:
  "reachable 1 (New 2 0 0 []) submitted_state \<and>
   int (length (pl_q (sy_pool submitted_state))) \<le> pl_depth (sy_pool submitted_state)"
  using pool_bounded_fifo [OF submitted_reachable] submitted_reachable by simp

text \<open>C18: no wake-up is lost. Although callers that wait for room and idle workers sleep on one
  condition variable and an arriving task wakes a single sleeper, whenever the queue holds a task
  some worker is awake; a caller sleeps only while the queue is full, and a worker only while the
  pool is open.\<close>

theorem pool_wakeups:
  assumes "reachable workers (New depth reserveMS minBudgetMS full) s" and "1 \<le> workers"
  shows "(pl_q (sy_pool s) \<noteq> [] \<longrightarrow> (\<exists>th \<in> set (sy_threads s). awake th)) \<and>
    (SubSleep t b \<in> set (sy_threads s) \<longrightarrow> int (length (pl_q (sy_pool s))) = pl_depth (sy_pool s)) \<and>
    (WorkSleep \<in> set (sy_threads s) \<longrightarrow> \<not> pl_closed (sy_pool s))"
proof -
  have inv: "pool_inv (sy_pool s) (sy_threads s)"
    using reachable_system_inv [OF assms] by (simp add: system_inv_def)
  have th: "thread_inv (sy_pool s) th" if "th \<in> set (sy_threads s)" for th
    using inv that by (simp add: pool_inv_def)
  show ?thesis
    using inv th [of "SubSleep t b"] th [of WorkSleep] by (auto simp: pool_inv_def thread_inv_def)
qed

theorem pool_wakeups_witness:
  "reachable 1 (New 2 0 0 []) submitted_state \<and>
   (pl_q (sy_pool submitted_state) = [] \<or> (\<exists>th \<in> set (sy_threads submitted_state). awake th))"
  using pool_wakeups [OF submitted_reachable] submitted_reachable by auto

text \<open>C19: a worker stops only when the pool is closed and its queue is empty, and from then on the
  queue stays empty; when every goroutine has finished, every submitted task has been answered
  exactly once.\<close>

theorem pool_drained:
  assumes "reachable workers (New depth reserveMS minBudgetMS full) s" and "1 \<le> workers"
    and "WorkDone \<in> set (sy_threads s)"
  shows "pl_closed (sy_pool s) \<and> pl_q (sy_pool s) = [] \<and>
    ((\<forall>th \<in> set (sy_threads s). th \<in> {SubDone, WorkDone, SweepDone}) \<longrightarrow>
      mset (map an_id (sy_log s)) = mset (sy_submitted s) \<and> distinct (map an_id (sy_log s)))"
proof (intro conjI impI)
  have "thread_inv (sy_pool s) WorkDone"
    using reachable_system_inv [OF assms(1,2)] assms(3) by (simp add: system_inv_def pool_inv_def)
  then show closed: "pl_closed (sy_pool s)" and q: "pl_q (sy_pool s) = []" by (simp_all add: thread_inv_def)
  assume "\<forall>th \<in> set (sy_threads s). th \<in> {SubDone, WorkDone, SweepDone}"
  then have "\<forall>th \<in> set (sy_threads s). held th = []" by auto
  then have "thread_ids (sy_threads s) = {#}" by (simp add: thread_ids_def ids_def)
  then show eq: "mset (map an_id (sy_log s)) = mset (sy_submitted s)"
    using reachable_total [OF assms(1)] q by (simp add: total_def answered_def multiset.map_comp comp_def)
  show "distinct (map an_id (sy_log s))"
    using eq reachable_total [OF assms(1)] by (metis New_fields(1) mset_eq_imp_distinct_iff)
qed

theorem pool_drained_witness:
  "reachable 1 (New 2 0 0 []) drained_state \<and> WorkDone \<in> set (sy_threads drained_state) \<and>
   pl_closed (sy_pool drained_state) \<and> pl_q (sy_pool drained_state) = []"
proof -
  have "WorkDone \<in> set (sy_threads drained_state)" by (simp add: drained_state_def Let_def)
  then show ?thesis using pool_drained [OF drained_reachable] drained_reachable by simp
qed

text \<open>C21: the counters count: \<open>Accepted\<close> the tasks that entered the queue, \<open>Expired\<close> and \<open>Shed\<close> the
  answers with their reason; every answer carries one of the two reasons or none, and an answer
  with none was handed a budget of at least the minimum.\<close>

theorem pool_counters:
  assumes "reachable workers (New depth reserveMS minBudgetMS full) s"
  shows "pl_Accepted (sy_pool s) = int (length (sy_accepted s)) \<and>
    pl_Expired (sy_pool s) = int (length (filter (\<lambda>a. an_shed a = ReasonDeadlineExceeded) (sy_log s))) \<and>
    pl_Shed (sy_pool s) = int (length (filter (\<lambda>a. an_shed a = ReasonQueueLimit) (sy_log s))) \<and>
    (\<forall>a \<in> set (sy_log s). an_shed a \<in> {[], ReasonDeadlineExceeded, ReasonQueueLimit} \<and>
      (an_shed a = [] \<longrightarrow> pl_minBudget (sy_pool s) \<le> an_budget a))"
  using reachable_counted [OF assms] by (simp add: counted_def shed_count_def)

theorem pool_counters_witness:
  "reachable 1 (New 2 0 0 []) submitted_state \<and>
   pl_Accepted (sy_pool submitted_state) = int (length (sy_accepted submitted_state))"
  using pool_counters [OF submitted_reachable] submitted_reachable by simp

text \<open>The fill a task is given is a percentage of the depth: between 0 and 100, 100 exactly when
  the queue is full, and rounded down otherwise.\<close>

theorem fillLocked_percent:
  assumes "1 \<le> pl_depth p"
  shows "0 \<le> fillLocked p \<and> fillLocked p \<le> 100 \<and>
    (fillLocked p = 100 \<longleftrightarrow> pl_depth p \<le> int (length (pl_q p))) \<and>
    (int (length (pl_q p)) < pl_depth p \<longrightarrow>
      fillLocked p * pl_depth p \<le> 100 * int (length (pl_q p)) \<and>
      100 * int (length (pl_q p)) < (fillLocked p + 1) * pl_depth p)"
proof (cases "pl_depth p \<le> int (length (pl_q p))")
  case False
  let ?n = "int (length (pl_q p))" and ?d = "pl_depth p"
  let ?f = "?n * 100 div ?d"
  have f: "fillLocked p = ?f" using False by (simp add: fillLocked_def)
  have lo: "?f * ?d \<le> ?n * 100" using assms by (metis div_mult_mod_eq le_add_same_cancel1 pos_mod_sign order_less_le_trans zero_less_one)
  have hi: "?n * 100 < (?f + 1) * ?d"
  proof -
    have "?n * 100 = ?f * ?d + ?n * 100 mod ?d" by simp
    moreover have "?n * 100 mod ?d < ?d" using assms by (intro pos_mod_bound) simp
    ultimately show ?thesis unfolding distrib_right by linarith
  qed
  have "?f * ?d < 100 * ?d" using lo False by linarith
  then have "?f < 100" using assms by (metis mult_right_less_imp_less order_trans zero_le_one)
  moreover have "0 \<le> ?f" using assms by (simp add: pos_imp_zdiv_nonneg_iff)
  ultimately show ?thesis using False f lo hi by (simp add: mult.commute)
qed (simp add: fillLocked_def)

end
