(* ===== verification/Config_Claims.thy ===== *)
theory Config_Claims
  imports Config Queue_Pool
begin

text \<open>
  What a configuration that loads guarantees to the rest of the program, and which of the sources of
  a setting wins.
\<close>

section \<open>The file\<close>

definition queueFile_ok :: "os_env \<Rightarrow> queueFile \<Rightarrow> bool" where
  "queueFile_ok E f \<longleftrightarrow>
     (\<forall>m. qf_Max f = Some m \<longrightarrow> 1 \<le> m) \<and> qf_Full f \<in> {[], QueueFullDrop, QueueFullWait} \<and>
     qf_Expand f \<in> {[], QueueExpandOff, QueueExpandAsk} \<and>
     (qf_RedisURL f = [] \<or> isRedisURL E (qf_RedisURL f)) \<and> (qf_RedisInternal f = [] \<or> isRedisURL E (qf_RedisInternal f))"

lemma set_directive_cases:
  assumes "set_directive key value out = Ok out'"
  obtains v where "1 \<le> v" and "out' = out\<lparr>qf_Max := Some v\<rparr>"
    | "value \<in> {QueueFullDrop, QueueFullWait}" and "out' = out\<lparr>qf_Full := value\<rparr>"
    | "value \<in> {QueueExpandOff, QueueExpandAsk}" and "out' = out\<lparr>qf_Expand := value\<rparr>"
proof -
  consider "key = ''queue_max''" | "key = ''queue_full''" | "key = ''queue_expand''"
    | "key \<notin> {''queue_max'', ''queue_full'', ''queue_expand''}" by blast
  then show thesis
  proof cases
    case 1
    then obtain v where "\<not> v < 1" "out' = out\<lparr>qf_Max := Some v\<rparr>"
      using assms by (auto simp: set_directive_def split: option.splits if_splits)
    then show ?thesis using that(1) [of v] by simp
  next
    case 2
    then show ?thesis using assms that(2) by (simp add: set_directive_def split: if_splits)
  next
    case 3
    then show ?thesis using assms that(3) by (simp add: set_directive_def split: if_splits)
  qed (use assms in \<open>simp add: set_directive_def\<close>)
qed

lemma set_directive_ok:
  assumes "set_directive key value out = Ok out'" and "queueFile_ok E out"
  shows "queueFile_ok E out'"
  using assms(1) by (cases rule: set_directive_cases) (use assms(2) in \<open>simp_all add: queueFile_ok_def\<close>)

lemma parseRedisKey_ok:
  assumes "parseRedisKey E text s = Ok s'" and "queueFile_ok E (cs_out s)"
  shows "queueFile_ok E (cs_out s')"
proof -
  obtain key v where k: "(let id' = ''redis.'' @ key
       in if id' \<in> set (cs_seen s) then Err (RedisTwice key)
          else let s = s\<lparr>cs_seen := id' # cs_seen s\<rparr>
          in if key \<noteq> ''url'' \<and> key \<noteq> ''internal'' then Err (RedisKey key)
             else if \<not> isRedisURL E v then Err (RedisURL key v)
             else if key = ''url'' then Ok (s\<lparr>cs_out := (cs_out s)\<lparr>qf_RedisURL := v\<rparr>\<rparr>)
             else Ok (s\<lparr>cs_out := (cs_out s)\<lparr>qf_RedisInternal := v\<rparr>\<rparr>)) = Ok s'"
    using assms(1) unfolding parseRedisKey_def obind_Ok by (elim exE conjE) (simp only: case_prod_beta)
  define id' where "id' = ''redis.'' @ key"
  note k = k [unfolded Let_def id'_def [symmetric]]
  have new: "id' \<notin> set (cs_seen s)" by (rule ccontr) (use k in simp)
  have known: "key = ''url'' \<or> key = ''internal''" by (rule ccontr) (use k new in simp)
  have url: "isRedisURL E v" by (rule ccontr) (use k new known in auto)
  have "cs_out s' = (cs_out s)\<lparr>qf_RedisURL := v\<rparr> \<or> cs_out s' = (cs_out s)\<lparr>qf_RedisInternal := v\<rparr>"
    using k url new known by (cases "key = ''url''") auto
  then show ?thesis using assms(2) url by (auto simp: queueFile_ok_def)
qed

lemma conf_line_ok:
  assumes "conf_line E n line s = Ok s'" and "queueFile_ok E (cs_out s)"
  shows "queueFile_ok E (cs_out s')"
proof (cases "cs_block s")
  case (Some b)
  then show ?thesis using assms parseRedisKey_ok [of E "confText line" s s']
    by (auto simp: conf_line_def Let_def split: if_splits)
next
  case None
  then show ?thesis using assms set_directive_ok [where E = E]
    by (auto simp: conf_line_def Let_def obind_Ok split: if_splits)
qed

lemma conf_lines_ok:
  "conf_lines E n ls s = Ok s' \<Longrightarrow> queueFile_ok E (cs_out s) \<Longrightarrow> queueFile_ok E (cs_out s')"
  by (induction E n ls s rule: conf_lines.induct) (auto simp: obind_Ok map_err_Ok dest: conf_line_ok)

lemma parseQueueFile_ok: "parseQueueFile E src = Ok f \<Longrightarrow> queueFile_ok E f"
  by (auto simp: parseQueueFile_def obind_Ok queueFile_ok_def queueFile_zero_def split: option.splits dest!: conf_lines_ok)

section \<open>The configuration\<close>

lemma envDuration_pos: "envDuration E name def = Ok d \<Longrightarrow> 0 < def \<Longrightarrow> 0 < d"
  by (auto simp: envDuration_def split: option.splits if_splits)

definition config_ok :: "config \<Rightarrow> bool" where
  "config_ok c \<longleftrightarrow>
     cf_Servers c \<noteq> [] \<and> cf_Subject c \<noteq> [] \<and> cf_Name c \<noteq> [] \<and> cf_Queue c \<noteq> [] \<and> 1 \<le> cf_Workers c \<and>
     1 \<le> cf_QueueDepth c \<and> cf_QueueFull c \<in> {QueueFullDrop, QueueFullWait} \<and>
     cf_QueueExpand c \<in> {QueueExpandOff, QueueExpandAsk} \<and> 0 \<le> cf_ReserveMS c \<and> 0 \<le> cf_MinBudgetMS c \<and>
     cf_Versions c \<noteq> []"

lemma validate_ok:
  assumes "validate E c = Ok c'"
  shows "config_ok c' \<and> oe_is_dir E (cf_ProfilesDir c') = Some True \<and>
    c' = c\<lparr>cf_ProfilesDir := cf_ProfilesDir c', cf_DataDir := cf_DataDir c'\<rparr>"
  using assms by (auto simp: validate_def config_ok_def Let_def split: if_splits option.splits)

text \<open>The setting of the queue depth, by precedence: the variable, the file, the default.\<close>

definition depth_of :: "os_env \<Rightarrow> queueFile \<Rightarrow> int" where
  "depth_of E f =
     (case env_raw E ''WAF_ACTION_QUEUE_DEPTH'' of
        Some raw \<Rightarrow> the (Atoi (TrimSpace raw))
      | None \<Rightarrow> (case qf_Max f of Some m \<Rightarrow> m | None \<Rightarrow> 256))"

definition full_of :: "os_env \<Rightarrow> queueFile \<Rightarrow> string" where
  "full_of E f =
     (case env_trimmed E ''WAF_ACTION_QUEUE_FULL'' of
        Some w \<Rightarrow> w
      | None \<Rightarrow> if qf_Full f \<noteq> [] then qf_Full f else QueueFullDrop)"

definition expand_of :: "os_env \<Rightarrow> queueFile \<Rightarrow> string" where
  "expand_of E f =
     (case env_trimmed E ''WAF_ACTION_QUEUE_EXPAND'' of
        Some w \<Rightarrow> w
      | None \<Rightarrow> if qf_Expand f \<noteq> [] then qf_Expand f else QueueExpandOff)"

lemma load_file_cases:
  assumes "load_file E = Ok (f, q)"
  shows "queueFile_ok E f \<and> qs_Max q = (case qf_Max f of Some m \<Rightarrow> m | None \<Rightarrow> 256) \<and>
    qs_Full q = (if qf_Full f \<noteq> [] then qf_Full f else QueueFullDrop) \<and>
    qs_Expand q = (if qf_Expand f \<noteq> [] then qf_Expand f else QueueExpandOff) \<and>
    (confPath E ''WAF_ACTION_CONF'' = [] \<and> f = queueFile_zero \<or> loadQueueFile E (confPath E ''WAF_ACTION_CONF'') = Ok f)"
  using assms parseQueueFile_ok [of E]
  by (auto simp: load_file_def obind_Ok map_err_Ok loadQueueFile_def queueFile_ok_def queueFile_zero_def queue_defaults_def
      applyQueueFile_def Let_def split: if_splits option.splits)

lemma Load_config_parts:
  assumes "Load_config E = Ok c"
  obtains f q where "load_file E = Ok (f, q)" and "cf_QueueDepth c = depth_of E f" and "cf_QueueFull c = full_of E f"
    and "cf_QueueExpand c = expand_of E f"
    and "(cf_InternalURL c, cf_InternalFrom c) = internalRedis E (confPath E ''WAF_ACTION_CONF'') f (exchangeRedis E f)"
    and "config_ok c" and "0 < cf_HeartbeatEvery c" and "0 < cf_ReloadEvery c" and "0 < cf_GeoTimeout c"
    and "oe_is_dir E (cf_ProfilesDir c) = Some True" and "cf_RedisURL c = exchangeRedis E f"
proof -
  obtain x depth hb rl gt c0 where lf: "load_file E = Ok x"
    and depth: "envIntIfSet E ''WAF_ACTION_QUEUE_DEPTH'' (qs_Max (snd x)) = Ok depth"
    and hb: "envDuration E ''WAF_HEARTBEAT_EVERY'' (4 * Second) = Ok hb"
    and rl: "envDuration E ''WAF_ACTION_RELOAD_EVERY'' Second = Ok rl"
    and gt: "envDuration E ''WAF_ACTION_GEO_TIMEOUT'' (500 * Millisecond) = Ok gt"
    and v: "validate E c0 = Ok c"
    and c0: "cf_QueueDepth c0 = depth" "cf_QueueFull c0 = envOverride E ''WAF_ACTION_QUEUE_FULL'' (qs_Full (snd x))"
      "cf_QueueExpand c0 = envOverride E ''WAF_ACTION_QUEUE_EXPAND'' (qs_Expand (snd x))"
      "(cf_InternalURL c0, cf_InternalFrom c0) =
        internalRedis E (confPath E ''WAF_ACTION_CONF'') (fst x) (exchangeRedis E (fst x))"
      "cf_HeartbeatEvery c0 = hb" "cf_ReloadEvery c0 = rl" "cf_GeoTimeout c0 = gt"
      "cf_RedisURL c0 = exchangeRedis E (fst x)"
    using assms unfolding Load_config_def Let_def case_prod_beta obind_Ok
    by (elim exE conjE) (rule that, assumption+, simp_all)
  obtain f q where x: "x = (f, q)" by (cases x)
  note lf = lf [unfolded x] and depth = depth [unfolded x snd_conv] and c0 = c0 [unfolded x fst_conv snd_conv]
  have eq: "c = c0\<lparr>cf_ProfilesDir := cf_ProfilesDir c, cf_DataDir := cf_DataDir c\<rparr>"
    and ok: "config_ok c" "oe_is_dir E (cf_ProfilesDir c) = Some True" using validate_ok [OF v] by blast+
  have c: "cf_QueueDepth c = depth" "cf_QueueFull c = cf_QueueFull c0" "cf_QueueExpand c = cf_QueueExpand c0"
    "(cf_InternalURL c, cf_InternalFrom c) = internalRedis E (confPath E ''WAF_ACTION_CONF'') f (exchangeRedis E f)"
    "cf_HeartbeatEvery c = hb"
    "cf_ReloadEvery c = rl" "cf_GeoTimeout c = gt" "cf_RedisURL c = exchangeRedis E f"
    using c0(4) by (subst eq, simp add: c0)+
  have "cf_QueueDepth c = depth_of E f"
    using load_file_cases [OF lf] depth
    by (auto simp: c depth_of_def envIntIfSet_def split: option.splits)
  moreover have "cf_QueueFull c = full_of E f"
    using load_file_cases [OF lf] by (simp add: c c0 full_of_def envOverride_def split: option.splits)
  moreover have "cf_QueueExpand c = expand_of E f"
    using load_file_cases [OF lf] by (simp add: c c0 expand_of_def envOverride_def split: option.splits)
  ultimately show thesis
    using that [OF lf] ok c envDuration_pos [OF hb] envDuration_pos [OF rl] envDuration_pos [OF gt] by simp
qed

section \<open>Properties\<close>

definition sample_env :: os_env where
  "sample_env =
     \<lparr>oe_lib = ascii_lib, oe_vars = (\<lambda>_. None), oe_is_file = (\<lambda>_. False), oe_read = (\<lambda>_. None),
      oe_abs = (\<lambda>p. Some (''/app/'' @ p)), oe_is_dir = (\<lambda>_. Some True), oe_procs = 4, oe_level = (\<lambda>_. Some 0),
      oe_url = (\<lambda>_. None), oe_uni_name = (\<lambda>_. False), oe_hostname = None\<rparr>"

definition sample_config :: config where
  "sample_config =
     \<lparr>cf_Servers = [''nats://127.0.0.1:4222''], cf_Subject = ''waf.req.action'', cf_Name = ''action'',
      cf_Queue = ''action'', cf_ProfilesDir = ''/app/./profiles'', cf_DataDir = ''/app//app/./profiles.applied'',
      cf_ReloadEvery = Second, cf_Workers = 4, cf_QueueDepth = 256, cf_QueueFull = ''drop'', cf_QueueExpand = ''off'',
      cf_ConfPath = [], cf_ReserveMS = 1, cf_MinBudgetMS = 1, cf_Versions = [2], cf_LogLevel = 0,
      cf_HeartbeatEvery = 4 * Second, cf_RedisURL = [], cf_InternalURL = [], cf_InternalFrom = [], cf_GeoAddr = [],
      cf_GeoTimeout = 500 * Millisecond, cf_GeoNegMax = 0\<rparr>"

lemma sample_loads: "Load_config sample_env = Ok sample_config"
  by code_simp

text \<open>C29: a configuration that loads is usable: servers, names and versions are there, workers and
  queue depth are positive, the words are of their dictionaries, no interval is zero or negative,
  the profiles are in a directory; and the pool made of it keeps exactly the depth and the
  behaviour when full that were configured.\<close>

theorem config_valid:
  assumes "Load_config E = Ok c"
  shows "cf_Servers c \<noteq> [] \<and> cf_Name c \<noteq> [] \<and> cf_Versions c \<noteq> [] \<and> 1 \<le> cf_Workers c \<and>
    cf_QueueExpand c \<in> {QueueExpandOff, QueueExpandAsk} \<and> cf_QueueFull c \<in> {QueueFullDrop, QueueFullWait} \<and>
    0 < cf_HeartbeatEvery c \<and> 0 < cf_ReloadEvery c \<and> 0 < cf_GeoTimeout c \<and>
    oe_is_dir E (cf_ProfilesDir c) = Some True \<and>
    pl_depth (New (cf_QueueDepth c) (cf_ReserveMS c) (cf_MinBudgetMS c) (cf_QueueFull c)) = cf_QueueDepth c \<and>
    pl_full (New (cf_QueueDepth c) (cf_ReserveMS c) (cf_MinBudgetMS c) (cf_QueueFull c)) = cf_QueueFull c"
proof -
  obtain f q where "config_ok c" and d: "0 < cf_HeartbeatEvery c" "0 < cf_ReloadEvery c" "0 < cf_GeoTimeout c"
    "oe_is_dir E (cf_ProfilesDir c) = Some True"
    using assms by (rule Load_config_parts)
  then show ?thesis by (auto simp: config_ok_def New_def)
qed

theorem config_valid_witness:
  "Load_config sample_env = Ok sample_config \<and>
   pl_depth (New (cf_QueueDepth sample_config) (cf_ReserveMS sample_config) (cf_MinBudgetMS sample_config)
     (cf_QueueFull sample_config)) = 256"
  using config_valid [OF sample_loads] sample_loads by (simp add: sample_config_def)

text \<open>C30: the depth of the queue, what it does when it is full and whether it may grow come from the
  environment if they are set there, else from the file if it says so, else from the default; so do the
  addresses of the two Redis servers, where the internal one falls back on the other one. And a file that
  loads holds only values in range: a depth of at least 1, the words of the dictionaries, and addresses of
  Redis.\<close>

theorem config_precedence:
  assumes "Load_config E = Ok c"
  shows "\<exists>f. (confPath E ''WAF_ACTION_CONF'' = [] \<and> f = queueFile_zero \<or>
      loadQueueFile E (confPath E ''WAF_ACTION_CONF'') = Ok f) \<and>
    cf_QueueDepth c = (case env_raw E ''WAF_ACTION_QUEUE_DEPTH'' of
        Some raw \<Rightarrow> the (Atoi (TrimSpace raw))
      | None \<Rightarrow> (case qf_Max f of Some m \<Rightarrow> m | None \<Rightarrow> 256)) \<and>
    cf_QueueFull c = (case env_trimmed E ''WAF_ACTION_QUEUE_FULL'' of
        Some w \<Rightarrow> w
      | None \<Rightarrow> if qf_Full f \<noteq> [] then qf_Full f else QueueFullDrop) \<and>
    cf_QueueExpand c = (case env_trimmed E ''WAF_ACTION_QUEUE_EXPAND'' of
        Some w \<Rightarrow> w
      | None \<Rightarrow> if qf_Expand f \<noteq> [] then qf_Expand f else QueueExpandOff) \<and>
    cf_RedisURL c = (case env_trimmed E ''REDIS_URL'' of Some v \<Rightarrow> v | None \<Rightarrow> qf_RedisURL f) \<and>
    cf_InternalURL c = (case env_trimmed E ''REDIS_INTERNAL_URL'' of
        Some v \<Rightarrow> v
      | None \<Rightarrow> if qf_RedisInternal f \<noteq> [] then qf_RedisInternal f else cf_RedisURL c) \<and>
    (\<forall>m. qf_Max f = Some m \<longrightarrow> 1 \<le> m) \<and> qf_Full f \<in> {[], QueueFullDrop, QueueFullWait} \<and>
    qf_Expand f \<in> {[], QueueExpandOff, QueueExpandAsk} \<and>
    (qf_RedisURL f = [] \<or> isRedisURL E (qf_RedisURL f)) \<and>
    (qf_RedisInternal f = [] \<or> isRedisURL E (qf_RedisInternal f))"
proof -
  obtain f q where lf: "load_file E = Ok (f, q)" and d: "cf_QueueDepth c = depth_of E f" "cf_QueueFull c = full_of E f"
    "cf_QueueExpand c = expand_of E f" "cf_RedisURL c = exchangeRedis E f"
    and i: "(cf_InternalURL c, cf_InternalFrom c) = internalRedis E (confPath E ''WAF_ACTION_CONF'') f (exchangeRedis E f)"
    using assms by (rule Load_config_parts)
  have "cf_InternalURL c = (case env_trimmed E ''REDIS_INTERNAL_URL'' of
      Some v \<Rightarrow> v | None \<Rightarrow> if qf_RedisInternal f \<noteq> [] then qf_RedisInternal f else cf_RedisURL c)"
    using i d(4) by (auto simp: internalRedis_def split: option.splits if_splits)
  then show ?thesis using load_file_cases [OF lf] d
    by (intro exI [of _ f]) (simp add: queueFile_ok_def depth_of_def full_of_def expand_of_def exchangeRedis_def)
qed

definition sample_conf :: string where
  "sample_conf = ''queue_max 9; # small'' @ [CHR 0x0A] @ ''queue_full wait;'' @ [CHR 0x0A]"

definition file_env :: os_env where
  "file_env = sample_env\<lparr>oe_is_file := (\<lambda>p. p = ''inspector.conf''), oe_read := (\<lambda>_. Some sample_conf)\<rparr>"

definition file_config :: config where
  "file_config = sample_config\<lparr>cf_QueueDepth := 9, cf_QueueFull := ''wait'', cf_ConfPath := ''inspector.conf''\<rparr>"

lemma file_loads: "Load_config file_env = Ok file_config"
  by code_simp

theorem config_precedence_witness:
  "Load_config file_env = Ok file_config \<and>
   (\<exists>f m. loadQueueFile file_env ''inspector.conf'' = Ok f \<and> qf_Max f = Some m \<and> 1 \<le> m \<and> cf_QueueDepth file_config = m)"
proof -
  have path: "confPath file_env ''WAF_ACTION_CONF'' = ''inspector.conf''" by code_simp
  have raw: "env_raw file_env ''WAF_ACTION_QUEUE_DEPTH'' = None" by code_simp
  have ne: "cf_QueueDepth file_config \<noteq> 256" by (simp add: file_config_def)
  obtain f where "loadQueueFile file_env ''inspector.conf'' = Ok f"
    and "cf_QueueDepth file_config = (case qf_Max f of Some m \<Rightarrow> m | None \<Rightarrow> 256)" and "\<forall>m. qf_Max f = Some m \<longrightarrow> 1 \<le> m"
    using config_precedence [OF file_loads] by (auto simp: path raw)
  then show ?thesis using ne file_loads by (auto split: option.splits)
qed

end
