(* ===== verification/Policy_Claims.thy ===== *)
theory Policy_Claims
  imports Policy_Rules
begin

text \<open>
  The properties of the profile loader: static lists, conditions, actions, lifetimes and whole
  profiles. Each is stated over the definitions that model \<open>internal/policy\<close>, with a concrete
  run beside it where it has hypotheses.
\<close>

section \<open>Static lists\<close>

text \<open>C15: a static address list, read from its file, contains a valid address exactly when some
  non-blank line of the file is a prefix or an address that covers it: the optimised lookup, which
  tries one masked prefix per length and skips the lengths no entry has, agrees with the
  entry-by-entry definition.\<close>

theorem readStatic_lookup:
  assumes "fs path = Some raw" and "readStatic fs path True = Ok s" and "IsValid ip"
  shows "static_containsAddr s ip \<longleftrightarrow>
    (\<exists>l \<in> set (scan_lines raw). TrimSpace l \<noteq> [] \<and> (\<exists>p. line_prefix (TrimSpace l) = Some p \<and> covers p ip))"
proof -
  have "read_lines True 1 empty_static (scan_lines raw) = Ok s"
    using assms(1,2) by (simp add: readStatic_def)
  from read_lines_addr [OF static_inv_empty this]
  have "static_inv s" and "set (ss_nets s) =
      {p. \<exists>l \<in> set (scan_lines raw). TrimSpace l \<noteq> [] \<and> line_prefix (TrimSpace l) = Some p}"
    by (simp_all add: empty_static_def)
  then show ?thesis using static_containsAddr_iff [OF _ assms(3)] by auto
qed

definition sample_list :: string where
  "sample_list = ''10.0.0.0/8'' @ [CHR 0x0A] @ '' 192.168.1.7 '' @ [CHR 0x0A]"

theorem readStatic_lookup_witness:
  "\<exists>s. readStatic (\<lambda>_. Some sample_list) ''ban'' True = Ok s \<and>
     (static_containsAddr s (IPv4 0x0A010203) \<longleftrightarrow>
       (\<exists>l \<in> set (scan_lines sample_list). TrimSpace l \<noteq> [] \<and>
          (\<exists>p. line_prefix (TrimSpace l) = Some p \<and> covers p (IPv4 0x0A010203))))"
proof -
  have "case readStatic (\<lambda>_. Some sample_list) ''ban'' True of Ok _ \<Rightarrow> True | _ \<Rightarrow> False" by code_simp
  then obtain s where s: "readStatic (\<lambda>_. Some sample_list) ''ban'' True = Ok s"
    by (auto split: outcome.splits)
  from readStatic_lookup [OF refl s, of "IPv4 0x0A010203"] s show ?thesis
    by (auto simp: IsValid_def)
qed

text \<open>C38: reading a static list panics only for an address list with a line that is an IPv4-mapped
  prefix longer than 32 bits; the run beside it shows that such a line does crash the load.\<close>

theorem readStatic_panic:
  assumes "fs path = Some raw" and "readStatic fs path addr = Panic"
  shows "addr \<and> (\<exists>l \<in> set (scan_lines raw). \<exists>q w z. ParsePrefix (TrimSpace l) = Some q \<and>
    pfx_addr q = IPv6 w z \<and> drop_bit 32 w = 0xffff \<and> 32 < pfx_bits q)"
proof -
  have "read_lines addr n s ls = Panic \<Longrightarrow> addr \<and> (\<exists>l \<in> set ls. \<exists>q w z.
      ParsePrefix (TrimSpace l) = Some q \<and> pfx_addr q = IPv6 w z \<and> drop_bit 32 w = 0xffff \<and> 32 < pfx_bits q)"
    for n s ls
  proof (induction ls arbitrary: n s)
    case (Cons l ls)
    have here: "addr \<and> (\<exists>q w z. ParsePrefix (TrimSpace l) = Some q \<and> pfx_addr q = IPv6 w z \<and>
        drop_bit 32 w = 0xffff \<and> 32 < pfx_bits q)" if "read_line addr n s l = Panic"
      using that line_prefix_bad [of "TrimSpace l"]
      by (auto simp: read_line_def add_net_def Let_def split: if_splits option.splits)
    from Cons.prems have "read_line addr n s l = Panic \<or> (\<exists>s'. read_lines addr (Suc n) s' ls = Panic)"
      by (auto simp: obind_Panic split: if_splits)
    then show ?case
    proof
      assume "read_line addr n s l = Panic"
      from here [OF this] show ?thesis by simp
    next
      assume "\<exists>s'. read_lines addr (Suc n) s' ls = Panic"
      then show ?thesis using Cons.IH by fastforce
    qed
  qed simp
  from this [of 1 empty_static "scan_lines raw"] show ?thesis using assms by (simp add: readStatic_def)
qed

theorem readStatic_panic_witness:
  "readStatic (\<lambda>_. Some ''::ffff:10.0.0.0/104'') ''ban'' True = Panic \<and>
   (\<exists>l \<in> set (scan_lines ''::ffff:10.0.0.0/104''). \<exists>q w z. ParsePrefix (TrimSpace l) = Some q \<and>
      pfx_addr q = IPv6 w z \<and> drop_bit 32 w = 0xffff \<and> 32 < pfx_bits q)"
proof -
  have "case readStatic (\<lambda>_. Some ''::ffff:10.0.0.0/104'') ''ban'' True of Panic \<Rightarrow> True | _ \<Rightarrow> False"
    by code_simp
  then have p: "readStatic (\<lambda>_. Some ''::ffff:10.0.0.0/104'') ''ban'' True = Panic"
    by (auto split: outcome.splits)
  from readStatic_panic [OF refl p] p show ?thesis by blast
qed

section \<open>Conditions\<close>

text \<open>C13: once the rows of the conditions are read, the loader accepts them exactly when every
  reference names a declared condition and no condition depends on itself, directly or through
  others; and what it then returns are the conditions read. The search always ends: its recursion
  never goes deeper than there are conditions (the result is never \<open>OutOfFuel\<close>). So when every reference
  is declared, the conditions are either returned or a cycle is reported.\<close>

theorem parseConditions_iff:
  assumes "parse_rows L [] 0 rows = Ok out"
  shows "(parseConditions L rows = Ok out \<longleftrightarrow> refs_declared out \<and> (\<forall>n. \<not> (dep out)\<^sup>+\<^sup>+ n n)) \<and>
    parseConditions L rows \<noteq> Err OutOfFuel \<and>
    (refs_declared out \<longrightarrow> parseConditions L rows = Ok out \<or> (\<exists>cyc. parseConditions L rows = Err (Cycle cyc)))"
proof (intro conjI iffI)
  have d: "distinct (map fst out)" using parse_rows_wf [OF assms] by (simp add: names_ok_def)
  show "refs_declared out" "\<forall>n. \<not> (dep out)\<^sup>+\<^sup>+ n n" if "parseConditions L rows = Ok out"
    using parseConditions_ok [OF that] grounded_iff_acyclic [of out] by (simp_all add: conds_ok_def)
  show "parseConditions L rows = Ok out" if "refs_declared out \<and> (\<forall>n. \<not> (dep out)\<^sup>+\<^sup>+ n n)"
  proof -
    have "\<forall>n \<in> fst ` set out. grounded out n" using grounded_iff_acyclic [of out] that by simp
    then have "check_graph out out = Ok ()" using that d by (intro check_graph_complete) simp_all
    then show ?thesis using assms by (simp add: parseConditions_def)
  qed
  show "parseConditions L rows \<noteq> Err OutOfFuel"
    using check_graph_fuel [of out out] assms by (cases "check_graph out out") (simp_all add: parseConditions_def)
  show "refs_declared out \<longrightarrow> parseConditions L rows = Ok out \<or> (\<exists>cyc. parseConditions L rows = Err (Cycle cyc))"
    using check_graph_declared [OF _ d, of out] assms by (auto simp: parseConditions_def)
qed

definition row_is :: "string \<Rightarrow> string \<Rightarrow> fileCondition" where
  "row_is name ref =
     \<lparr>fc_name = name,
      fc_all = [\<lparr>f_value = [], f_op = ''is'', f_dataset = [], f_text = [], f_cond = ref, f_type = [],
                 f_hash = [], f_static = False\<rparr>],
      fc_any = []\<rparr>"

definition row_eq :: "string \<Rightarrow> string \<Rightarrow> string \<Rightarrow> fileCondition" where
  "row_eq name operand text =
     \<lparr>fc_name = name,
      fc_all = [\<lparr>f_value = operand, f_op = ''eq'', f_dataset = [], f_text = text, f_cond = [], f_type = [],
                 f_hash = [], f_static = False\<rparr>],
      fc_any = []\<rparr>"

theorem parseConditions_iff_witness:
  "(\<exists>out. parseConditions ascii_lib [row_is ''a'' ''b'', row_eq ''b'' ''$host'' ''h''] = Ok out) \<and>
   (\<exists>cyc. parseConditions ascii_lib [row_is ''a'' ''b'', row_is ''b'' ''a''] = Err (Cycle cyc))"
proof
  have "case parse_rows ascii_lib [] 0 [row_is ''a'' ''b'', row_eq ''b'' ''$host'' ''h''] of
      Ok out \<Rightarrow> map (map cl_ref \<circ> co_clauses \<circ> snd) out = [[''b''], [[]]] \<and> map fst out = [''a'', ''b''] | _ \<Rightarrow> False"
    by code_simp
  then obtain out where
    o: "parse_rows ascii_lib [] 0 [row_is ''a'' ''b'', row_eq ''b'' ''$host'' ''h''] = Ok out"
    and r: "map (map cl_ref \<circ> co_clauses \<circ> snd) out = [[''b''], [[]]]" "map fst out = [''a'', ''b'']"
    by (auto split: outcome.splits)
  have dep: "dep out x y \<Longrightarrow> x = ''b'' \<and> y = ''a''" for x y
    using r by (auto simp: dep_def refs_def Cons_eq_map_conv split: if_splits)
  have "(dep out)\<^sup>+\<^sup>+ x y \<Longrightarrow> x = ''b'' \<and> y = ''a''" for x y
    by (induction rule: tranclp_induct) (use dep in blast)+
  then have "\<forall>n. \<not> (dep out)\<^sup>+\<^sup>+ n n" by fastforce
  moreover have "refs_declared out"
    using dep r(2) by (auto simp: refs_declared_def dep_def simp flip: set_map)
  ultimately show "\<exists>out. parseConditions ascii_lib [row_is ''a'' ''b'', row_eq ''b'' ''$host'' ''h''] = Ok out"
    using parseConditions_iff [OF o] by blast
  have "case parseConditions ascii_lib [row_is ''a'' ''b'', row_is ''b'' ''a''] of Err (Cycle _) \<Rightarrow> True | _ \<Rightarrow> False"
    by code_simp
  then show "\<exists>cyc. parseConditions ascii_lib [row_is ''a'' ''b'', row_is ''b'' ''a''] = Err (Cycle cyc)"
    by (auto split: outcome.splits cond_err.splits)
qed

text \<open>C37: the exact condition under which the loader panics (the search dereferences a nil condition)
  on conditions without a cycle: among the conditions in the order of the file, the first one that
  depends, through any number of references, on a name that is not declared has only declared
  references of its own. When that first condition has an undeclared reference of its own, the loader
  reports it instead; so whether the same conditions end the process or give an error depends on their
  order.\<close>

theorem parseConditions_nil:
  assumes "parse_rows L [] 0 rows = Ok out" and "\<forall>n. \<not> (dep out)\<^sup>+\<^sup>+ n n"
  shows "parseConditions L rows = Panic \<longleftrightarrow>
    (\<exists>pre n c post. out = pre @ (n, c) # post \<and>
       (\<forall>x \<in> fst ` set pre. \<forall>z. (dep out)\<^sup>*\<^sup>* z x \<longrightarrow> z \<in> fst ` set out) \<and>
       refs out n \<subseteq> fst ` set out \<and> (\<exists>z. (dep out)\<^sup>*\<^sup>* z n \<and> z \<notin> fst ` set out))"
proof -
  have "distinct (map fst out)" using parse_rows_wf [OF assms(1)] by (simp add: names_ok_def)
  from check_graph_Panic [OF assms(2) this, of out] show ?thesis
    using assms(1) by (auto simp: parseConditions_def obind_Panic clean_def)
qed

text \<open>The condition \<open>a\<close> refers to \<open>b\<close>, and \<open>b\<close> to \<open>zzz\<close>, which is not declared.\<close>

lemma nil_rows:
  "\<exists>out. parse_rows ascii_lib [] 0 [row_is ''a'' ''b'', row_is ''b'' ''zzz''] = Ok out \<and> map fst out = [''a'', ''b''] \<and>
     (\<forall>x y. dep out x y \<longleftrightarrow> x = ''b'' \<and> y = ''a'' \<or> x = ''zzz'' \<and> y = ''b'')"
proof -
  have "case parse_rows ascii_lib [] 0 [row_is ''a'' ''b'', row_is ''b'' ''zzz''] of
      Ok out \<Rightarrow> map (map cl_ref \<circ> co_clauses \<circ> snd) out = [[''b''], [''zzz'']] \<and> map fst out = [''a'', ''b''] | _ \<Rightarrow> False"
    by code_simp
  then obtain out where
    o: "parse_rows ascii_lib [] 0 [row_is ''a'' ''b'', row_is ''b'' ''zzz''] = Ok out"
    and r: "map (map cl_ref \<circ> co_clauses \<circ> snd) out = [[''b''], [''zzz'']]" "map fst out = [''a'', ''b'']"
    by (auto split: outcome.splits)
  have "dep out x y \<longleftrightarrow> x = ''b'' \<and> y = ''a'' \<or> x = ''zzz'' \<and> y = ''b''" for x y
    using r by (auto simp: dep_def refs_def Cons_eq_map_conv split: if_splits)
  then show ?thesis by (intro exI [of _ out] conjI o r(2) allI)
qed

theorem parseConditions_nil_witness:
  "parseConditions ascii_lib [row_is ''a'' ''b'', row_is ''b'' ''zzz''] = Panic"
proof -
  obtain out where o: "parse_rows ascii_lib [] 0 [row_is ''a'' ''b'', row_is ''b'' ''zzz''] = Ok out"
    and k: "map fst out = [''a'', ''b'']"
    and d: "\<forall>x y. dep out x y \<longleftrightarrow> x = ''b'' \<and> y = ''a'' \<or> x = ''zzz'' \<and> y = ''b''"
    using nil_rows by (elim exE conjE) (rule that)
  note dep = d [rule_format]
  define rank :: "string \<Rightarrow> nat" where "rank x = (if x = ''a'' then 2 else if x = ''b'' then 1 else 0)" for x
  have less: "rank x < rank y" if "dep out x y" for x y using that by (auto simp: dep rank_def)
  have "(dep out)\<^sup>+\<^sup>+ x y \<Longrightarrow> rank x < rank y" for x y
    by (induction rule: tranclp_induct) (blast intro: less less_trans)+
  then have acyclic: "\<forall>n. \<not> (dep out)\<^sup>+\<^sup>+ n n" by blast
  obtain c post where out: "out = [] @ (''a'', c) # post" using k by (auto simp: Cons_eq_map_conv)
  have keys: "fst ` set out = {''a'', ''b''}" using k by (metis list.simps(15) set_empty set_map empty_set)
  have r: "refs out ''a'' \<subseteq> fst ` set out" unfolding keys
  proof
    fix x assume "x \<in> refs out ''a''"
    then have "x = ''b'' \<or> x = ''zzz'' \<and> ''a'' = ''b''" using dep [of x "''a''"] by (simp add: dep_def)
    then show "x \<in> {''a'', ''b''}" by auto
  qed
  have "dep out ''zzz'' ''b''" "dep out ''b'' ''a''" by (simp_all only: dep) simp_all
  then have "(dep out)\<^sup>*\<^sup>* ''zzz'' ''a''" by (metis r_into_rtranclp rtranclp.rtrancl_into_rtrancl)
  moreover have "''zzz'' \<notin> fst ` set out" by (simp add: keys)
  ultimately have z: "\<exists>z. (dep out)\<^sup>*\<^sup>* z ''a'' \<and> z \<notin> fst ` set out" by blast
  show ?thesis unfolding parseConditions_nil [OF o acyclic]
    by (rule exI [of _ "[]"], rule exI [of _ "''a''"], rule exI [of _ c], rule exI [of _ post],
        intro conjI out r z) simp
qed

text \<open>In the other order the same conditions are reported.\<close>

lemma nil_reported:
  "case parseConditions ascii_lib [row_is ''b'' ''zzz'', row_is ''a'' ''b''] of
     Err (Undeclared x y) \<Rightarrow> x = ''b'' \<and> y = ''zzz'' | _ \<Rightarrow> False"
  by code_simp

section \<open>Actions, lifetimes and writes\<close>

text \<open>C25: the loader turns a row into an action exactly when the row names no list, its lifetime and
  its \<open>when\<close> words parse, its verb is known, and the action with its axis filled in is well formed
  in the sense of \<open>action_ok\<close>; the action it returns is the row with its spaces trimmed and that
  axis.\<close>

theorem parseAction_exact:
  "parseAction L fa = Ok a \<longleftrightarrow>
     TrimSpace (fa_write fa) = [] \<and>
     (\<exists>ttl when' axes. action_ttl L (fa_ttl fa) = Ok ttl \<and> CheckArchiveWhen L (fa_when fa) = Ok when' \<and>
        map_of verbs (TrimSpace (fa_do fa)) = Some axes \<and>
        a = default_apply axes (action_of fa ttl when') \<and> action_ok a)"
  by (rule parseAction_iff)

text \<open>A lifetime of at most 106751 days is read exactly, in nanoseconds.\<close>

theorem parseTTL_exact:
  assumes "TrimSpace raw = ds @ ''d''" and "Atoi ds = Some n" and "0 \<le> n" and "n \<le> 106751"
  shows "parseTTL L raw = Some (n * 24 * Hour)"
  by (rule parseTTL_days [OF assms])

text \<open>Rows for the concrete runs.\<close>

definition archive_row :: "string \<Rightarrow> fileAction" where
  "archive_row ttl =
     \<lparr>fa_to = [], fa_do = ''archive'', fa_apply = [], fa_phase = [], fa_code = [], fa_delta = None,
      fa_value = None, fa_counter = [], fa_group = [], fa_set = ''on'', fa_marker = [], fa_ttl = ttl,
      fa_when = [], fa_headers = None, fa_args = None, fa_body = None, fa_list = [], fa_write = []\<rparr>"

definition write_row :: "string \<Rightarrow> fileAction" where
  "write_row ttl = (archive_row ttl)\<lparr>fa_do := [], fa_set := [], fa_list := ''ban''\<rparr>"

text \<open>Beyond 106751 days the multiplication wraps around 64 bits and the loader accepts the
  result: an archive row that asks for 106752 days is loaded with a negative lifetime, and a list
  write for 213504 days with one of less than half an hour.\<close>

theorem parseTTL_wraps:
  "map_err (\<lambda>_. ()) (obind (parseAction ascii_lib (archive_row ''106752d'')) (\<lambda>a. Ok (act_ttl a))) =
     Ok (Some (- 9223371273)) \<and>
   map_err (\<lambda>_. ()) (obind (parseWrite ascii_lib (write_row ''213504d'')) (\<lambda>w. Ok (w_ttl w))) =
     Ok 1526290448384"
  by code_simp

text \<open>C27: every list write the loader accepts names a well-formed list and reason, a known subject,
  and lives at least a second and at most what 64 bits of nanoseconds hold.\<close>

theorem parseWrite_bounds:
  assumes "parseWrite L fa = Ok w"
  shows "counterRe (w_list w) \<and> w_subject w \<in> {WriteAddr, WriteNet, WriteNetAll, WriteASN} \<and>
    Second \<le> w_ttl w \<and> w_ttl w < 2 ^ 63 \<and> codeRe (w_reason w)"
  using parseWrite_ok [OF assms] by (simp add: write_ok_def)

theorem parseWrite_bounds_witness:
  "\<exists>w. parseWrite ascii_lib (write_row ''10m'') = Ok w \<and> Second \<le> w_ttl w \<and> codeRe (w_reason w)"
proof -
  have "case parseWrite ascii_lib (write_row ''10m'') of Ok _ \<Rightarrow> True | _ \<Rightarrow> False" by code_simp
  then obtain w where w: "parseWrite ascii_lib (write_row ''10m'') = Ok w" by (auto split: outcome.splits)
  from parseWrite_bounds [OF w] w show ?thesis by blast
qed

section \<open>Profiles\<close>

text \<open>C24: a profile that loads is well formed: its mode is one of the two, its conditions have
  distinct names, declared references and no cycle, every rule names a declared condition or none
  and carries at least one action or write, all well formed, and an overload rule carries no match
  and no condition and a threshold between 25 and 100.\<close>

theorem ParseProfile_wf:
  assumes "ParseProfile L yaml name raw = Ok p"
  shows "p_name p = name \<and> p_mode p \<in> {ModeEnforce, ModeOff} \<and> conds_ok (p_conditions p) \<and>
    (\<forall>r \<in> set (p_rules p). rule_ok (p_conditions p) r)"
  using ParseProfile_ok [OF assms] by (simp add: profile_ok_def)

definition sample_rule :: fileRule where
  "sample_rule =
     \<lparr>fr_name = [], fr_match = \<lparr>fm_prefix = ''/login'', fm_suffixes = [], fm_static = False, fm_methods = [''post'']\<rparr>,
      fr_on = [], fr_at = None, fr_if = ''a'', fr_unless = [], fr_actions = [write_row ''10m'']\<rparr>"

definition sample_profile :: fileProfile where
  "sample_profile =
     \<lparr>fp_mode = [], fp_conditions = [row_is ''a'' ''b'', row_eq ''b'' ''$host'' ''h''], fp_rules = [sample_rule]\<rparr>"

theorem ParseProfile_wf_witness:
  "\<exists>p. ParseProfile ascii_lib (\<lambda>_. Some sample_profile) ''shop'' [] = Ok p \<and> p_name p = ''shop'' \<and>
     conds_ok (p_conditions p) \<and> (\<forall>r \<in> set (p_rules p). rule_ok (p_conditions p) r)"
proof -
  have "case ParseProfile ascii_lib (\<lambda>_. Some sample_profile) ''shop'' [] of Ok _ \<Rightarrow> True | _ \<Rightarrow> False"
    by code_simp
  then obtain p where p: "ParseProfile ascii_lib (\<lambda>_. Some sample_profile) ''shop'' [] = Ok p"
    by (auto split: outcome.splits)
  from ParseProfile_wf [OF p] p show ?thesis by blast
qed

text \<open>C26: what a profile says under overload is what its overload rules whose threshold is reached
  say, in their order: the rules at 100 fire only when a request was shed, the others from their
  fill on, and a fuller queue never silences a rule.\<close>

theorem CollectOverload_exact:
  "CollectOverload p fill shed =
     gather (filter (\<lambda>r. r_overload r \<and> (shed \<or> r_at r < 100 \<and> r_at r \<le> fill)) (p_rules p)) \<and>
   (fill \<le> fill' \<longrightarrow> set (snd (snd (CollectOverload p fill shed))) \<subseteq> set (snd (snd (CollectOverload p fill' shed))))"
  by (cases shed) (auto simp: CollectOverload_gather gather_def Fires_def)

definition overload_profile :: profile where
  "overload_profile =
     \<lparr>p_name = ''shop'', p_mode = ModeEnforce, p_conditions = [],
      p_rules = [\<lparr>r_name = ''soft'', r_match = \<lparr>m_prefix = [], m_suffixes = [], m_static = False, m_methods = []\<rparr>,
                  r_cond = [], r_negate = False, r_actions = [], r_writes = [], r_overload = True, r_at = 40\<rparr>]\<rparr>"

theorem CollectOverload_exact_witness:
  "(40::int) \<le> 90 \<and> snd (snd (CollectOverload overload_profile 40 False)) = [''soft''] \<and>
   set (snd (snd (CollectOverload overload_profile 40 False))) \<subseteq>
   set (snd (snd (CollectOverload overload_profile 90 False)))"
proof -
  have "snd (snd (CollectOverload overload_profile 40 False)) = [''soft'']" by code_simp
  then show ?thesis using CollectOverload_exact [of overload_profile 40 False 90, THEN conjunct2] by simp
qed

end
