(* ===== verification/Handler_Claims.thy ===== *)
theory Handler_Claims
  imports Handler Queue_Claims Config_Claims Policy_Claims
begin

text \<open>
  The properties of the handler: what a request is told is what the rules of its profile mean, every
  task is answered with exactly one message, and an answer that reports an error asks for nothing.
  The evaluation rests on the interpretation of \<open>source_view\<close> by the request source.
\<close>

section \<open>Evaluation\<close>

lemma gather_add_up: "add_up (gather xs) (gather ys) = gather (xs @ ys)"
  by (simp add: gather_def add_up_def)

lemma valuation_no_conds: "valuation L S [] w \<sigma> \<Longrightarrow> \<sigma> = (\<lambda>_. False)"
  by (auto simp: valuation_def cond_sem_def fun_eq_iff)

text \<open>With or without an evaluator, the rules that speak under the valuation add up, and the source
  is left in a state that keeps its invariant.\<close>

lemma inspect_collect:
  assumes "conds_ok (p_conditions p)"
    and "valuation (sv_lib sv) (sv_sets sv) (p_conditions p) (env_view (request_env sv req)) \<sigma>"
  shows "\<exists>ev. Collect (sv_lib sv) p (start_evaluator sv req p) m u =
      (gather (filter (rule_sem (sv_lib sv) \<sigma> m u) (p_rules p)), ev) \<and>
    (case ev of None \<Rightarrow> p_conditions p = [] | Some (E, e) \<Rightarrow> source_inv (request_env sv req) (ev_src e))"
proof (cases "p_conditions p = []")
  case True
  then have "\<sigma> = (\<lambda>_. False)" using assms(2) valuation_no_conds by metis
  then show ?thesis using True
    by (simp add: start_evaluator_def Collect_def Collect_rules_None)
next
  case False
  let ?E = "eval_env_of sv req p"
  have E: "en_lib ?E = sv_lib sv" "en_sets ?E = sv_sets sv" "en_conds ?E = p_conditions p"
    "en_ops ?E = source_ops_of (request_env sv req)" by (simp_all add: eval_env_of_def)
  obtain ev' where "Collect (sv_lib sv) p (Some (?E, NewEvaluator newSource)) m u =
      (gather (filter (rule_sem (sv_lib sv) \<sigma> m u) (p_rules p)), Some (?E, ev'))"
    and "src.ev_ok (request_env sv req) (env_view (request_env sv req)) \<sigma> ev'"
    using src.Collect_sem [of ?E "request_env sv req" \<sigma> newSource "sv_lib sv" p m u] assms E source_inv_new by auto
  then show ?thesis using False by (simp add: start_evaluator_def src.ev_ok_def)
qed

lemma inspect_cases:
  assumes "inspect sv ms req fill = Ok (reply, det, calls)"
  obtains (unknown) "map_of (sv_profiles sv) (route_profile (req_route req)) = None"
      and "reply = ErrorReply req codeUnknownProfile" and "calls = []"
    | (off) p where "map_of (sv_profiles sv) (route_profile (req_route req)) = Some p" and "p_mode p = ModeOff"
      and "reply = plain req codeProfileOff" and "calls = []"
    | (fault) "reply = ErrorReply req codeStoreError" and "calls = []"
    | (geo) err where "reply = ErrorReply req codeGeoUnavailable"
    | (told) p c0 ev c where "map_of (sv_profiles sv) (route_profile (req_route req)) = Some p" and "p_mode p \<noteq> ModeOff"
      and "Collect (sv_lib sv) p (start_evaluator sv req p) (http_method (req_http req)) (http_uri (req_http req)) = (c0, ev)"
      and "c = (if req_phase req = PhaseRequest then add_up c0 (CollectOverload p fill False) else c0)"
      and "reply = (plain req codeOK)\<lparr>rep_actions := fst c\<rparr>" and "publish sv (fst (snd c)) req = (None, calls)"
proof (cases "map_of (sv_profiles sv) (route_profile (req_route req))")
  case None
  then show thesis using assms unknown by (simp add: inspect_def)
next
  case p: (Some p)
  show thesis
  proof (cases "p_mode p = ModeOff")
    case True
    then show thesis using assms p off by (simp add: inspect_def)
  next
    case False
    obtain c0 ev where col: "Collect (sv_lib sv) p (start_evaluator sv req p) (http_method (req_http req))
        (http_uri (req_http req)) = (c0, ev)" by (metis surj_pair)
    define c where "c = (if req_phase req = PhaseRequest then add_up c0 (CollectOverload p fill False) else c0)"
    obtain err cs where pub: "publish sv (fst (snd c)) req = (err, cs)" by (metis surj_pair)
    note run = assms [unfolded inspect_def p option.case if_not_P [OF False] col prod.case Let_def c_def [symmetric]]
    then show thesis
      using fault geo told [OF p False col c_def] pub by (auto split: if_splits option.splits)
  qed
qed

lemma reply_fields [simp]:
  "rep_rid (plain req code) = req_rid req" "rep_inspector (plain req code) = req_inspector req"
  "rep_verdict (plain req code) = VerdictAllow" "rep_actions (plain req code) = []" "rep_score (plain req code) = None"
  "rep_reason (plain req code) = Some \<lparr>reason_code = code, reason_class = []\<rparr>"
  "rep_rid (ErrorReply req code) = req_rid req" "rep_inspector (ErrorReply req code) = req_inspector req"
  "rep_verdict (ErrorReply req code) = VerdictError" "rep_actions (ErrorReply req code) = []"
  "rep_score (ErrorReply req code) = None"
  "rep_reason (ErrorReply req code) = Some \<lparr>reason_code = code, reason_class = []\<rparr>"
  by (simp_all add: plain_def NewReply_def ErrorReply_def)

lemma more_reply_fields [simp]:
  "rep_score (ShedReply req code) = None" "rep_score (FallbackReply rid insp code) = None"
  "rep_verdict (ShedReply req code) = VerdictError" "rep_rid (ShedReply req code) = req_rid req"
  by (simp_all add: ShedReply_def FallbackReply_def)

lemma inspect_no_score:
  assumes "inspect sv ms req fill = Ok (reply, det, calls)"
  shows "rep_score reply = None"
  using assms by (cases rule: inspect_cases) simp_all

lemma overloadOnShed_score:
  "overloadOnShed sv t shed reply eng = (reply', eng', calls) \<Longrightarrow> rep_score reply' = rep_score reply"
  by (auto simp: overloadOnShed_def Let_def split: if_splits option.splits prod.splits)

section \<open>Sending\<close>

lemma payload_total:
  assumes "\<And>r. sv_json_reply sv r \<noteq> None" and "rep_score reply = None"
  shows "payload_of sv reply \<noteq> None"
proof -
  obtain p where "sv_json_reply sv reply = Some p" using assms(1) by blast
  then show ?thesis using assms(2) by (simp add: payload_of_def Marshal_def)
qed

lemma send_one:
  assumes "\<And>r. sv_json_reply sv r \<noteq> None" and "rep_score reply = None" and "subject \<noteq> []"
  shows "\<exists>p. ef_sent (send sv ts subject reply req' det ef) = ef_sent ef @ [(subject, p)]"
  using payload_total [OF assms(1,2)] assms(3) by (auto simp: send_def)

lemma send_lists [simp]: "ef_lists (send sv ts subject reply req' det ef) = ef_lists ef"
  by (simp add: send_def split: option.split)

section \<open>A sample server\<close>

definition tell :: "string \<Rightarrow> action" where
  "tell code = \<lparr>act_to = ''modsec'', act_do = ''skip'', act_apply = ''request'', act_phase = [], act_code = code,
     act_delta = None, act_value = None, act_counter = [], act_marker = [], act_group = [], act_set = [],
     act_ttl = None, act_when = [], act_headers = None, act_args = None, act_body = None\<rparr>"

definition demo_rule :: "string \<Rightarrow> string \<Rightarrow> bool \<Rightarrow> int \<Rightarrow> rule" where
  "demo_rule name cond overload at =
     \<lparr>r_name = name, r_match = \<lparr>m_prefix = ''/log'', m_suffixes = [], m_static = False, m_methods = []\<rparr>,
      r_cond = cond, r_negate = False, r_actions = [tell name], r_writes = [], r_overload = overload, r_at = at\<rparr>"

definition demo_conds :: conds where
  "demo_conds = [(''office'', \<lparr>co_name = ''office'', co_any = False,
     co_clauses = [zero_clause\<lparr>cl_operand := \<lparr>opd_raw = ''$remote_addr'', opd_kind = OperandField,
       opd_name = ''remote_addr'', opd_all = False\<rparr>, cl_op := OpEq, cl_text := ''10.1.2.3''\<rparr>]\<rparr>)]"

definition demo_profile :: profile where
  "demo_profile = \<lparr>p_name = ''shop'', p_mode = ModeEnforce, p_conditions = demo_conds,
     p_rules = [demo_rule ''OFFICE'' ''office'' False 0, demo_rule ''BUSY'' [] True 50]\<rparr>"

definition demo_server :: server where
  "demo_server =
     \<lparr>sv_lib = ascii_lib, sv_cfg = sample_config, sv_profiles = [(''shop'', demo_profile)], sv_sets = None,
      sv_loader = \<lparr>ld_lib = ascii_lib, ld_store = None, ld_keys = None, ld_gcm = (\<lambda>_ _ _. None)\<rparr>,
      sv_lists = True, sv_networked = (\<lambda>_. False), sv_geo = (\<lambda>_ _. Inr []), sv_json_reply = (\<lambda>r. Some (rep_verdict r)),
      sv_json_request = (\<lambda>_. Some some_request), sv_json_headers = (\<lambda>_. None), sv_json_event = (\<lambda>_. None),
      sv_std_order = [], sv_obj_order = [''headers'', ''args'', ''body''], sv_bus = True\<rparr>"

definition demo_reply :: reply where
  "demo_reply = (plain some_request codeOK)\<lparr>rep_actions := [tell ''OFFICE'', tell ''BUSY'']\<rparr>"

lemma demo_inspect: "\<exists>det. inspect demo_server 0 some_request 60 = Ok (demo_reply, det, [])"
proof -
  have "case inspect demo_server 0 some_request 60 of Ok (r, _, calls) \<Rightarrow> r = demo_reply \<and> calls = [] | _ \<Rightarrow> False"
    by code_simp
  then show ?thesis by (auto split: outcome.splits)
qed

lemma demo_conds_ok: "conds_ok demo_conds"
proof -
  have r: "refs demo_conds n = {}" for n
    by (auto simp: refs_def demo_conds_def zero_clause_def)
  have "grounded demo_conds n" for n by (rule accp.accI) (simp add: dep_def r)
  moreover have "names_ok demo_conds" by (simp add: names_ok_def demo_conds_def)
  ultimately show ?thesis by (simp add: conds_ok_def refs_declared_def r)
qed

definition demo_truth :: "string \<Rightarrow> bool" where "demo_truth n \<longleftrightarrow> n = ''office''"

lemma demo_valuation:
  "valuation ascii_lib None demo_conds (env_view (request_env demo_server some_request)) demo_truth"
proof -
  have ip: "vw_field (env_view (request_env demo_server some_request)) ''remote_addr'' = ''10.1.2.3''"
    by (simp add: env_view_def field_view_def request_env_def some_request_def)
  show ?thesis
    unfolding valuation_def
  proof
    fix n
    show "demo_truth n = cond_sem ascii_lib None demo_conds (env_view (request_env demo_server some_request)) demo_truth n"
      using ip by (simp add: demo_truth_def cond_sem_def demo_conds_def clause_sem_def zero_clause_def leaf_sem_def
          view_values_def Values_def pure_ops_def nonEmpty_def hit_def clause_result_def Negated_def)
  qed
qed

section \<open>Properties\<close>

text \<open>A request that is told something is told exactly what its profile means: the actions of
  the rules that match and whose condition has its truth value under the one valuation of the
  profile's conditions over the request, in the order of the file, followed by the overload rules
  whose threshold the queue has reached. Neither the lazy evaluation nor what it remembers shows.\<close>

theorem request_told:
  assumes "map_of (sv_profiles sv) (route_profile (req_route req)) = Some p" and "p_mode p \<noteq> ModeOff"
    and "conds_ok (p_conditions p)" and "req_phase req = PhaseRequest"
    and "valuation (sv_lib sv) (sv_sets sv) (p_conditions p) (env_view (request_env sv req)) \<sigma>"
    and "inspect sv ms req fill = Ok (reply, det, calls)" and "rep_verdict reply = VerdictAllow"
  shows "rep_actions reply =
    concat (map r_actions (filter (rule_sem (sv_lib sv) \<sigma> (http_method (req_http req)) (http_uri (req_http req))) (p_rules p))) @
    concat (map r_actions (filter (\<lambda>r. r_overload r \<and> Fires (r_at r) fill False) (p_rules p)))"
  using assms(6)
proof (cases rule: inspect_cases)
  case (told p' c0 ev c)
  from inspect_collect [OF assms(3,5)] told(3) assms(1) told(1)
  have "c0 = gather (filter (rule_sem (sv_lib sv) \<sigma> (http_method (req_http req)) (http_uri (req_http req))) (p_rules p))"
    by (metis fst_conv option.inject)
  then have "c = gather (filter (rule_sem (sv_lib sv) \<sigma> (http_method (req_http req)) (http_uri (req_http req))) (p_rules p) @
      filter (\<lambda>r. r_overload r \<and> Fires (r_at r) fill False) (p_rules p))"
    using told(1,4) assms(1,4) by (simp add: CollectOverload_gather gather_add_up)
  then show ?thesis using told(5) by (simp add: gather_def)
qed (use assms in simp_all)

theorem request_told_witness:
  "\<exists>det. inspect demo_server 0 some_request 60 = Ok (demo_reply, det, []) \<and>
     rep_actions demo_reply =
       concat (map r_actions (filter (rule_sem ascii_lib demo_truth ''GET'' ''/login'') (p_rules demo_profile))) @
       concat (map r_actions (filter (\<lambda>r. r_overload r \<and> Fires (r_at r) 60 False) (p_rules demo_profile)))"
proof -
  obtain det where run: "inspect demo_server 0 some_request 60 = Ok (demo_reply, det, [])" using demo_inspect by blast
  have "rep_verdict demo_reply = VerdictAllow" by (simp add: demo_reply_def)
  then show ?thesis
    using request_told [of demo_server some_request demo_profile demo_truth 0 60 demo_reply det "[]"] run
      demo_conds_ok demo_valuation
    by (simp add: demo_server_def demo_profile_def some_request_def)
qed

text \<open>Every reply of an evaluation carries the identity of its request and the verdict allow or
  error; one with the verdict error asks the neighbours for nothing, and it has written to a list
  only if the geo coder failed for another write.\<close>

theorem inspect_contract:
  assumes "inspect sv ms req fill = Ok (reply, det, calls)"
  shows "rep_rid reply = req_rid req \<and> rep_inspector reply = req_inspector req \<and> rep_score reply = None \<and>
    (rep_verdict reply = VerdictAllow \<or>
     rep_verdict reply = VerdictError \<and> rep_actions reply = [] \<and>
       (calls = [] \<or> rep_reason reply = Some \<lparr>reason_code = codeGeoUnavailable, reason_class = []\<rparr>))"
  using assms by (cases rule: inspect_cases) simp_all

theorem inspect_contract_witness:
  "\<exists>det. inspect demo_server 0 some_request 60 = Ok (demo_reply, det, []) \<and> rep_rid demo_reply = req_rid some_request"
proof -
  obtain det where run: "inspect demo_server 0 some_request 60 = Ok (demo_reply, det, [])" using demo_inspect by blast
  show ?thesis using inspect_contract [OF run] run by blast
qed

text \<open>The notice of a release is the one message nobody waits for an answer to.\<close>

definition released :: "server \<Rightarrow> string \<Rightarrow> bool" where
  "released sv payload =
     (case Parse (sv_obj_order sv) (sv_json_request sv) payload of
        Ok req \<Rightarrow> Supports (sv_cfg sv) (req_v req) \<and> req_release req \<noteq> None
      | _ \<Rightarrow> False)"

lemma evaluate_one:
  assumes "\<And>r. sv_json_reply sv r \<noteq> None" and "t_reply t \<noteq> []"
  shows "\<exists>p. ef_sent (evaluate sv ts ms t shed ef) = ef_sent ef @ [(t_reply t, p)]"
proof (cases "shed = []")
  case True
  let ?e = "\<lambda>calls. ef\<lparr>ef_lists := ef_lists ef @ calls\<rparr>"
  show ?thesis
  proof (cases "inspect sv ms (t_req t) (t_fill t)")
    case (Ok x)
    obtain reply det calls where x: "x = (reply, det, calls)" by (cases x)
    then have "rep_score reply = None" using Ok inspect_no_score by blast
    from send_one [OF assms(1) this assms(2), of ts "Some (t_req t)" det "?e calls"] x show ?thesis
      using True Ok by (simp add: evaluate_def)
  qed (use True assms in \<open>simp_all add: evaluate_def recoverInto_def send_one\<close>)
next
  case False
  obtain reply eng calls where o: "overloadOnShed sv t shed (ShedReply (t_req t) shed) [(''shed'', EngText shed)] = (reply, eng, calls)"
    by (metis surj_pair)
  then have "rep_score reply = None" using overloadOnShed_score by fastforce
  from send_one [OF assms(1) this assms(2), where ef = "ef\<lparr>ef_lists := ef_lists ef @ calls\<rparr>"] show ?thesis
    using False o by (simp add: evaluate_def)
qed

lemma receive_one:
  assumes "\<And>r. sv_json_reply sv r \<noteq> None" and "subject \<noteq> []"
  shows "case receive sv ts tid subject payload ef of
       (ef', Some t) \<Rightarrow> ef' = ef \<and> t_reply t = subject \<and> t_id t = tid
     | (ef', None) \<Rightarrow> if released sv payload then ef' = ef else \<exists>p. ef_sent ef' = ef_sent ef @ [(subject, p)]"
  using assms
  by (auto simp: receive_def released_def fallback_def recoverInto_def send_one split: outcome.split)

text \<open>The handler answers every task with exactly one message on its reply subject, shed or not and
  also when the evaluation panics, given that the encoder encodes; and a received message is
  either submitted to the pool unanswered, or answered at once with exactly one message, or is the
  notice of a release, which is not answered.\<close>

theorem handler_answers:
  assumes "\<And>r. sv_json_reply sv r \<noteq> None" and "t_reply t \<noteq> []"
  shows "(\<exists>p. ef_sent (evaluate sv ts ms t shed ef) = ef_sent ef @ [(t_reply t, p)]) \<and>
    (case receive sv ts tid (t_reply t) payload ef of
       (ef', Some task') \<Rightarrow> ef' = ef \<and> t_reply task' = t_reply t
     | (ef', None) \<Rightarrow>
         if released sv payload then ef' = ef else \<exists>p. ef_sent ef' = ef_sent ef @ [(t_reply t, p)])"
  using evaluate_one [OF assms] receive_one [OF assms, where ts = ts and tid = tid and payload = payload and ef = ef]
  by (auto split: prod.splits option.splits)

theorem handler_answers_witness:
  "\<exists>p. ef_sent (evaluate demo_server [] 0 some_task [] \<lparr>ef_sent = [], ef_audit = [], ef_lists = []\<rparr>) = [(''_INBOX.1'', p)]"
proof -
  have "\<And>r. sv_json_reply demo_server r \<noteq> None" "t_reply some_task \<noteq> []"
    by (simp_all add: demo_server_def some_task_def)
  from handler_answers [OF this, of "[]" 0 "[]" "\<lparr>ef_sent = [], ef_audit = [], ef_lists = []\<rparr>"]
  show ?thesis by (simp add: some_task_def)
qed

text \<open>The writes of a request are published one by one: a write of an address publishes it, a
  write of networks publishes what the geo coder answers unless that is nothing, a failure of the
  coder skips that write only, and the first failure is reported.\<close>

theorem writeLists_exact:
  "writeLists networked geo addr writes =
     (if addr = [] then (None, [])
      else let ask = \<lambda>w. if networked (w_subject w) then geo (w_subject w) addr else Inr [addr]
      in (find (\<lambda>_. True) [e. Inl e \<leftarrow> map ask writes],
          [\<lparr>lc_list = w_list w, lc_values = vs, lc_ttl = w_ttl w, lc_reason = w_reason w\<rparr>.
             (w, Inr vs) \<leftarrow> map (\<lambda>w. (w, ask w)) writes, vs \<noteq> []]))"
proof -
  let ?ask = "\<lambda>w. if networked (w_subject w) then geo (w_subject w) addr else Inr [addr]"
  have "write_loop networked geo addr writes failed calls =
      ((if failed = None then find (\<lambda>_. True) [e. Inl e \<leftarrow> map ?ask writes] else failed),
       calls @ [\<lparr>lc_list = w_list w, lc_values = vs, lc_ttl = w_ttl w, lc_reason = w_reason w\<rparr>.
             (w, Inr vs) \<leftarrow> map (\<lambda>w. (w, ?ask w)) writes, vs \<noteq> []])" if "addr \<noteq> []" for failed calls
    using that by (induction writes arbitrary: failed calls) (auto split: sum.split)
  then show ?thesis by (simp add: writeLists_def Let_def)
qed

text \<open>A request of an unsupported schema version is answered with the verdict allow.\<close>

theorem receive_unsupported:
  assumes "Parse (sv_obj_order sv) (sv_json_request sv) payload = Ok req" and "\<not> Supports (sv_cfg sv) (req_v req)"
  shows "receive sv ts tid subject payload ef = (send sv ts subject (plain req codeUnsupportedVersion) (Some req) no_details ef, None) \<and>
    rep_verdict (plain req codeUnsupportedVersion) = VerdictAllow"
  using assms by (simp add: receive_def)

theorem receive_unsupported_witness:
  "ef_sent (fst (receive (demo_server\<lparr>sv_cfg := sample_config\<lparr>cf_Versions := [3]\<rparr>\<rparr>) [] 0 ''r'' []
     \<lparr>ef_sent = [], ef_audit = [], ef_lists = []\<rparr>)) = [(''r'', ''allow'')]"
proof -
  let ?sv = "demo_server\<lparr>sv_cfg := sample_config\<lparr>cf_Versions := [3]\<rparr>\<rparr>"
  have "Parse (sv_obj_order ?sv) (sv_json_request ?sv) [] = Ok some_request"
    by (simp add: demo_server_def Parse_def some_request_def validate_locator_def store_object_def)
  moreover have "\<not> Supports (sv_cfg ?sv) (req_v some_request)" by (simp add: Supports_def some_request_def)
  ultimately show ?thesis
    using receive_unsupported [of ?sv "[]" some_request "[]" 0 "''r''" "\<lparr>ef_sent = [], ef_audit = [], ef_lists = []\<rparr>"]
    by (simp add: send_def payload_of_def Marshal_def demo_server_def)
qed

end
