(* ===== verification/Tree_FS.thy ===== *)
theory Tree_FS
  imports Go_Prelude
begin

text \<open>
  What the inspector uses of the packages \<open>os\<close> and \<open>path/filepath\<close>, on an explicit tree: an
  association list from paths (lists of components) to directories and files. \<open>fails\<close> says which
  calls the operating system refuses; a refused call changes nothing. A file carries the time of its
  last write, because the reload watches it.
\<close>

type_synonym path = "string list"

datatype node = Dir | File (contents: string) (mtime: int)

type_synonym tree = "(path \<times> node) list"

datatype os_call =
    MkdirCall path | WriteCall path | RenameCall path path | RemoveCall path | ReadCall path | ReadDirCall path

type_synonym os_faults = "os_call \<Rightarrow> bool"

section \<open>Paths\<close>

definition clean_step :: "path \<Rightarrow> string \<Rightarrow> path" where
  "clean_step p comp' =
     (if comp' = [] \<or> comp' = ''.'' then p else if comp' = ''..'' then butlast p else p @ [comp'])"

text \<open>\<open>filepath.Join\<close> of an absolute directory and a relative path.\<close>

definition path_join :: "path \<Rightarrow> string \<Rightarrow> path" where
  "path_join dir rel = foldl clean_step dir (Split rel (CHR ''/''))"

definition under :: "path \<Rightarrow> path \<Rightarrow> bool" where
  "under p x = prefix p x"

section \<open>Calls\<close>

definition os_stat :: "tree \<Rightarrow> path \<Rightarrow> node option" where
  "os_stat t p = map_of t p"

text \<open>A path with a NUL byte is refused before it reaches the system.\<close>

definition bad_path :: "path \<Rightarrow> bool" where
  "bad_path p = list_ex (\<lambda>c. list_ex (\<lambda>x. x = CHR 0x00) c) p"

definition ReadFile :: "os_faults \<Rightarrow> path \<Rightarrow> tree \<Rightarrow> string option" where
  "ReadFile fails p t =
     (if fails (ReadCall p) \<or> bad_path p then None
      else case map_of t p of Some (File c _) \<Rightarrow> Some c | _ \<Rightarrow> None)"

definition entries_of :: "path \<Rightarrow> tree \<Rightarrow> (string \<times> node) list" where
  "entries_of d t = map (\<lambda>(x, n). (last x, n)) (filter (\<lambda>(x, n). x \<noteq> [] \<and> butlast x = d) t)"

text \<open>\<open>os.ReadDir\<close> answers the entries sorted by name.\<close>

definition ReadDir :: "os_faults \<Rightarrow> path \<Rightarrow> tree \<Rightarrow> (string \<times> node) list option" where
  "ReadDir fails d t =
     (if fails (ReadDirCall d) \<or> map_of t d \<noteq> Some Dir then None else Some (sort_key fst (entries_of d t)))"

fun mkdir_all :: "path \<Rightarrow> path \<Rightarrow> tree \<Rightarrow> tree option" where
  "mkdir_all base [] t = Some t"
| "mkdir_all base (c # cs) t =
     (case map_of t (base @ [c]) of
        None \<Rightarrow> mkdir_all (base @ [c]) cs (t @ [(base @ [c], Dir)])
      | Some Dir \<Rightarrow> mkdir_all (base @ [c]) cs t
      | Some (File _ _) \<Rightarrow> None)"

definition MkdirAll :: "os_faults \<Rightarrow> path \<Rightarrow> tree \<Rightarrow> tree option" where
  "MkdirAll fails p t = (if fails (MkdirCall p) \<or> bad_path p then None else mkdir_all [] p t)"

definition WriteFile :: "os_faults \<Rightarrow> int \<Rightarrow> path \<Rightarrow> string \<Rightarrow> tree \<Rightarrow> tree option" where
  "WriteFile fails now p data t =
     (if fails (WriteCall p) \<or> bad_path p \<or> map_of t (butlast p) \<noteq> Some Dir \<or> map_of t p = Some Dir then None
      else Some (AList.update p (File data now) t))"

text \<open>\<open>os.RemoveAll\<close>, whose error the code ignores.\<close>

definition RemoveAll :: "os_faults \<Rightarrow> path \<Rightarrow> tree \<Rightarrow> tree" where
  "RemoveAll fails p t = (if fails (RemoveCall p) then t else filter (\<lambda>(x, n). \<not> under p x) t)"

datatype rename_err = NotExist | RenameFailed

definition move :: "path \<Rightarrow> path \<Rightarrow> tree \<Rightarrow> tree" where
  "move p q t = map (\<lambda>(x, n). (if under p x then q @ drop (length p) x else x, n)) t"

text \<open>\<open>os.Rename\<close>: Go refuses a target that is a directory, also an empty one; a file may be
  replaced by a file. Moving a directory into itself is refused by the system.\<close>

definition Rename :: "os_faults \<Rightarrow> path \<Rightarrow> path \<Rightarrow> tree \<Rightarrow> (rename_err, tree) outcome" where
  "Rename fails p q t =
     (if fails (RenameCall p q) then Err RenameFailed
      else case map_of t p of
        None \<Rightarrow> Err NotExist
      | Some n \<Rightarrow>
          (case map_of t q of
             Some Dir \<Rightarrow> Err RenameFailed
           | Some (File _ _) \<Rightarrow>
               if n = Dir then Err RenameFailed
               else if p = q then Ok t
               else Ok (move p q (filter (\<lambda>(x, n). x \<noteq> q) t))
           | None \<Rightarrow>
               (case map_of t (butlast q) of
                  None \<Rightarrow> Err NotExist
                | Some (File _ _) \<Rightarrow> Err RenameFailed
                | Some Dir \<Rightarrow> if under p q then Err RenameFailed else Ok (move p q t))))"

section \<open>Subtrees\<close>

text \<open>What lies under a path, by the path from there.\<close>

definition subtree :: "path \<Rightarrow> tree \<Rightarrow> path \<rightharpoonup> node" where
  "subtree p t = (\<lambda>x. map_of t (p @ x))"

text \<open>A tree in order: one node for each path, and every node but the root in a directory.\<close>

definition tree_ok :: "tree \<Rightarrow> bool" where
  "tree_ok t \<longleftrightarrow> distinct (map fst t) \<and> map_of t [] = Some Dir \<and>
     (\<forall>x. x \<noteq> [] \<longrightarrow> map_of t x \<noteq> None \<longrightarrow> map_of t (butlast x) = Some Dir)"

definition apart :: "path \<Rightarrow> path \<Rightarrow> bool" where
  "apart p q \<longleftrightarrow> \<not> under p q \<and> \<not> under q p"

lemma map_of_filter_key: "map_of (filter (\<lambda>(x, n). P x) t) k = (if P k then map_of t k else None)"
  by (induction t) auto

lemma RemoveAll_lookup:
  "map_of (RemoveAll fails p t) x = (if \<not> fails (RemoveCall p) \<and> under p x then None else map_of t x)"
  by (simp add: RemoveAll_def map_of_filter_key)

lemma under_append [simp]: "under p (p @ x)"
  by (simp add: under_def)

lemma move_lookup:
  assumes "\<forall>x. under q x \<longrightarrow> map_of t x = None"
  shows "map_of (move p q t) (q @ y) = map_of t (p @ y)"
  using assms
proof (induction t)
  case Nil
  then show ?case by (simp add: move_def)
next
  case (Cons e t)
  obtain x n where e: "e = (x, n)" by (cases e)
  have rest: "\<forall>x. under q x \<longrightarrow> map_of t x = None" and nx: "\<not> under q x"
    using Cons.prems by (auto simp: e split: if_splits)
  show ?case
  proof (cases "under p x")
    case True
    then obtain z where z: "x = p @ z" by (auto simp: under_def prefix_def)
    then show ?thesis using Cons.IH [OF rest] by (simp add: move_def e)
  next
    case False
    then have "q @ y \<noteq> x" "p @ y \<noteq> x" using nx by (auto simp: under_def)
    then show ?thesis using Cons.IH [OF rest] False by (simp add: move_def e)
  qed
qed

lemma move_lookup_other:
  assumes "\<not> under p x" and "\<not> under q x"
  shows "map_of (move p q t) x = map_of t x"
proof (induction t)
  case (Cons e t)
  obtain z n where e: "e = (z, n)" by (cases e)
  then show ?case using Cons assms by (auto simp: move_def under_def)
qed (simp add: move_def)

lemma move_lookup_source:
  assumes "under p x" and "\<not> under q x"
  shows "map_of (move p q t) x = None"
proof (induction t)
  case (Cons e t)
  obtain z n where e: "e = (z, n)" by (cases e)
  then show ?case using Cons assms by (auto simp: move_def under_def)
qed (simp add: move_def)

lemma under_refl [simp]: "under p p"
  by (simp add: under_def)

lemma underE:
  assumes "under p x"
  obtains y where "x = p @ y"
  using assms unfolding under_def prefix_def by blast

lemma under_trans: "under p q \<Longrightarrow> under q x \<Longrightarrow> under p x"
  unfolding under_def by (rule prefix_order.trans)

lemma apart_under: "apart p q \<Longrightarrow> under p x \<Longrightarrow> \<not> under q x"
  using prefix_same_cases [of p x q] by (auto simp: apart_def under_def)

lemma apart_sym: "apart p q \<longleftrightarrow> apart q p"
  by (auto simp: apart_def)

lemma siblings_apart [simp]: "a \<noteq> b \<Longrightarrow> apart (d @ [a]) (d @ [b])"
  by (auto simp: apart_def under_def)

lemma under_butlast: "under p x \<Longrightarrow> x \<noteq> p \<Longrightarrow> under p (butlast x)"
  by (auto simp: under_def prefix_def butlast_append)

text \<open>Nothing lives below what is not a directory.\<close>

lemma tree_ok_parent: "tree_ok t \<Longrightarrow> x \<noteq> [] \<Longrightarrow> map_of t x \<noteq> None \<Longrightarrow> map_of t (butlast x) = Some Dir"
  by (simp add: tree_ok_def)

lemma below_no_dir:
  assumes "tree_ok t" and "map_of t q \<noteq> Some Dir"
  shows "y \<noteq> [] \<Longrightarrow> map_of t (q @ y) = None"
proof (induction y rule: rev_induct)
  case (snoc c y)
  show ?case
  proof (rule ccontr)
    assume "map_of t (q @ y @ [c]) \<noteq> None"
    with tree_ok_parent [OF assms(1), of "q @ y @ [c]"] have "map_of t (q @ y) = Some Dir"
      by (simp add: butlast_append)
    then show False using assms(2) snoc.IH by (cases "y = []") auto
  qed
qed simp

lemma below_none:
  assumes "tree_ok t" and "map_of t q = None" and "under q x"
  shows "map_of t x = None"
proof -
  obtain y where "x = q @ y" using assms(3) by (rule underE)
  then show ?thesis using assms below_no_dir [OF assms(1), of q y] by (cases "y = []") auto
qed

end
