(* ===== verification/Policy_Store.thy ===== *)
theory Policy_Store
  imports Policy_Rules Tree_FS
begin

text \<open>
  Loading a directory of profiles (\<open>LoadDir\<close> in \<open>internal/policy/policy.go\<close>), the static lists its
  conditions name (\<open>loadStatic\<close> in \<open>static.go\<close>) and the store that swaps snapshots (\<open>store.go\<close>).
  The store's critical sections are functions on the record \<open>store\<close>; \<open>watch_tick\<close> is one turn of the
  loop \<open>Watch\<close>. The callback of \<open>OnLoad\<close> is recorded as the list of the snapshots it was given.
\<close>

record fs_env =
  fx_lib :: go_lib
  fx_yaml :: "string \<Rightarrow> fileProfile option"
  fx_fails :: os_faults

type_synonym profiles = "(string \<times> profile) list"

datatype load_err =
    DirUnreadable | ProfileUnreadable string | ProfileBad string profile_err
  | StaticList string string string static_err

section \<open>Profiles of a directory\<close>

definition profileName :: "go_lib \<Rightarrow> string \<times> node \<Rightarrow> string option" where
  "profileName L e =
     (if snd e = Dir \<or> HasPrefix (fst e) ''.'' \<or> HasPrefix (fst e) ''_'' then None
      else let (name, found) = (if snd (CutSuffix (fst e) ''.yaml'') then CutSuffix (fst e) ''.yaml''
                                else CutSuffix (fst e) ''.yml'')
      in if \<not> found \<or> name = [] then None else Some (ToLower L name))"

definition Names :: "profiles \<Rightarrow> string list" where
  "Names ps = sort (map fst ps)"

fun load_entries :: "fs_env \<Rightarrow> path \<Rightarrow> tree \<Rightarrow> (string \<times> node) list \<Rightarrow> profiles \<Rightarrow> (load_err, profiles) outcome" where
  "load_entries E dir t [] out = Ok out"
| "load_entries E dir t (e # es) out =
     (case profileName (fx_lib E) e of
        None \<Rightarrow> load_entries E dir t es out
      | Some name \<Rightarrow>
          (case ReadFile (fx_fails E) (dir @ [fst e]) t of
             None \<Rightarrow> Err (ProfileUnreadable (fst e))
           | Some raw \<Rightarrow>
               obind (map_err (ProfileBad name) (ParseProfile (fx_lib E) (fx_yaml E) name raw)) (\<lambda>p.
                 load_entries E dir t es (AList.update name p out))))"

section \<open>Static lists\<close>

abbreviation ListsDir :: string where "ListsDir \<equiv> ''.lists''"

definition list_file :: "path \<Rightarrow> string \<Rightarrow> path" where
  "list_file dir dataset = path_join (dir @ [ListsDir]) (dataset @ ''.txt'')"

text \<open>The key of the map of sets: the name of the list, marked for an address list.\<close>

definition cidr_mark :: string where
  "cidr_mark = CHR 0x00 # ''cidr''"

definition static_key :: "string \<Rightarrow> bool \<Rightarrow> string" where
  "static_key ds addr = (if addr then ds @ cidr_mark else ds)"

type_synonym set_cache = "(string \<times> static_set) list"

text \<open>One clause: the set is read once for each list and kind, and attached.\<close>

definition attach_static ::
  "(string \<Rightarrow> string option) \<Rightarrow> clause \<Rightarrow> set_cache \<Rightarrow> (string \<times> static_err, clause \<times> set_cache) outcome" where
  "attach_static read cl sets =
     (if \<not> cl_is_static cl then Ok (cl, sets)
      else case map_of sets (static_key (cl_dataset cl) (cl_addr cl)) of
        Some s \<Rightarrow> Ok (cl\<lparr>cl_static := Some s\<rparr>, sets)
      | None \<Rightarrow>
          obind (map_err (\<lambda>e. (cl_dataset cl, e)) (readStatic read (cl_dataset cl) (cl_addr cl))) (\<lambda>s.
            Ok (cl\<lparr>cl_static := Some s\<rparr>, (static_key (cl_dataset cl) (cl_addr cl), s) # sets)))"

text \<open>A loop that threads the cache and collects the results.\<close>

fun thread_each :: "('a \<Rightarrow> 'c \<Rightarrow> ('e, 'b \<times> 'c) outcome) \<Rightarrow> 'a list \<Rightarrow> 'c \<Rightarrow> ('e, 'b list \<times> 'c) outcome" where
  "thread_each f [] c = Ok ([], c)"
| "thread_each f (x # xs) c =
     obind (f x c) (\<lambda>(y, c). obind (thread_each f xs c) (\<lambda>(ys, c). Ok (y # ys, c)))"

definition static_condition ::
  "(string \<Rightarrow> string option) \<Rightarrow> conds \<Rightarrow> string \<Rightarrow> set_cache \<Rightarrow>
   (string \<times> string \<times> static_err, (string \<times> condition) \<times> set_cache) outcome" where
  "static_condition read conds cname sets =
     (case map_of conds cname of
        None \<Rightarrow> Panic
      | Some c \<Rightarrow>
          obind (map_err (Pair cname) (thread_each (attach_static read) (co_clauses c) sets)) (\<lambda>(cls, sets).
            Ok ((cname, c\<lparr>co_clauses := cls\<rparr>), sets)))"

definition update_all :: "('k \<times> 'v) list \<Rightarrow> ('k \<times> 'v) list \<Rightarrow> ('k \<times> 'v) list" where
  "update_all news al = foldl (\<lambda>al (k, v). AList.update k v al) al news"

definition static_profile ::
  "(string \<Rightarrow> string option) \<Rightarrow> profiles \<Rightarrow> string \<Rightarrow> set_cache \<Rightarrow> (load_err, (string \<times> profile) \<times> set_cache) outcome" where
  "static_profile read ps name sets =
     (case map_of ps name of
        None \<Rightarrow> Panic
      | Some p \<Rightarrow>
          obind (map_err (\<lambda>(cname, ds, e). StaticList name cname ds e)
            (thread_each (static_condition read (p_conditions p)) (sortedKeys (p_conditions p)) sets)) (\<lambda>(cs, sets).
            Ok ((name, p\<lparr>p_conditions := update_all cs (p_conditions p)\<rparr>), sets)))"

definition loadStatic :: "(string \<Rightarrow> string option) \<Rightarrow> profiles \<Rightarrow> (load_err, profiles) outcome" where
  "loadStatic read ps =
     obind (thread_each (static_profile read ps) (Names ps) []) (\<lambda>(news, _). Ok (update_all news ps))"

definition LoadDir :: "fs_env \<Rightarrow> path \<Rightarrow> tree \<Rightarrow> (load_err, profiles) outcome" where
  "LoadDir E dir t =
     (case ReadDir (fx_fails E) dir t of
        None \<Rightarrow> Err DirUnreadable
      | Some es \<Rightarrow>
          obind (load_entries E dir t es []) (\<lambda>out.
            loadStatic (\<lambda>ds. ReadFile (fx_fails E) (list_file dir ds) t) out))"

section \<open>The store\<close>

text \<open>The fingerprint of a directory before it is hashed: name, size and time of every profile and
  of every file of its lists, by name. The SHA-256 of the code stands for this value.\<close>

type_synonym print = "(string \<times> nat \<times> int) list"

definition file_print :: "string \<times> node \<Rightarrow> (string \<times> nat \<times> int) option" where
  "file_print e = (case snd e of Dir \<Rightarrow> None | File c m \<Rightarrow> Some (fst e, length c, m))"

definition fingerprint :: "fs_env \<Rightarrow> path \<Rightarrow> tree \<Rightarrow> print option" where
  "fingerprint E dir t =
     (case ReadDir (fx_fails E) dir t of
        None \<Rightarrow> None
      | Some es \<Rightarrow>
          let own = filter (\<lambda>e. profileName (fx_lib E) e \<noteq> None) es;
              lists = (case ReadDir (fx_fails E) (dir @ [ListsDir]) t of
                  None \<Rightarrow> []
                | Some ls \<Rightarrow> map (\<lambda>e. (ListsDir @ ''/'' @ fst e, snd e)) (filter (\<lambda>e. snd e \<noteq> Dir) ls))
          in Some (sort_key fst (List.map_filter file_print (own @ lists))))"

record store =
  so_dir :: path
  so_print :: "print option"
  so_current :: profiles
  so_hooked :: bool
  so_seen :: "profiles list"

text \<open>The print of the store is none (the empty string of the code) when it could not be taken.\<close>

definition NewStore :: "fs_env \<Rightarrow> path \<Rightarrow> tree \<Rightarrow> (load_err, store) outcome" where
  "NewStore E dir t =
     obind (LoadDir E dir t) (\<lambda>ps.
       Ok \<lparr>so_dir = dir, so_print = fingerprint E dir t, so_current = ps, so_hooked = False, so_seen = []\<rparr>)"

definition OnLoad :: "store \<Rightarrow> store" where
  "OnLoad s = s\<lparr>so_hooked := True, so_seen := so_seen s @ [so_current s]\<rparr>"

definition swap :: "profiles \<Rightarrow> store \<Rightarrow> store" where
  "swap ps s = s\<lparr>so_current := ps, so_seen := (if so_hooked s then so_seen s @ [ps] else so_seen s)\<rparr>"

definition ReloadFrom :: "fs_env \<Rightarrow> path \<Rightarrow> tree \<Rightarrow> store \<Rightarrow> (load_err, store) outcome" where
  "ReloadFrom E dir t s =
     obind (LoadDir E dir t) (\<lambda>ps.
       Ok (swap ps (s\<lparr>so_dir := dir, so_print := fingerprint E dir t\<rparr>)))"

definition setPrint :: "path \<Rightarrow> print \<Rightarrow> store \<Rightarrow> store" where
  "setPrint dir p s = (if so_dir s = dir then s\<lparr>so_print := Some p\<rparr> else s)"

text \<open>A turn of \<open>Watch\<close>; a panic of the loader is not recovered there and ends the process.\<close>

definition watch_tick :: "fs_env \<Rightarrow> tree \<Rightarrow> store \<Rightarrow> (unit, store) outcome" where
  "watch_tick E t s =
     (let dir = so_dir s
      in case fingerprint E dir t of
           None \<Rightarrow> Ok s
         | Some p \<Rightarrow>
             if Some p = so_print s then Ok s
             else (case LoadDir E dir t of
                 Panic \<Rightarrow> Panic
               | Err _ \<Rightarrow> Ok (setPrint dir p s)
               | Ok ps \<Rightarrow> Ok (swap ps (setPrint dir p s))))"

section \<open>The goroutines of the store\<close>

text \<open>The watch and the goroutine that applies a generation share the store. Their code between two
  accesses to shared state is one step here: reading \<open>dir\<close>, the two critical sections of \<open>mu\<close>, the
  store of the atomic pointer, the call of the hook, and the reads of the file system. The
  constructors say where a goroutine is and what its local variables hold.\<close>

datatype watch_pc =
    WIdle | WDir path | WPrint path print | WDiff path print | WBad path print
  | WGood path print profiles | WSwap profiles | WHook profiles

fun watch_step :: "fs_env \<Rightarrow> tree \<Rightarrow> watch_pc \<times> store \<Rightarrow> (unit, watch_pc \<times> store) outcome" where
  "watch_step E t (WIdle, s) = Ok (WDir (so_dir s), s)"
| "watch_step E t (WDir dir, s) =
     (case fingerprint E dir t of None \<Rightarrow> Ok (WIdle, s) | Some p \<Rightarrow> Ok (WPrint dir p, s))"
| "watch_step E t (WPrint dir p, s) =
     (if Some p = so_print s \<and> dir = so_dir s then Ok (WIdle, s) else Ok (WDiff dir p, s))"
| "watch_step E t (WDiff dir p, s) =
     (case LoadDir E dir t of
        Panic \<Rightarrow> Panic
      | Err _ \<Rightarrow> Ok (WBad dir p, s)
      | Ok ps \<Rightarrow> Ok (WGood dir p ps, s))"
| "watch_step E t (WBad dir p, s) = Ok (WIdle, setPrint dir p s)"
| "watch_step E t (WGood dir p ps, s) = Ok (WSwap ps, setPrint dir p s)"
| "watch_step E t (WSwap ps, s) =
     Ok (if so_hooked s then WHook ps else WIdle, s\<lparr>so_current := ps\<rparr>)"
| "watch_step E t (WHook ps, s) = Ok (WIdle, s\<lparr>so_seen := so_seen s @ [ps]\<rparr>)"

datatype reload_pc =
    RIdle | RLoad path | RLoaded path profiles | RSet path profiles "print option" | RSwap profiles | RHook profiles

fun reload_step :: "fs_env \<Rightarrow> tree \<Rightarrow> reload_pc \<times> store \<Rightarrow> (load_err, reload_pc \<times> store) outcome" where
  "reload_step E t (RIdle, s) = Ok (RIdle, s)"
| "reload_step E t (RLoad dir, s) = obind (LoadDir E dir t) (\<lambda>ps. Ok (RLoaded dir ps, s))"
| "reload_step E t (RLoaded dir ps, s) = Ok (RSet dir ps (fingerprint E dir t), s)"
| "reload_step E t (RSet dir ps p, s) = Ok (RSwap ps, s\<lparr>so_dir := dir, so_print := p\<rparr>)"
| "reload_step E t (RSwap ps, s) =
     Ok (if so_hooked s then RHook ps else RIdle, s\<lparr>so_current := ps\<rparr>)"
| "reload_step E t (RHook ps, s) = Ok (RIdle, s\<lparr>so_seen := so_seen s @ [ps]\<rparr>)"

text \<open>The system: the store and its two goroutines. Files and refusals may differ at every step; a
  reload that fails returns its error to its caller and leaves the store.\<close>

type_synonym store_sys = "store \<times> watch_pc \<times> reload_pc"

inductive store_step :: "fs_env \<Rightarrow> store_sys \<Rightarrow> store_sys \<Rightarrow> bool" for E where
  watch: "watch_step (E\<lparr>fx_fails := f\<rparr>) t (w, s) = Ok (w', s') \<Longrightarrow> store_step E (s, w, r) (s', w', r)"
| request: "store_step E (s, w, RIdle) (s, w, RLoad dir)"
| reload: "reload_step (E\<lparr>fx_fails := f\<rparr>) t (r, s) = Ok (r', s') \<Longrightarrow> store_step E (s, w, r) (s', w, r')"
| refused: "reload_step (E\<lparr>fx_fails := f\<rparr>) t (r, s) = Err e \<Longrightarrow> store_step E (s, w, r) (s, w, RIdle)"

inductive store_reach :: "fs_env \<Rightarrow> store_sys \<Rightarrow> bool" for E where
  created: "NewStore (E\<lparr>fx_fails := f\<rparr>) dir t = Ok s \<Longrightarrow> store_reach E (s, WIdle, RIdle)"
| hooked: "store_reach E (s, WIdle, RIdle) \<Longrightarrow> store_reach E (OnLoad s, WIdle, RIdle)"
| stepped: "store_reach E x \<Longrightarrow> store_step E x y \<Longrightarrow> store_reach E y"

text \<open>The dynamic lists of all profiles.\<close>

definition snapshot_Datasets :: "profiles \<Rightarrow> string list" where
  "snapshot_Datasets ps = append_new [] (concat (map (\<lambda>name. Datasets (the (map_of ps name))) (Names ps)))"

end
