(* ===== verification/Store_Props.thy ===== *)
theory Store_Props
  imports Policy_Store
begin

text \<open>
  What loading a directory gives: profiles that are well formed and whose static clauses carry the
  set of their own list, although each list is read once and shared; and a store that only ever
  serves such profiles.
\<close>

section \<open>Lists of updates\<close>

lemma update_all_Cons: "update_all ((k, v) # news) al = update_all news (AList.update k v al)"
  by (simp add: update_all_def)

lemma update_keys_same: "map_of al k \<noteq> None \<Longrightarrow> map fst (AList.update k v al) = map fst al"
  by (auto simp: update_keys map_of_eq_None_iff)

lemma update_all_keys:
  "set (map fst news) \<subseteq> set (map fst al) \<Longrightarrow> map fst (update_all news al) = map fst al"
proof (induction news arbitrary: al)
  case (Cons e news)
  obtain k v where e: "e = (k, v)" by (cases e)
  have "map_of al k \<noteq> None" using Cons.prems e by (auto simp: map_of_eq_None_iff)
  then have k: "map fst (AList.update k v al) = map fst al" by (rule update_keys_same)
  moreover have "set (map fst news) \<subseteq> set (map fst (AList.update k v al))" using Cons.prems by (simp only: k e) simp
  ultimately show ?case using Cons.IH e by (simp add: update_all_Cons del: set_map)
qed (simp add: update_all_def)

lemma update_all_lookup:
  "distinct (map fst news) \<Longrightarrow>
     map_of (update_all news al) k = (case map_of news k of Some v \<Rightarrow> Some v | None \<Rightarrow> map_of al k)"
proof (induction news arbitrary: al)
  case (Cons e news)
  obtain k' v where e: "e = (k', v)" by (cases e)
  have d: "distinct (map fst news)" and k': "map_of news k' = None"
    using Cons.prems e by (simp_all add: map_of_eq_None_iff)
  show ?case using Cons.IH [OF d, of "AList.update k' v al"] k' e
    by (cases "k = k'") (simp_all add: update_all_Cons update_conv' split: option.split)
qed (simp add: update_all_def)

lemma thread_each_all:
  assumes "\<And>x c y c'. x \<in> set xs \<Longrightarrow> I c \<Longrightarrow> f x c = Ok (y, c') \<Longrightarrow> I c' \<and> Q x y"
    and "I c" and "thread_each f xs c = Ok (ys, c')"
  shows "I c' \<and> list_all2 Q xs ys"
  using assms
proof (induction xs arbitrary: c ys)
  case (Cons x xs)
  obtain y c1 zs where f: "f x c = Ok (y, c1)" and r: "thread_each f xs c1 = Ok (zs, c')" and ys: "ys = y # zs"
    using Cons.prems(3) by (auto simp: obind_Ok)
  have "I c1 \<and> Q x y" by (rule Cons.prems(1) [OF _ Cons.prems(2) f]) simp
  then show ?case using Cons.IH [OF _ _ r] Cons.prems(1) ys by auto
qed simp

section \<open>Static sets attached\<close>

text \<open>The marked key of one list is the plain key of a list whose name ends in the mark (a NUL byte and
  \<open>cidr\<close>); no file has such a name. \<open>cache_ok\<close> says that the map of sets holds what the lists read as. The
  two keys collide: a static clause on a list of such a name finds the address set of the other list in
  the cache and gets it, although there is nothing to read. \<open>attached\<close> leaves such clauses out.\<close>

definition mark_unread :: "(string \<Rightarrow> string option) \<Rightarrow> bool" where
  "mark_unread read \<longleftrightarrow> (\<forall>ds. suffix cidr_mark ds \<longrightarrow> read ds = None)"

definition cache_ok :: "(string \<Rightarrow> string option) \<Rightarrow> set_cache \<Rightarrow> bool" where
  "cache_ok read sets \<longleftrightarrow> mark_unread read \<and>
     (\<forall>k s. map_of sets k = Some s \<longrightarrow>
        (\<exists>ds addr. k = static_key ds addr \<and> \<not> suffix cidr_mark ds \<and> readStatic read ds addr = Ok s))"

definition attached :: "(string \<Rightarrow> string option) \<Rightarrow> clause \<Rightarrow> bool" where
  "attached read cl \<longleftrightarrow>
     (cl_is_static cl \<longrightarrow> \<not> suffix cidr_mark (cl_dataset cl) \<longrightarrow>
       (\<exists>s. cl_static cl = Some s \<and> readStatic read (cl_dataset cl) (cl_addr cl) = Ok s))"

lemma static_key_inj:
  "static_key ds addr = static_key ds' addr' \<Longrightarrow> \<not> suffix cidr_mark ds \<Longrightarrow> \<not> suffix cidr_mark ds' \<Longrightarrow>
     ds = ds' \<and> addr = addr'"
  by (auto simp: static_key_def suffix_def split: if_splits)

lemma cache_hit:
  assumes "cache_ok read sets" and "map_of sets (static_key ds addr) = Some s" and "\<not> suffix cidr_mark ds"
  shows "readStatic read ds addr = Ok s"
proof -
  obtain ds' addr' where k: "static_key ds addr = static_key ds' addr'" and n: "\<not> suffix cidr_mark ds'"
    and r: "readStatic read ds' addr' = Ok s" using assms(1,2) unfolding cache_ok_def by blast
  from static_key_inj [OF k assms(3) n] r show ?thesis by simp
qed

lemma cache_add:
  assumes "cache_ok read sets" and "readStatic read ds addr = Ok s"
  shows "cache_ok read ((static_key ds addr, s) # sets)"
proof -
  have "\<not> suffix cidr_mark ds"
    using assms by (auto simp: cache_ok_def mark_unread_def readStatic_def split: option.splits)
  then show ?thesis using assms by (auto simp: cache_ok_def)
qed

definition same_clause :: "(string \<Rightarrow> string option) \<Rightarrow> clause \<Rightarrow> clause \<Rightarrow> bool" where
  "same_clause read cl cl' \<longleftrightarrow> (\<exists>s. cl' = cl\<lparr>cl_static := s\<rparr>) \<and> attached read cl'"

definition same_condition :: "(string \<Rightarrow> string option) \<Rightarrow> condition \<Rightarrow> condition \<Rightarrow> bool" where
  "same_condition read c c' \<longleftrightarrow>
     (\<exists>cls. c' = c\<lparr>co_clauses := cls\<rparr> \<and> list_all2 (same_clause read) (co_clauses c) cls)"

lemma attach_static_ok:
  assumes "cache_ok read sets" and "attach_static read cl sets = Ok (cl', sets')"
  shows "cache_ok read sets' \<and> same_clause read cl cl'"
proof (cases "cl_is_static cl")
  case True
  show ?thesis
  proof (cases "map_of sets (static_key (cl_dataset cl) (cl_addr cl))")
    case (Some s)
    then have r: "cl' = cl\<lparr>cl_static := Some s\<rparr>" "sets' = sets"
      using assms(2) True by (simp_all add: attach_static_def)
    then have "attached read cl'" using cache_hit [OF assms(1) Some] by (simp add: attached_def)
    then show ?thesis using r assms(1) by (auto simp: same_clause_def)
  next
    case None
    then obtain s where s: "readStatic read (cl_dataset cl) (cl_addr cl) = Ok s"
      and r: "cl' = cl\<lparr>cl_static := Some s\<rparr>" "sets' = (static_key (cl_dataset cl) (cl_addr cl), s) # sets"
      using assms(2) True by (auto simp: attach_static_def obind_Ok map_err_Ok)
    then have "attached read cl'" by (simp add: attached_def)
    then show ?thesis using r cache_add [OF assms(1) s] by (auto simp: same_clause_def)
  qed
next
  case False
  have "\<exists>s. cl = cl\<lparr>cl_static := s\<rparr>" by (rule exI [of _ "cl_static cl"]) simp
  then show ?thesis using assms False by (simp add: attach_static_def same_clause_def attached_def)
qed

lemma static_condition_ok:
  assumes "cache_ok read sets" and "static_condition read conds cname sets = Ok (y, sets')"
  shows "cache_ok read sets' \<and> fst y = cname \<and>
    (\<exists>c. map_of conds cname = Some c \<and> same_condition read c (snd y))"
proof -
  obtain c cls where c: "map_of conds cname = Some c"
    and t: "thread_each (attach_static read) (co_clauses c) sets = Ok (cls, sets')"
    and y: "y = (cname, c\<lparr>co_clauses := cls\<rparr>)"
    using assms(2) by (auto simp: static_condition_def obind_Ok map_err_Ok split: option.splits)
  have "cache_ok read sets' \<and> list_all2 (same_clause read) (co_clauses c) cls"
    by (rule thread_each_all [where I = "cache_ok read" and f = "attach_static read" and c = sets])
      (use attach_static_ok assms(1) t in blast)+
  then show ?thesis using c y by (auto simp: same_condition_def)
qed

definition same_conds :: "(string \<Rightarrow> string option) \<Rightarrow> conds \<Rightarrow> conds \<Rightarrow> bool" where
  "same_conds read C C' \<longleftrightarrow> map fst C' = map fst C \<and>
     (\<forall>n c. map_of C n = Some c \<longrightarrow> (\<exists>c'. map_of C' n = Some c' \<and> same_condition read c c'))"

lemma list_all2_keys:
  "list_all2 (\<lambda>n y. fst y = n \<and> P n (snd y)) ns ys \<Longrightarrow> map fst ys = ns \<and> (\<forall>(n, v) \<in> set ys. P n v)"
  by (induction rule: list_all2_induct) auto

lemma conds_attached:
  assumes "cache_ok read sets" and "distinct (map fst C)"
    and "thread_each (static_condition read C) (sortedKeys C) sets = Ok (cs, sets')"
  shows "cache_ok read sets' \<and> same_conds read C (update_all cs C)"
proof -
  let ?P = "\<lambda>n c'. \<exists>c. map_of C n = Some c \<and> same_condition read c c'"
  have "cache_ok read sets' \<and> list_all2 (\<lambda>n y. fst y = n \<and> ?P n (snd y)) (sortedKeys C) cs"
    by (rule thread_each_all [where I = "cache_ok read" and f = "static_condition read C" and c = sets])
      (use static_condition_ok assms(1,3) in blast)+
  then have ok: "cache_ok read sets'" and keys: "map fst cs = sortedKeys C" and P: "\<forall>(n, c') \<in> set cs. ?P n c'"
    using list_all2_keys [of ?P "sortedKeys C" cs] by auto
  have d: "distinct (map fst cs)" using assms(2) keys by (simp add: sortedKeys_def)
  have "map fst (update_all cs C) = map fst C" by (rule update_all_keys) (simp add: keys sortedKeys_def del: set_map)
  moreover have "\<exists>c'. map_of (update_all cs C) n = Some c' \<and> same_condition read c c'" if c: "map_of C n = Some c" for n c
  proof -
    have "n \<in> set (map fst cs)" using c keys by (simp add: sortedKeys_def) (force dest: map_of_SomeD)
    then obtain c' where "map_of cs n = Some c'" by (metis map_of_eq_None_iff not_None_eq set_map)
    moreover from this have "?P n c'" using P by (auto dest: map_of_SomeD)
    ultimately show ?thesis using c update_all_lookup [OF d, of C n] by auto
  qed
  ultimately show ?thesis using ok by (simp add: same_conds_def)
qed

lemma same_conds_refs:
  assumes "same_conds read C C'"
  shows "refs C' n = refs C n"
proof (cases "map_of C n")
  case None
  then have "map_of C' n = None" using assms by (metis map_of_eq_None_iff same_conds_def set_map)
  then show ?thesis using None by (simp add: refs_def)
next
  case (Some c)
  then obtain c' where c': "map_of C' n = Some c'" and s: "list_all2 (same_clause read) (co_clauses c) (co_clauses c')"
    using assms by (fastforce simp: same_conds_def same_condition_def)
  from s have "map cl_ref (co_clauses c') = map cl_ref (co_clauses c)"
    by (induction rule: list_all2_induct) (auto simp: same_clause_def)
  then have "cl_ref ` set (co_clauses c') = cl_ref ` set (co_clauses c)" by (metis set_map)
  then show ?thesis using Some c' by (auto simp: refs_def image_iff) (metis imageE imageI)+
qed

lemma same_conds_ok:
  assumes "same_conds read C C'" and "conds_ok C"
  shows "conds_ok C'"
proof -
  have keys: "map fst C' = map fst C" using assms(1) by (simp add: same_conds_def)
  then have ks: "fst ` set C' = fst ` set C" by (metis set_map)
  have dep: "dep C' = dep C" using same_conds_refs [OF assms(1)] by (simp add: dep_def fun_eq_iff)
  have d: "distinct (map fst C)" "distinct (map fst C')" using assms(2) keys by (simp_all add: conds_ok_def names_ok_def)
  have "names_ok C'"
    unfolding names_ok_def
  proof (intro conjI allI impI)
    fix n c' assume "(n, c') \<in> set C'"
    then have c': "map_of C' n = Some c'" using d(2) by simp
    then have "n \<in> fst ` set C" using ks by (metis domI dom_map_of_conv_image_fst)
    then obtain c where c: "map_of C n = Some c" by (metis domD dom_map_of_conv_image_fst)
    then have "same_condition read c c'" using assms(1) c' unfolding same_conds_def by (metis option.inject)
    then have "co_name c' = co_name c" by (auto simp: same_condition_def)
    moreover have "co_name c = n" "n \<noteq> []" using assms(2) map_of_SomeD [OF c] by (auto simp: conds_ok_def names_ok_def)
    ultimately show "co_name c' = n" "n \<noteq> []" by simp_all
  qed (rule d(2))
  then show ?thesis
    using assms(2) ks dep same_conds_refs [OF assms(1)] by (simp add: conds_ok_def refs_declared_def)
qed

section \<open>A loaded directory\<close>

lemma rule_ok_keys: "map fst C' = map fst C \<Longrightarrow> rule_ok C' r = rule_ok C r"
  by (simp add: rule_ok_def map_of_eq_None_iff set_map [symmetric] del: set_map)

lemma same_profile_ok:
  assumes "profile_ok p" and "same_conds read (p_conditions p) C"
  shows "profile_ok (p\<lparr>p_conditions := C\<rparr>)"
  using assms same_conds_ok [OF assms(2)] rule_ok_keys [of C "p_conditions p"]
  by (simp add: profile_ok_def same_conds_def)

definition all_attached :: "(string \<Rightarrow> string option) \<Rightarrow> conds \<Rightarrow> bool" where
  "all_attached read C \<longleftrightarrow> (\<forall>n c. map_of C n = Some c \<longrightarrow> (\<forall>cl \<in> set (co_clauses c). attached read cl))"

lemma same_conds_attached:
  assumes "same_conds read C C'"
  shows "all_attached read C'"
  unfolding all_attached_def
proof (intro allI impI)
  fix n c' assume c': "map_of C' n = Some c'"
  then have "map_of C n \<noteq> None" using assms by (metis map_of_eq_None_iff option.distinct(1) same_conds_def set_map)
  then obtain c where "map_of C n = Some c" by blast
  then have "same_condition read c c'" using assms c' unfolding same_conds_def by (metis option.inject)
  then have "list_all2 (same_clause read) (co_clauses c) (co_clauses c')" by (auto simp: same_condition_def)
  then show "\<forall>cl \<in> set (co_clauses c'). attached read cl"
    by (induction rule: list_all2_induct) (auto simp: same_clause_def)
qed

text \<open>A profile after its sets were attached differs from the parsed one in the sets only.\<close>

definition with_sets :: "(string \<Rightarrow> string option) \<Rightarrow> profile \<Rightarrow> profile \<Rightarrow> bool" where
  "with_sets read p p' \<longleftrightarrow> (\<exists>C. p' = p\<lparr>p_conditions := C\<rparr> \<and> same_conds read (p_conditions p) C)"

lemma with_sets_ok: "with_sets read p p' \<Longrightarrow> profile_ok p \<Longrightarrow> profile_ok p' \<and> p_name p' = p_name p"
  using same_profile_ok by (auto simp: with_sets_def)

lemma with_sets_attached: "with_sets read p p' \<Longrightarrow> all_attached read (p_conditions p')"
  using same_conds_attached by (auto simp: with_sets_def)

definition loaded_ok :: "profiles \<Rightarrow> bool" where
  "loaded_ok ps \<longleftrightarrow> distinct (map fst ps) \<and> (\<forall>n p. map_of ps n = Some p \<longrightarrow> profile_ok p \<and> p_name p = n)"

text \<open>\<open>source_of E dir t es n p\<close>: profile \<open>p\<close> is what the file of some entry for the name \<open>n\<close> parses to.\<close>

definition source_of :: "fs_env \<Rightarrow> path \<Rightarrow> tree \<Rightarrow> (string \<times> node) list \<Rightarrow> string \<Rightarrow> profile \<Rightarrow> bool" where
  "source_of E dir t es n p \<longleftrightarrow>
     (\<exists>e \<in> set es. profileName (fx_lib E) e = Some n \<and>
        (\<exists>raw. ReadFile (fx_fails E) (dir @ [fst e]) t = Some raw \<and>
           ParseProfile (fx_lib E) (fx_yaml E) n raw = Ok p))"

definition names_of :: "fs_env \<Rightarrow> (string \<times> node) list \<Rightarrow> string set" where
  "names_of E es = {n. \<exists>e \<in> set es. profileName (fx_lib E) e = Some n}"

lemma source_of_mono: "source_of E dir t es n p \<Longrightarrow> source_of E dir t (e # es) n p"
  by (auto simp: source_of_def)

lemma load_entries_spec:
  assumes "load_entries E dir t es out = Ok ps" and "distinct (map fst out)"
  shows "distinct (map fst ps) \<and> fst ` set ps = fst ` set out \<union> names_of E es \<and>
    (\<forall>n p. map_of ps n = Some p \<longrightarrow> map_of out n = Some p \<or> source_of E dir t es n p)"
  using assms
proof (induction es arbitrary: out)
  case (Cons e es)
  show ?case
  proof (cases "profileName (fx_lib E) e")
    case None
    then have "load_entries E dir t es out = Ok ps" using Cons.prems(1) by simp
    note IH = Cons.IH [OF this Cons.prems(2)]
    have "names_of E (e # es) = names_of E es" using None by (simp add: names_of_def)
    then show ?thesis using IH source_of_mono [of E dir t es _ _ e] by metis
  next
    case (Some name)
    with Cons.prems(1) obtain raw p where raw: "ReadFile (fx_fails E) (dir @ [fst e]) t = Some raw"
      and p: "ParseProfile (fx_lib E) (fx_yaml E) name raw = Ok p"
      and r: "load_entries E dir t es (AList.update name p out) = Ok ps"
      by (auto simp: obind_Ok map_err_Ok split: option.splits)
    have here: "source_of E dir t (e # es) name p" using Some raw p by (auto simp: source_of_def)
    have "distinct (map fst (AList.update name p out))" using Cons.prems(2) by (simp add: distinct_update)
    note IH = Cons.IH [OF r this]
    have "fst ` set (AList.update name p out) = insert name (fst ` set out)" by (simp add: dom_update)
    moreover have "names_of E (e # es) = insert name (names_of E es)" using Some by (auto simp: names_of_def)
    ultimately have "fst ` set ps = fst ` set out \<union> names_of E (e # es)" using IH by auto
    moreover have "map_of out n = Some q \<or> source_of E dir t (e # es) n q" if "map_of ps n = Some q" for n q
    proof -
      have "map_of (AList.update name p out) n = Some q \<or> source_of E dir t es n q" using IH that by blast
      then show ?thesis
        using here source_of_mono [of E dir t es n q e] by (cases "n = name") (auto simp: update_conv')
    qed
    ultimately show ?thesis using IH by simp
  qed
qed (auto simp: names_of_def)

lemma load_entries_ok:
  assumes "load_entries E dir t es [] = Ok ps"
  shows "loaded_ok ps"
  using load_entries_spec [OF assms] ParseProfile_ok by (fastforce simp: loaded_ok_def source_of_def)

lemma static_profile_ok:
  assumes "loaded_ok ps" and "cache_ok read sets" and "static_profile read ps name sets = Ok (y, sets')"
  shows "cache_ok read sets' \<and> fst y = name \<and> (\<exists>p. map_of ps name = Some p \<and> with_sets read p (snd y))"
proof -
  obtain p cs where p: "map_of ps name = Some p"
    and t: "thread_each (static_condition read (p_conditions p)) (sortedKeys (p_conditions p)) sets = Ok (cs, sets')"
    and y: "y = (name, p\<lparr>p_conditions := update_all cs (p_conditions p)\<rparr>)"
    using assms(3) by (auto simp: static_profile_def obind_Ok map_err_Ok split: option.splits)
  have ok: "profile_ok p" using assms(1) p by (auto simp: loaded_ok_def)
  then have "distinct (map fst (p_conditions p))" by (simp add: profile_ok_def conds_ok_def names_ok_def)
  from conds_attached [OF assms(2) this t]
  have "cache_ok read sets'" and "same_conds read (p_conditions p) (update_all cs (p_conditions p))" by simp_all
  then show ?thesis using y p by (auto simp: with_sets_def)
qed

lemma loadStatic_spec:
  assumes "loaded_ok ps" and "loadStatic read ps = Ok ps'" and mark: "mark_unread read"
  shows "map fst ps' = map fst ps \<and>
    (\<forall>n p'. map_of ps' n = Some p' \<longrightarrow> (\<exists>p. map_of ps n = Some p \<and> with_sets read p p'))"
proof -
  let ?P = "\<lambda>n p'. \<exists>p. map_of ps n = Some p \<and> with_sets read p p'"
  obtain news sets' where t: "thread_each (static_profile read ps) (Names ps) [] = Ok (news, sets')"
    and ps': "ps' = update_all news ps"
    using assms(2) by (auto simp: loadStatic_def obind_Ok)
  have step: "cache_ok read c' \<and> fst y = n \<and> ?P n (snd y)"
    if "cache_ok read c" "static_profile read ps n c = Ok (y, c')" for n c y c'
    using static_profile_ok [OF assms(1) that] .
  have "cache_ok read []" using mark by (simp add: cache_ok_def)
  from thread_each_all [of _ "cache_ok read" "static_profile read ps" "\<lambda>n y. fst y = n \<and> ?P n (snd y)", OF step this t]
  have "cache_ok read sets' \<and> list_all2 (\<lambda>n y. fst y = n \<and> ?P n (snd y)) (Names ps) news" .
  then have keys: "map fst news = Names ps" and P: "\<forall>(n, p) \<in> set news. ?P n p"
    using list_all2_keys [of ?P "Names ps" news] by auto
  have "distinct (map fst ps)" using assms(1) by (simp add: loaded_ok_def)
  then have d: "distinct (map fst news)" using keys by (simp add: Names_def)
  have k: "map fst ps' = map fst ps" unfolding ps' by (rule update_all_keys) (simp add: keys Names_def del: set_map)
  have "?P n p" if "map_of ps' n = Some p" for n p
  proof -
    have "n \<in> set (map fst ps)" using that k by (metis domI dom_map_of_conv_image_fst set_map)
    then have "n \<in> set (map fst news)" using keys by (simp add: Names_def)
    then obtain p' where n: "map_of news n = Some p'" by (metis map_of_eq_None_iff not_None_eq set_map)
    then have "p' = p" using that update_all_lookup [OF d, of ps n] ps' by simp
    then show ?thesis using P n by (auto dest: map_of_SomeD)
  qed
  then show ?thesis using k by blast
qed

text \<open>A list whose name ends in the mark has a path with a NUL byte.\<close>

lemma Split_last:
  assumes "c \<notin> set v"
  shows "\<exists>ws w. Split (u @ v) c = ws @ [w @ v]"
proof (induction u)
  case Nil
  have "Split v c = [v]" using assms by (induction v) auto
  then show ?case by (intro exI [of _ "[]"]) simp
next
  case (Cons x u)
  then obtain ws w where s: "Split (u @ v) c = ws @ [w @ v]" by blast
  show ?case
  proof (cases "x = c")
    case True
    then show ?thesis using s by (intro exI [of _ "[] # ws"] exI [of _ w]) simp
  next
    case False
    then show ?thesis using s
      by (cases ws) (auto intro: exI [of _ "[]"] exI [of _ "x # w"])
  qed
qed

lemma list_file_mark: "mark_unread (\<lambda>ds. ReadFile fails (list_file dir ds) t)"
  unfolding mark_unread_def
proof (intro allI impI)
  fix ds assume "suffix cidr_mark ds"
  then obtain u where "ds = u @ cidr_mark" by (auto simp: suffix_def)
  moreover have "CHR ''/'' \<notin> set (cidr_mark @ ''.txt'')" by (simp add: cidr_mark_def)
  from Split_last [OF this, of u] obtain ws w
    where "Split (u @ cidr_mark @ ''.txt'') (CHR ''/'') = ws @ [w @ cidr_mark @ ''.txt'']" by blast
  ultimately have "list_file dir ds = foldl clean_step (dir @ [ListsDir]) ws @ [w @ cidr_mark @ ''.txt'']"
    by (simp add: list_file_def path_join_def clean_step_def cidr_mark_def)
  then have "bad_path (list_file dir ds)" by (simp add: bad_path_def cidr_mark_def)
  then show "ReadFile fails (list_file dir ds) t = None" by (simp add: ReadFile_def)
qed

text \<open>What a loaded directory serves: exactly the names of its profile files, each profile parsed
  from a file for that name, with the sets of its own static lists.\<close>

lemma LoadDir_spec:
  assumes "LoadDir E dir t = Ok ps"
  shows "\<exists>es. ReadDir (fx_fails E) dir t = Some es \<and> distinct (map fst ps) \<and> fst ` set ps = names_of E es \<and>
    (\<forall>n p'. map_of ps n = Some p' \<longrightarrow> (\<exists>p. source_of E dir t es n p \<and>
       with_sets (\<lambda>ds. ReadFile (fx_fails E) (list_file dir ds) t) p p'))"
proof -
  let ?read = "\<lambda>ds. ReadFile (fx_fails E) (list_file dir ds) t"
  obtain es out where es: "ReadDir (fx_fails E) dir t = Some es"
    and l: "load_entries E dir t es [] = Ok out" and s: "loadStatic ?read out = Ok ps"
    using assms by (auto simp: LoadDir_def obind_Ok split: option.splits)
  have "distinct (map fst ([] :: profiles))" by simp
  note L = load_entries_spec [OF l this] and S = loadStatic_spec [OF load_entries_ok [OF l] s list_file_mark]
  have "fst ` set ps = fst ` set out" using S by (metis set_map)
  then have names: "fst ` set ps = names_of E es" using L by simp
  have "distinct (map fst ps)" using L S by simp
  moreover have "\<exists>p. source_of E dir t es n p \<and> with_sets ?read p p'" if "map_of ps n = Some p'" for n p'
  proof -
    from S that obtain p where "map_of out n = Some p" "with_sets ?read p p'" by blast
    moreover from this(1) have "source_of E dir t es n p" using L by (metis map_of.simps(1) option.distinct(1))
    ultimately show ?thesis by blast
  qed
  ultimately show ?thesis using es names by blast
qed

lemma LoadDir_ok:
  assumes "LoadDir E dir t = Ok ps"
  shows "loaded_ok ps \<and> (\<forall>n p. map_of ps n = Some p \<longrightarrow>
    all_attached (\<lambda>ds. ReadFile (fx_fails E) (list_file dir ds) t) (p_conditions p))"
proof -
  obtain es where d: "distinct (map fst ps)" and P: "\<forall>n p'. map_of ps n = Some p' \<longrightarrow>
      (\<exists>p. source_of E dir t es n p \<and> with_sets (\<lambda>ds. ReadFile (fx_fails E) (list_file dir ds) t) p p')"
    using LoadDir_spec [OF assms] by blast
  have "profile_ok p' \<and> p_name p' = n \<and> all_attached (\<lambda>ds. ReadFile (fx_fails E) (list_file dir ds) t) (p_conditions p')"
    if n: "map_of ps n = Some p'" for n p'
  proof -
    from P n obtain p where s: "source_of E dir t es n p"
      and w: "with_sets (\<lambda>ds. ReadFile (fx_fails E) (list_file dir ds) t) p p'" by blast
    have "profile_ok p \<and> p_name p = n" using s ParseProfile_ok by (auto simp: source_of_def)
    then show ?thesis using with_sets_ok [OF w] with_sets_attached [OF w] by simp
  qed
  then show ?thesis using d by (simp add: loaded_ok_def)
qed

section \<open>The store over time\<close>

definition came_from :: "fs_env \<Rightarrow> profiles \<Rightarrow> bool" where
  "came_from E ps \<longleftrightarrow> (\<exists>f dir t. LoadDir (E\<lparr>fx_fails := f\<rparr>) dir t = Ok ps)"

text \<open>The profiles of one whole load: well formed, under their own names, every static clause with the
  set of its list.\<close>

definition served_load :: "fs_env \<Rightarrow> profiles \<Rightarrow> bool" where
  "served_load E ps \<longleftrightarrow> loaded_ok ps \<and> (\<exists>f dir t. LoadDir (E\<lparr>fx_fails := f\<rparr>) dir t = Ok ps \<and>
     (\<forall>n p. map_of ps n = Some p \<longrightarrow> all_attached (\<lambda>ds. ReadFile f (list_file dir ds) t) (p_conditions p)))"

lemma came_from_served:
  assumes "came_from E ps"
  shows "served_load E ps"
proof -
  obtain f dir t where l: "LoadDir (E\<lparr>fx_fails := f\<rparr>) dir t = Ok ps" using assms by (auto simp: came_from_def)
  from LoadDir_ok [OF this] have "loaded_ok ps"
    "\<forall>n p. map_of ps n = Some p \<longrightarrow> all_attached (\<lambda>ds. ReadFile f (list_file dir ds) t) (p_conditions p)"
    by simp_all
  then show ?thesis unfolding served_load_def using l by blast
qed

fun watch_held :: "watch_pc \<Rightarrow> profiles set" where
  "watch_held (WGood dir p ps) = {ps}"
| "watch_held (WSwap ps) = {ps}"
| "watch_held (WHook ps) = {ps}"
| "watch_held _ = {}"

fun reload_held :: "reload_pc \<Rightarrow> profiles set" where
  "reload_held (RLoaded dir ps) = {ps}"
| "reload_held (RSet dir ps p) = {ps}"
| "reload_held (RSwap ps) = {ps}"
| "reload_held (RHook ps) = {ps}"
| "reload_held _ = {}"

definition snapshots :: "store_sys \<Rightarrow> profiles set" where
  "snapshots x = (case x of (s, w, r) \<Rightarrow> {so_current s} \<union> set (so_seen s) \<union> watch_held w \<union> reload_held r)"

lemma setPrint_keeps [simp]: "so_current (setPrint d p s) = so_current s" "so_seen (setPrint d p s) = so_seen s"
  "so_dir (setPrint d p s) = so_dir s" "so_hooked (setPrint d p s) = so_hooked s"
  by (simp_all add: setPrint_def)

lemma watch_step_snapshots:
  assumes "watch_step (E\<lparr>fx_fails := f\<rparr>) t (w, s) = Ok (w', s')" and "ps \<in> snapshots (s', w', r)"
  shows "ps \<in> snapshots (s, w, r) \<or> came_from E ps"
  using assms by (cases w) (auto simp: snapshots_def came_from_def split: option.splits if_splits outcome.splits)

lemma reload_step_snapshots:
  assumes "reload_step (E\<lparr>fx_fails := f\<rparr>) t (r, s) = Ok (r', s')" and "ps \<in> snapshots (s', w, r')"
  shows "ps \<in> snapshots (s, w, r) \<or> came_from E ps"
  using assms by (cases r) (auto simp: snapshots_def came_from_def obind_Ok split: if_splits)

lemma store_step_snapshots:
  assumes "store_step E x y" and "ps \<in> snapshots y"
  shows "ps \<in> snapshots x \<or> came_from E ps"
  using assms
proof (cases rule: store_step.cases)
  case (watch f t w s w' s' r)
  then show ?thesis using watch_step_snapshots assms(2) by blast
next
  case (reload f t r s r' s' w)
  then show ?thesis using reload_step_snapshots assms(2) by blast
qed (auto simp: snapshots_def)

lemma store_reach_snapshots: "store_reach E x \<Longrightarrow> ps \<in> snapshots x \<Longrightarrow> came_from E ps"
proof (induction arbitrary: ps rule: store_reach.induct)
  case (created f dir t s)
  then obtain ps' where "LoadDir (E\<lparr>fx_fails := f\<rparr>) dir t = Ok ps'" and "snapshots (s, WIdle, RIdle) = {ps'}"
    by (auto simp: NewStore_def obind_Ok snapshots_def)
  moreover from this have "ps = ps'" using created.prems by simp
  ultimately show ?case
    unfolding came_from_def by (intro exI [of _ f] exI [of _ dir] exI [of _ t]) simp
next
  case (hooked s)
  then show ?case by (auto simp: OnLoad_def snapshots_def)
next
  case (stepped x y)
  from store_step_snapshots [OF stepped.hyps(2) stepped.prems] show ?case using stepped.IH by blast
qed

section \<open>One goroutine at a time\<close>

lemma step_first: "store_step E x y \<Longrightarrow> (store_step E)\<^sup>*\<^sup>* y z \<Longrightarrow> (store_step E)\<^sup>*\<^sup>* x z"
  by (rule converse_rtranclp_into_rtranclp)

lemma step_once: "store_step E x y \<Longrightarrow> (store_step E)\<^sup>*\<^sup>* x y"
  by (rule r_into_rtranclp)

lemma steps_reach: "(store_step E)\<^sup>*\<^sup>* x y \<Longrightarrow> store_reach E x \<Longrightarrow> store_reach E y"
  by (induction rule: rtranclp_induct) (auto intro: store_reach.stepped)

text \<open>A reload and a turn of the watch, run alone, are the functions \<open>ReloadFrom\<close> and \<open>watch_tick\<close>.\<close>

lemma ReloadFrom_steps:
  assumes "ReloadFrom (E\<lparr>fx_fails := f\<rparr>) dir t s = Ok s'"
  shows "(store_step E)\<^sup>*\<^sup>* (s, w, RIdle) (s', w, RIdle)"
proof -
  let ?E = "E\<lparr>fx_fails := f\<rparr>"
  obtain ps where ps: "LoadDir ?E dir t = Ok ps"
    and s': "s' = swap ps (s\<lparr>so_dir := dir, so_print := fingerprint ?E dir t\<rparr>)"
    using assms by (auto simp: ReloadFrom_def obind_Ok)
  let ?s = "s\<lparr>so_dir := dir, so_print := fingerprint ?E dir t\<rparr>"
  have step: "store_step E (s1, w, r1) (s2, w, r2)" if "reload_step ?E t (r1, s1) = Ok (r2, s2)" for s1 s2 r1 r2
    using that by (rule store_step.reload)
  have 1: "store_step E (s, w, RIdle) (s, w, RLoad dir)" by (rule store_step.request)
  have 2: "store_step E (s, w, RLoad dir) (s, w, RLoaded dir ps)" by (rule step) (simp add: ps)
  have 3: "store_step E (s, w, RLoaded dir ps) (s, w, RSet dir ps (fingerprint ?E dir t))"
    by (rule step) simp
  have 4: "store_step E (s, w, RSet dir ps (fingerprint ?E dir t)) (?s, w, RSwap ps)"
    by (rule step) simp
  have "(store_step E)\<^sup>*\<^sup>* (s, w, RIdle) (?s, w, RSwap ps)"
    by (rule step_first [OF 1 step_first [OF 2 step_first [OF 3 step_once [OF 4]]]])
  moreover have "(store_step E)\<^sup>*\<^sup>* (?s, w, RSwap ps) (s', w, RIdle)"
  proof (cases "so_hooked s")
    case True
    have 5: "store_step E (?s, w, RSwap ps) (?s\<lparr>so_current := ps\<rparr>, w, RHook ps)" by (rule step) (simp add: True)
    have 6: "store_step E (?s\<lparr>so_current := ps\<rparr>, w, RHook ps) (s', w, RIdle)"
      by (rule step) (simp add: s' swap_def True)
    show ?thesis by (rule step_first [OF 5 step_once [OF 6]])
  next
    case False
    have "store_step E (?s, w, RSwap ps) (s', w, RIdle)" by (rule step) (simp add: s' swap_def False)
    then show ?thesis by (rule r_into_rtranclp)
  qed
  ultimately show ?thesis by (rule rtranclp_trans)
qed

lemma watch_tick_steps:
  assumes "watch_tick (E\<lparr>fx_fails := f\<rparr>) t s = Ok s'"
  shows "(store_step E)\<^sup>*\<^sup>* (s, WIdle, r) (s', WIdle, r)"
proof -
  let ?E = "E\<lparr>fx_fails := f\<rparr>"
  have step: "store_step E (s1, w1, r) (s2, w2, r)" if "watch_step ?E t (w1, s1) = Ok (w2, s2)" for s1 s2 w1 w2
    using that by (rule store_step.watch)
  have 1: "store_step E (s, WIdle, r) (s, WDir (so_dir s), r)" by (rule step) simp
  show ?thesis
  proof (cases "fingerprint ?E (so_dir s) t")
    case None
    have 2: "store_step E (s, WDir (so_dir s), r) (s, WIdle, r)" by (rule step) (simp add: None)
    have "s' = s" using assms None by (simp add: watch_tick_def)
    then show ?thesis using step_first [OF 1 step_once [OF 2]] by simp
  next
    case (Some p)
    have 2: "store_step E (s, WDir (so_dir s), r) (s, WPrint (so_dir s) p, r)" by (rule step) (simp add: Some)
    show ?thesis
    proof (cases "Some p = so_print s")
      case True
      have 3: "store_step E (s, WPrint (so_dir s) p, r) (s, WIdle, r)" by (rule step) (simp add: True)
      have "s' = s" using assms Some True [symmetric] by (simp add: watch_tick_def Let_def)
      then show ?thesis using step_first [OF 1 step_first [OF 2 step_once [OF 3]]] by simp
    next
      case False
      have 3: "store_step E (s, WPrint (so_dir s) p, r) (s, WDiff (so_dir s) p, r)" by (rule step) (simp add: False)
      let ?s = "setPrint (so_dir s) p s"
      have "(store_step E)\<^sup>*\<^sup>* (s, WDiff (so_dir s) p, r) (s', WIdle, r)"
      proof (cases "LoadDir ?E (so_dir s) t")
        case (Ok ps)
        have s': "s' = swap ps ?s" using assms Some False Ok by (simp add: watch_tick_def)
        have 4: "store_step E (s, WDiff (so_dir s) p, r) (s, WGood (so_dir s) p ps, r)" by (rule step) (simp add: Ok)
        have 5: "store_step E (s, WGood (so_dir s) p ps, r) (?s, WSwap ps, r)" by (rule step) simp
        have "(store_step E)\<^sup>*\<^sup>* (?s, WSwap ps, r) (s', WIdle, r)"
        proof (cases "so_hooked s")
          case True
          have 6: "store_step E (?s, WSwap ps, r) (?s\<lparr>so_current := ps\<rparr>, WHook ps, r)" by (rule step) (simp add: True)
          have 7: "store_step E (?s\<lparr>so_current := ps\<rparr>, WHook ps, r) (s', WIdle, r)"
            by (rule step) (simp add: s' swap_def True)
          show ?thesis by (rule step_first [OF 6 step_once [OF 7]])
        next
          case False
          have "store_step E (?s, WSwap ps, r) (s', WIdle, r)" by (rule step) (simp add: s' swap_def False)
          then show ?thesis by (rule step_once)
        qed
        then show ?thesis by (rule step_first [OF 4 step_first [OF 5]])
      next
        case (Err e)
        have s': "s' = ?s" using assms Some False Err by (simp add: watch_tick_def)
        have 4: "store_step E (s, WDiff (so_dir s) p, r) (s, WBad (so_dir s) p, r)" by (rule step) (simp add: Err)
        have 5: "store_step E (s, WBad (so_dir s) p, r) (s', WIdle, r)" by (rule step) (simp add: s')
        show ?thesis by (rule step_first [OF 4 step_once [OF 5]])
      qed (use assms Some False in \<open>simp add: watch_tick_def\<close>)
      then show ?thesis by (rule step_first [OF 1 step_first [OF 2 step_first [OF 3]]])
    qed
  qed
qed

lemma watch_tick_cases:
  assumes "watch_tick E t s = Ok s'"
  shows "so_dir s' = so_dir s \<and>
    (so_current s' = so_current s \<and> so_seen s' = so_seen s \<or>
     (\<exists>ps. LoadDir E (so_dir s) t = Ok ps \<and> so_current s' = ps))"
  using assms by (auto simp: watch_tick_def Let_def setPrint_def swap_def split: option.splits if_splits outcome.splits)

end
