(* ===== verification/Store_Claims.thy ===== *)
theory Store_Claims
  imports Store_Props Policy_Claims
begin

text \<open>The properties of the store of profiles, \<open>internal/policy/store.go\<close>.\<close>

section \<open>A small tree of two directories\<close>

definition demo_env :: fs_env where
  "demo_env = \<lparr>fx_lib = ascii_lib, fx_yaml = (\<lambda>_. Some sample_profile), fx_fails = (\<lambda>_. False)\<rparr>"

definition demo_tree :: tree where
  "demo_tree =
     [([], Dir), ([''boot''], Dir), ([''boot'', ''shop.yaml''], File ''a'' 1),
      ([''live''], Dir), ([''live'', ''api.yaml''], File ''b'' 2)]"

lemma demo_env_fails [simp]: "demo_env\<lparr>fx_fails := \<lambda>_. False\<rparr> = demo_env"
  by (simp add: demo_env_def)

definition demo_load :: "string \<Rightarrow> profiles" where
  "demo_load d = (case LoadDir demo_env [d] demo_tree of Ok ps \<Rightarrow> ps | _ \<Rightarrow> [])"

lemma demo_loads:
  "LoadDir demo_env [''boot''] demo_tree = Ok (demo_load ''boot'')"
  "LoadDir demo_env [''live''] demo_tree = Ok (demo_load ''live'')"
  "Names (demo_load ''boot'') = [''shop'']" "Names (demo_load ''live'') = [''api'']"
proof -
  have 1: "case LoadDir demo_env [''boot''] demo_tree of Ok ps \<Rightarrow> Names ps = [''shop''] | _ \<Rightarrow> False" by code_simp
  have 2: "case LoadDir demo_env [''live''] demo_tree of Ok ps \<Rightarrow> Names ps = [''api''] | _ \<Rightarrow> False" by code_simp
  show "LoadDir demo_env [''boot''] demo_tree = Ok (demo_load ''boot'')" "Names (demo_load ''boot'') = [''shop'']"
    using 1 by (auto simp: demo_load_def split: outcome.splits)
  show "LoadDir demo_env [''live''] demo_tree = Ok (demo_load ''live'')" "Names (demo_load ''live'') = [''api'']"
    using 2 by (auto simp: demo_load_def split: outcome.splits)
qed

lemma demo_prints:
  "fingerprint demo_env [''boot''] demo_tree = Some [(''shop.yaml'', 1, 1)]"
  "fingerprint demo_env [''live''] demo_tree = Some [(''api.yaml'', 1, 2)]"
  by code_simp+

section \<open>What the store serves\<close>

text \<open>C8: whatever happens to the files and however the watch and a reload interleave, the store
  serves a snapshot that one load of some directory gave as a whole: profiles under their own names,
  well formed, every static clause carrying the set of its list as that load read it. So was every
  snapshot its hook was told of. An edit that does not load is never served. One kind of clause is left
  out (see \<open>attached\<close>): a static clause whose list has a name that ends in a NUL byte and \<open>cidr\<close>, which can
  get the address set of another list.\<close>

theorem store_serves:
  assumes "store_reach E (s, w, r)"
  shows "served_load E (so_current s) \<and> (\<forall>ps \<in> set (so_seen s). served_load E ps)"
  using store_reach_snapshots [OF assms] came_from_served by (simp add: snapshots_def)

lemma demo_store:
  "\<exists>s. NewStore (demo_env\<lparr>fx_fails := \<lambda>_. False\<rparr>) [''boot''] demo_tree = Ok s \<and> so_current s = demo_load ''boot''"
  by (simp add: NewStore_def demo_loads)

theorem store_serves_witness:
  "\<exists>s. store_reach demo_env (s, WIdle, RIdle) \<and> Names (so_current s) = [''shop''] \<and> served_load demo_env (so_current s)"
proof -
  obtain s where s: "NewStore (demo_env\<lparr>fx_fails := \<lambda>_. False\<rparr>) [''boot''] demo_tree = Ok s"
    and c: "so_current s = demo_load ''boot''" using demo_store by blast
  have r: "store_reach demo_env (s, WIdle, RIdle)" by (rule store_reach.created [OF s])
  with store_serves [OF r] c demo_loads(3) show ?thesis by auto
qed

text \<open>C35: a turn of the watch that has read the directory of the store before a reload from another
  directory, and compares its print after it, puts the profiles of the old directory back. Then the
  store holds the new directory and its print, so the watch finds nothing to do: the old profiles
  stay for as long as the files do not change, although no file was ever changed.\<close>

theorem watch_stale:
  assumes "LoadDir (E\<lparr>fx_fails := f\<rparr>) boot t = Ok old" and "fingerprint (E\<lparr>fx_fails := f\<rparr>) boot t = Some pb"
    and "ReloadFrom (E\<lparr>fx_fails := f\<rparr>) live t (OnLoad s0) = Ok s1"
    and "fingerprint (E\<lparr>fx_fails := f\<rparr>) live t = Some pl"
    and "NewStore (E\<lparr>fx_fails := f\<rparr>) boot t = Ok s0" and "boot \<noteq> live"
  shows "\<exists>s. store_reach E (s, WIdle, RIdle) \<and> so_dir s = live \<and> so_print s = Some pl \<and> so_current s = old \<and>
    watch_tick (E\<lparr>fx_fails := f\<rparr>) t s = Ok s"
proof -
  let ?E = "E\<lparr>fx_fails := f\<rparr>"
  let ?s = "s1\<lparr>so_current := old, so_seen := so_seen s1 @ [old]\<rparr>"
  have dir0: "so_dir (OnLoad s0) = boot" using assms(5) by (auto simp: NewStore_def OnLoad_def obind_Ok)
  have s1: "so_dir s1 = live" "so_print s1 = Some pl" "so_hooked s1"
    using assms(3,4) by (auto simp: ReloadFrom_def obind_Ok swap_def OnLoad_def)
  have step: "store_step E (a, w1, RIdle) (b, w2, RIdle)" if "watch_step ?E t (w1, a) = Ok (w2, b)" for a b w1 w2
    using that by (rule store_step.watch)
  have 1: "store_step E (OnLoad s0, WIdle, RIdle) (OnLoad s0, WDir boot, RIdle)" by (rule step) (simp add: dir0)
  have 2: "store_step E (OnLoad s0, WDir boot, RIdle) (OnLoad s0, WPrint boot pb, RIdle)"
    by (rule step) (simp add: assms(2))
  note 3 = ReloadFrom_steps [OF assms(3), of "WPrint boot pb"]
  have 4: "store_step E (s1, WPrint boot pb, RIdle) (s1, WDiff boot pb, RIdle)"
    by (rule step) (simp add: s1 assms(6))
  have 5: "store_step E (s1, WDiff boot pb, RIdle) (s1, WGood boot pb old, RIdle)"
    by (rule step) (simp add: assms(1))
  have 6: "store_step E (s1, WGood boot pb old, RIdle) (s1, WSwap old, RIdle)"
    by (rule step) (simp add: setPrint_def s1 assms(6) [symmetric])
  have 7: "store_step E (s1, WSwap old, RIdle) (s1\<lparr>so_current := old\<rparr>, WHook old, RIdle)" by (rule step) (simp add: s1)
  have 8: "store_step E (s1\<lparr>so_current := old\<rparr>, WHook old, RIdle) (?s, WIdle, RIdle)" by (rule step) simp
  have "store_reach E (OnLoad s0, WIdle, RIdle)"
    using store_reach.created [OF assms(5)] by (rule store_reach.hooked)
  from steps_reach [OF step_first [OF 1 step_first [OF 2 3]] this]
  have "store_reach E (s1, WPrint boot pb, RIdle)" .
  from steps_reach [OF step_first [OF 4 step_first [OF 5 step_first [OF 6 step_first [OF 7 step_once [OF 8]]]]] this]
  have "store_reach E (?s, WIdle, RIdle)" .
  moreover have "watch_tick ?E t ?s = Ok ?s" by (simp add: watch_tick_def s1 assms(4))
  ultimately show ?thesis by (intro exI [of _ ?s]) (simp add: s1)
qed

theorem watch_stale_witness:
  "\<exists>s. store_reach demo_env (s, WIdle, RIdle) \<and> so_dir s = [''live''] \<and> Names (so_current s) = [''shop''] \<and>
     watch_tick demo_env demo_tree s = Ok s"
proof -
  obtain s0 where s0: "NewStore (demo_env\<lparr>fx_fails := \<lambda>_. False\<rparr>) [''boot''] demo_tree = Ok s0" using demo_store by blast
  obtain s1 where s1: "ReloadFrom (demo_env\<lparr>fx_fails := \<lambda>_. False\<rparr>) [''live''] demo_tree (OnLoad s0) = Ok s1"
    by (simp add: ReloadFrom_def demo_loads)
  have "[''boot''] \<noteq> [''live'']" by simp
  from watch_stale [where E = demo_env and f = "\<lambda>_. False", OF _ _ s1 _ s0 this,
      unfolded demo_env_fails, OF demo_loads(1) demo_prints]
  obtain s where "store_reach demo_env (s, WIdle, RIdle)" "so_dir s = [''live'']"
    "so_current s = demo_load ''boot''" "watch_tick demo_env demo_tree s = Ok s" by blast
  then show ?thesis by (intro exI [of _ s]) (simp only: demo_loads(3))
qed

end
