(* ===== verification/Desired.thy ===== *)
theory Desired
  imports Policy_Store
begin

text \<open>
  The generations of profiles the controller publishes (\<open>internal/desired/desired.go\<close> and
  \<open>settings.go\<close>): reading and hashing a manifest, fetching its static slists, replacing the live
  directory by it, and the loop that follows the key of the bus. A Go map is an association list
  with distinct keys, in the order in which the code iterates over it. JSON decoding, the parser of
  log levels and the answers of Redis and of the bus are parameters. Every statement of \<open>Apply\<close>
  that calls the operating system has its own oracle of refusals, \<open>F 0\<close> to \<open>F 14\<close> in the order of
  the code.
\<close>

section \<open>Manifests\<close>

record cfile =
  fi_Name :: string
  fi_Text :: string

record settings =
  se_LogLevel :: string
  se_level :: int

record manifest =
  mf_V :: int
  mf_Rev :: int
  mf_ConfigHash :: string
  mf_Profiles :: "(string \<times> cfile list) list"
  mf_Lists :: "(string \<times> string) list"
  mf_Settings :: "settings option"

record desired_env =
  dx_fs :: fs_env
  dx_json :: "string \<Rightarrow> manifest option"
  dx_level :: "string \<Rightarrow> int option"

abbreviation DefaultProfile :: string where "DefaultProfile \<equiv> ''default''"
abbreviation ProfileFile :: string where "ProfileFile \<equiv> ''profile.yaml''"
abbreviation BlobPrefix :: string where "BlobPrefix \<equiv> ''waf.blob.''"
abbreviation treeDir :: string where "treeDir \<equiv> ''profiles''"

datatype manifest_err =
    BadJSON | BadV | BadRev | NoDefault | BadProfileName string | BadFiles string
  | BadListName string | BadListHash string | BadSettings | HashMismatch string string

definition se_validate :: "(string \<Rightarrow> int option) \<Rightarrow> settings option \<Rightarrow> settings option option" where
  "se_validate level s =
     (case s of
        None \<Rightarrow> Some None
      | Some s \<Rightarrow> (case level (se_LogLevel s) of None \<Rightarrow> None | Some l \<Rightarrow> Some (Some (s\<lparr>se_level := l\<rparr>))))"

text \<open>What is fed to the hash: parts that end in a NUL byte.\<close>

definition sum_part :: "string \<Rightarrow> string" where
  "sum_part s = s @ [CHR 0x00]"

definition writeSettings :: "settings option \<Rightarrow> string" where
  "writeSettings s =
     (case s of None \<Rightarrow> [] | Some s \<Rightarrow> concat (map sum_part [''settings'', ''log_level'', se_LogLevel s]))"

definition file_parts :: "cfile list \<Rightarrow> string" where
  "file_parts fs = concat (map (\<lambda>f. sum_part (fi_Name f) @ sum_part (fi_Text f)) fs)"

definition hash_input :: "(string \<times> cfile list) list \<Rightarrow> (string \<times> string) list \<Rightarrow> settings option \<Rightarrow> string" where
  "hash_input profiles slists settings =
     concat (map (\<lambda>name. sum_part name @ file_parts (the (map_of profiles name))) (sort (map fst profiles))) @
     concat (map (\<lambda>name. concat (map sum_part [''list'', name, the (map_of slists name)])) (sort (map fst slists))) @
     writeSettings settings"

definition HashLists :: "go_lib \<Rightarrow> (string \<times> cfile list) list \<Rightarrow> (string \<times> string) list \<Rightarrow> settings option \<Rightarrow> string" where
  "HashLists L profiles slists settings = ''sha256:'' @ sha256_hex L (hash_input profiles slists settings)"

definition mf_Names :: "manifest \<Rightarrow> string list" where
  "mf_Names m = sort (map fst (mf_Profiles m))"

definition listName_char :: "char \<Rightarrow> bool" where
  "listName_char c = (is_alnum c \<or> c = CHR ''.'' \<or> c = CHR ''_'' \<or> c = CHR ''-'')"

definition listNameRe :: "string \<Rightarrow> bool" where
  "listNameRe s = (s \<noteq> [] \<and> is_alnum (hd s) \<and> list_all listName_char (tl s) \<and> length (tl s) \<le> 63)"

definition lower_hex :: "char \<Rightarrow> bool" where
  "lower_hex c = (is_digit c \<or> (97 \<le> byte c \<and> byte c \<le> 102))"

definition listHashRe :: "string \<Rightarrow> bool" where
  "listHashRe s = (HasPrefix s ''sha256:'' \<and> length s = 71 \<and> list_all lower_hex (drop 7 s))"

fun first_bad :: "('a \<Rightarrow> 'e option) \<Rightarrow> 'a list \<Rightarrow> 'e option" where
  "first_bad f [] = None"
| "first_bad f (x # xs) = (case f x of None \<Rightarrow> first_bad f xs | Some e \<Rightarrow> Some e)"

definition profile_bad :: "string \<times> cfile list \<Rightarrow> manifest_err option" where
  "profile_bad = (\<lambda>(name, files).
     if name = [] \<or> name = ''.'' \<or> name = ''..'' \<or> list_ex (\<lambda>c. c = CHR ''/'' \<or> c = CHR 0x5C) name
       then Some (BadProfileName name)
     else if length files \<noteq> 1 \<or> fi_Name (hd files) \<noteq> ProfileFile then Some (BadFiles name)
     else None)"

definition list_bad :: "string \<times> string \<Rightarrow> manifest_err option" where
  "list_bad = (\<lambda>(name, hash).
     if \<not> listNameRe name then Some (BadListName name)
     else if \<not> listHashRe hash then Some (BadListHash name)
     else None)"

definition parse_checked :: "desired_env \<Rightarrow> manifest \<Rightarrow> (manifest_err, manifest) outcome" where
  "parse_checked D m =
     (if mf_V m \<noteq> 1 then Err BadV
      else if mf_Rev m < 1 then Err BadRev
      else if map_of (mf_Profiles m) DefaultProfile = None then Err NoDefault
      else case first_bad profile_bad (mf_Profiles m) of Some e \<Rightarrow> Err e | None \<Rightarrow>
        case first_bad list_bad (mf_Lists m) of Some e \<Rightarrow> Err e | None \<Rightarrow>
        case se_validate (dx_level D) (mf_Settings m) of None \<Rightarrow> Err BadSettings | Some st \<Rightarrow>
        (let got = HashLists (fx_lib (dx_fs D)) (mf_Profiles m) (mf_Lists m) st
         in if mf_ConfigHash m \<noteq> [] \<and> mf_ConfigHash m \<noteq> got then Err (HashMismatch got (mf_ConfigHash m))
            else Ok (m\<lparr>mf_Settings := st, mf_ConfigHash := got\<rparr>)))"

definition mf_Parse :: "desired_env \<Rightarrow> string \<Rightarrow> (manifest_err, manifest) outcome" where
  "mf_Parse D raw = (case dx_json D raw of None \<Rightarrow> Err BadJSON | Some m \<Rightarrow> parse_checked D m)"

section \<open>The static lists of a generation\<close>

type_synonym blob_source = "string list \<Rightarrow> string option list option"

datatype fetch_err = NoRedis | RedisErr | ListMissing string | ListMismatch string

fun fetch_each ::
  "go_lib \<Rightarrow> (string \<times> string) list \<Rightarrow> string list \<Rightarrow> string option list \<Rightarrow> (string \<times> string) list \<Rightarrow>
   (fetch_err, (string \<times> string) list) outcome" where
  "fetch_each L slists [] bodies out = Ok out"
| "fetch_each L slists (name # names) [] out = Err (ListMissing name)"
| "fetch_each L slists (name # names) (None # bodies) out = Err (ListMissing name)"
| "fetch_each L slists (name # names) (Some b # bodies) out =
     (if ''sha256:'' @ sha256_hex L b \<noteq> the (map_of slists name) then Err (ListMismatch name)
      else fetch_each L slists names bodies (AList.update name b out))"

definition FetchLists :: "go_lib \<Rightarrow> blob_source option \<Rightarrow> manifest \<Rightarrow> (fetch_err, (string \<times> string) list) outcome" where
  "FetchLists L blobs m =
     (if mf_Lists m = [] then Ok []
      else case blobs of
        None \<Rightarrow> Err NoRedis
      | Some objects \<Rightarrow>
          (let names = sort (map fst (mf_Lists m));
               keys = map (\<lambda>n. BlobPrefix @ TrimPrefix (the (map_of (mf_Lists m) n)) ''sha256:'') names
           in case objects keys of
                None \<Rightarrow> Err RedisErr
              | Some bodies \<Rightarrow> fetch_each L (mf_Lists m) names bodies []))"

section \<open>Applying a generation\<close>

datatype write_err = WriteFailed | BodyMissing string

datatype apply_err = DataDirErr | StagingErr write_err | ParkErr | PromoteErr | ReloadErr load_err

text \<open>The two loops of \<open>write\<close>: each entry of a map becomes the file of its name and the suffix, with
  the bytes \<open>body\<close> gives for it.\<close>

fun write_each ::
  "os_faults \<Rightarrow> int \<Rightarrow> path \<Rightarrow> string \<Rightarrow> (string \<Rightarrow> 'v \<Rightarrow> (write_err, string) outcome) \<Rightarrow>
   (string \<times> 'v) list \<Rightarrow> tree \<Rightarrow> (write_err, unit) outcome \<times> tree" where
  "write_each fails now dir suf body [] t = (Ok (), t)"
| "write_each fails now dir suf body ((name, v) # xs) t =
     (case body name v of
        Panic \<Rightarrow> (Panic, t)
      | Err e \<Rightarrow> (Err e, t)
      | Ok data \<Rightarrow>
          (case WriteFile fails now (path_join dir (name @ suf)) data t of
             None \<Rightarrow> (Err WriteFailed, t)
           | Some t \<Rightarrow> write_each fails now dir suf body xs t))"

text \<open>\<open>profile.Files[0].Text\<close> and the body of a list.\<close>

definition profile_text :: "string \<Rightarrow> cfile list \<Rightarrow> (write_err, string) outcome" where
  "profile_text name files = (case files of [] \<Rightarrow> Panic | f # _ \<Rightarrow> Ok (fi_Text f))"

definition list_body :: "(string \<times> string) list \<Rightarrow> string \<Rightarrow> string \<Rightarrow> (write_err, string) outcome" where
  "list_body bodies name hash = (case map_of bodies name of None \<Rightarrow> Err (BodyMissing name) | Some b \<Rightarrow> Ok b)"

definition write_tree :: "os_faults \<Rightarrow> int \<Rightarrow> path \<Rightarrow> manifest \<Rightarrow> (string \<times> string) list \<Rightarrow> tree \<Rightarrow> (write_err, unit) outcome \<times> tree" where
  "write_tree fails now dir m bodies t =
     (case MkdirAll fails dir t of
        None \<Rightarrow> (Err WriteFailed, t)
      | Some t \<Rightarrow>
          (case write_each fails now dir ''.yaml'' profile_text (mf_Profiles m) t of
             (Ok _, t) \<Rightarrow>
               if mf_Lists m = [] then (Ok (), t)
               else (case MkdirAll fails (dir @ [ListsDir]) t of
                   None \<Rightarrow> (Err WriteFailed, t)
                 | Some t \<Rightarrow> write_each fails now (dir @ [ListsDir]) ''.txt'' (list_body bodies) (mf_Lists m) t)
           | r \<Rightarrow> r))"

type_synonym world = "tree \<times> store"

abbreviation at_step :: "fs_env \<Rightarrow> (nat \<Rightarrow> os_faults) \<Rightarrow> nat \<Rightarrow> fs_env" where
  "at_step E F i \<equiv> E\<lparr>fx_fails := F i\<rparr>"

text \<open>The new tree is live: load it, or bring the previous one back.\<close>

definition activate ::
  "fs_env \<Rightarrow> (nat \<Rightarrow> os_faults) \<Rightarrow> path \<Rightarrow> bool \<Rightarrow> tree \<Rightarrow> store \<Rightarrow> (apply_err, unit) outcome \<times> world" where
  "activate E F dir lived t s =
     (let live = dir @ [treeDir]; prev = dir @ [''.prev''] in
      case ReloadFrom (at_step E F 10) live t s of
        Panic \<Rightarrow> (Panic, t, s)
      | Ok s \<Rightarrow> (Ok (), RemoveAll (F 14) prev t, s)
      | Err e \<Rightarrow>
          (let t = RemoveAll (F 11) live t in
           if \<not> lived then (Err (ReloadErr e), t, s)
           else case Rename (F 12) prev live t of
               Ok t \<Rightarrow>
                 (case ReloadFrom (at_step E F 13) live t s of
                    Panic \<Rightarrow> (Panic, t, s)
                  | Ok s \<Rightarrow> (Err (ReloadErr e), t, s)
                  | Err _ \<Rightarrow> (Err (ReloadErr e), t, s))
             | _ \<Rightarrow> (Err (ReloadErr e), t, s)))"

definition promote ::
  "fs_env \<Rightarrow> (nat \<Rightarrow> os_faults) \<Rightarrow> path \<Rightarrow> bool \<Rightarrow> tree \<Rightarrow> store \<Rightarrow> (apply_err, unit) outcome \<times> world" where
  "promote E F dir lived t s =
     (let staging = dir @ [''.next'']; live = dir @ [treeDir]; prev = dir @ [''.prev''] in
      case Rename (F 7) staging live t of
        Ok t \<Rightarrow> activate E F dir lived t s
      | _ \<Rightarrow>
          (let t = (if lived then (case Rename (F 8) prev live t of Ok t' \<Rightarrow> t' | _ \<Rightarrow> t) else t)
           in (Err PromoteErr, RemoveAll (F 9) staging t, s)))"

definition park ::
  "fs_env \<Rightarrow> (nat \<Rightarrow> os_faults) \<Rightarrow> path \<Rightarrow> tree \<Rightarrow> store \<Rightarrow> (apply_err, unit) outcome \<times> world" where
  "park E F dir t s =
     (let staging = dir @ [''.next'']; live = dir @ [treeDir]; prev = dir @ [''.prev''];
          t = RemoveAll (F 4) prev t in
      case Rename (F 5) live prev t of
        Ok t \<Rightarrow> promote E F dir True t s
      | Err NotExist \<Rightarrow> promote E F dir False t s
      | _ \<Rightarrow> (Err ParkErr, RemoveAll (F 6) staging t, s))"

definition Apply ::
  "fs_env \<Rightarrow> (nat \<Rightarrow> os_faults) \<Rightarrow> int \<Rightarrow> path \<Rightarrow> manifest \<Rightarrow> (string \<times> string) list \<Rightarrow> tree \<Rightarrow> store \<Rightarrow>
   (apply_err, unit) outcome \<times> world" where
  "Apply E F now dir m bodies t s =
     (case MkdirAll (F 0) dir t of
        None \<Rightarrow> (Err DataDirErr, t, s)
      | Some t \<Rightarrow>
          (let staging = dir @ [''.next'']
           in case write_tree (F 2) now staging m bodies (RemoveAll (F 1) staging t) of
                (Ok _, t) \<Rightarrow> park E F dir t s
              | (Err e, t) \<Rightarrow> (Err (StagingErr e), RemoveAll (F 3) staging t, s)
              | (Panic, t) \<Rightarrow> (Panic, t, s)))"

section \<open>Following the key\<close>

abbreviation ApplyOK :: string where "ApplyOK \<equiv> ''ok''"
abbreviation ApplyFailed :: string where "ApplyFailed \<equiv> ''apply_failed''"

record applied =
  ap_hash :: string
  ap_rev :: int
  ap_apply :: string
  ap_names :: "string list"

definition new_applied :: applied where
  "new_applied = \<lparr>ap_hash = [], ap_rev = 0, ap_apply = [], ap_names = []\<rparr>"

definition ap_set :: "string \<Rightarrow> int \<Rightarrow> string \<Rightarrow> string list \<Rightarrow> applied \<Rightarrow> applied" where
  "ap_set hash rv ap names a = a\<lparr>ap_hash := hash, ap_rev := rv, ap_apply := ap, ap_names := names\<rparr>"

definition ap_Snapshot :: "applied option \<Rightarrow> string \<times> int \<times> string \<times> string list" where
  "ap_Snapshot a =
     (case a of None \<Rightarrow> ([], 0, [], []) | Some a \<Rightarrow> (ap_hash a, ap_rev a, ap_apply a, ap_names a))"

text \<open>\<open>de_level\<close> is the level variable (none for a nil pointer); \<open>de_retry\<close> says that the timer of
  the next attempt is armed.\<close>

record desired =
  de_tree :: tree
  de_store :: store
  de_applied :: applied
  de_level :: "int option"
  de_pending :: "string option"
  de_retry :: bool

definition se_apply :: "settings option \<Rightarrow> int option \<Rightarrow> int option" where
  "se_apply s level = (case (s, level) of (Some s, Some _) \<Rightarrow> Some (se_level s) | _ \<Rightarrow> level)"

definition handle ::
  "desired_env \<Rightarrow> (nat \<Rightarrow> os_faults) \<Rightarrow> int \<Rightarrow> path \<Rightarrow> blob_source option \<Rightarrow> string \<Rightarrow> desired \<Rightarrow>
   (unit, bool \<times> desired) outcome" where
  "handle D F now dir blobs raw d =
     (case mf_Parse D raw of
        Panic \<Rightarrow> Panic
      | Err _ \<Rightarrow> Ok (False, d)
      | Ok m \<Rightarrow>
          (let (hash, rv, ap, names) = ap_Snapshot (Some (de_applied d))
           in if ap = ApplyOK \<and> hash = mf_ConfigHash m \<and> rv = mf_Rev m then Ok (False, d)
              else case FetchLists (fx_lib (dx_fs D)) blobs m of
                Panic \<Rightarrow> Panic
              | Err _ \<Rightarrow>
                  Ok (blobs \<noteq> None, d\<lparr>de_applied := ap_set hash rv ApplyFailed names (de_applied d)\<rparr>)
              | Ok slists \<Rightarrow>
                  (case Apply (dx_fs D) F now dir m slists (de_tree d) (de_store d) of
                     (Panic, _) \<Rightarrow> Panic
                   | (Err _, t, s) \<Rightarrow>
                       Ok (False, d\<lparr>de_tree := t, de_store := s,
                          de_applied := ap_set hash rv ApplyFailed names (de_applied d)\<rparr>)
                   | (Ok _, t, s) \<Rightarrow>
                       Ok (False, d\<lparr>de_tree := t, de_store := s,
                          de_applied := ap_set (mf_ConfigHash m) (mf_Rev m) ApplyOK (mf_Names m) (de_applied d),
                          de_level := se_apply (mf_Settings m) (de_level d)\<rparr>))))"

datatype update = Absent | Deleted | Put string

definition on_update ::
  "desired_env \<Rightarrow> (nat \<Rightarrow> os_faults) \<Rightarrow> int \<Rightarrow> path \<Rightarrow> blob_source option \<Rightarrow> update \<Rightarrow> desired \<Rightarrow> (unit, desired) outcome" where
  "on_update D F now dir blobs u d =
     (case u of
        Absent \<Rightarrow> Ok d
      | Deleted \<Rightarrow> Ok d
      | Put raw \<Rightarrow>
          obind (handle D F now dir blobs raw (d\<lparr>de_pending := None, de_retry := False\<rparr>)) (\<lambda>(again, d).
            Ok (if again then d\<lparr>de_pending := Some raw, de_retry := True\<rparr> else d)))"

definition on_retry ::
  "desired_env \<Rightarrow> (nat \<Rightarrow> os_faults) \<Rightarrow> int \<Rightarrow> path \<Rightarrow> blob_source option \<Rightarrow> desired \<Rightarrow> (unit, desired) outcome" where
  "on_retry D F now dir blobs d =
     (let d = d\<lparr>de_retry := False\<rparr>
      in case de_pending d of
           None \<Rightarrow> Ok d
         | Some raw \<Rightarrow>
             obind (handle D F now dir blobs raw d) (\<lambda>(again, d).
               Ok (if again then d\<lparr>de_retry := True\<rparr> else d\<lparr>de_pending := None\<rparr>)))"

text \<open>The directory is none when it is not configured.\<close>

definition Bootstrap :: "fs_env \<Rightarrow> path option \<Rightarrow> tree \<Rightarrow> store \<Rightarrow> (unit, bool \<times> store) outcome" where
  "Bootstrap E dir t s =
     (case dir of
        None \<Rightarrow> Ok (False, s)
      | Some dir \<Rightarrow>
          (let live = dir @ [treeDir]
           in if os_stat t (live @ [DefaultProfile @ ''.yaml'']) = None then Ok (False, s)
              else case ReloadFrom E live t s of
                Panic \<Rightarrow> Panic
              | Err _ \<Rightarrow> Ok (False, s)
              | Ok s \<Rightarrow> Ok (True, s)))"

end
