(* ===== verification/Tree_Props.thy ===== *)
theory Tree_Props
  imports Tree_FS
begin

text \<open>
  What each call of the file system does to a tree in order: the lookup after it, and that the tree
  stays in order. A call is then known by what it does to the subtrees one cares about.
\<close>

named_theorems tree_ok_rules \<open>preservation of a tree in order\<close>

section \<open>Parents\<close>

lemma under_parent: "x \<noteq> [] \<Longrightarrow> under r (butlast x) \<Longrightarrow> under r x"
  by (metis append_butlast_last_id under_append under_trans)

lemma not_under_parent [simp]:
  assumes "x \<noteq> []"
  shows "\<not> under x (butlast x)"
proof -
  have "length (butlast x) < length x" using assms by simp
  then show ?thesis using prefix_length_le [of x "butlast x"] unfolding under_def by linarith
qed

section \<open>Making directories\<close>

lemma map_of_snoc: "map_of t k = None \<Longrightarrow> map_of (t @ [(k, v)]) x = (if x = k then Some v else map_of t x)"
  by (auto simp: map_add_def split: option.split)

lemma tree_ok_mkdir:
  assumes "tree_ok t" and "map_of t k = None" and "map_of t (butlast k) = Some Dir" and "k \<noteq> []"
  shows "tree_ok (t @ [(k, Dir)])"
proof -
  let ?t = "t @ [(k, Dir)]"
  have at: "map_of ?t x = (if x = k then Some Dir else map_of t x)" for x by (rule map_of_snoc [OF assms(2)])
  have "k \<notin> fst ` set t" using assms(2) by (simp add: map_of_eq_None_iff)
  then have "distinct (map fst ?t)" using assms(1) by (simp add: tree_ok_def)
  moreover have "map_of ?t [] = Some Dir" using assms(1,4) unfolding at by (simp add: tree_ok_def)
  moreover have "map_of ?t (butlast x) = Some Dir" if "x \<noteq> []" "map_of ?t x \<noteq> None" for x
    using that assms(3) tree_ok_parent [OF assms(1), of x] unfolding at by (cases "x = k") auto
  ultimately show ?thesis unfolding tree_ok_def by blast
qed

lemma mkdir_all_props:
  assumes "mkdir_all base cs t = Some t'" and "tree_ok t" and "map_of t base = Some Dir"
  shows "tree_ok t' \<and> map_of t' (base @ cs) = Some Dir \<and>
    (\<forall>x. map_of t x \<noteq> None \<longrightarrow> map_of t' x = map_of t x) \<and>
    (\<forall>x. \<not> under x (base @ cs) \<longrightarrow> map_of t' x = map_of t x)"
  using assms
proof (induction base cs t rule: mkdir_all.induct)
  case (2 base c cs t)
  show ?case
  proof (cases "map_of t (base @ [c])")
    case None
    let ?t = "t @ [(base @ [c], Dir)]"
    have ok: "tree_ok ?t" using tree_ok_mkdir [OF "2.prems"(2) None] "2.prems"(3) by simp
    have at: "map_of ?t x = (if x = base @ [c] then Some Dir else map_of t x)" for x
      by (rule map_of_snoc [OF None])
    have d: "map_of ?t (base @ [c]) = Some Dir" by (simp only: at) simp
    have run: "mkdir_all (base @ [c]) cs ?t = Some t'" using "2.prems"(1) None by simp
    note IH = "2.IH"(1) [OF None run ok d]
    have "map_of t' x = map_of t x" if u: "\<not> under x (base @ c # cs)" for x
    proof -
      have "x \<noteq> base @ [c]" using u by (auto simp: under_def)
      then have "map_of ?t x = map_of t x" by (simp only: at) simp
      moreover have "map_of t' x = map_of ?t x" using IH u by simp
      ultimately show ?thesis by (rule trans [rotated])
    qed
    moreover have "map_of t' x = map_of t x" if u: "map_of t x \<noteq> None" for x
    proof -
      have "map_of ?t x = map_of t x" using u None by (simp only: at) auto
      moreover from this have "map_of t' x = map_of ?t x" using IH u by metis
      ultimately show ?thesis by (rule trans [rotated])
    qed
    moreover have "tree_ok t'" "map_of t' (base @ c # cs) = Some Dir" using IH by simp_all
    ultimately show ?thesis by blast
  next
    case (Some n)
    then show ?thesis using 2 by (cases n) auto
  qed
qed auto

lemma MkdirAll_props:
  assumes "MkdirAll fails p t = Some t'" and "tree_ok t"
  shows "tree_ok t'" and "map_of t' p = Some Dir"
    and "map_of t x \<noteq> None \<Longrightarrow> map_of t' x = map_of t x"
    and "\<not> under x p \<Longrightarrow> map_of t' x = map_of t x"
proof -
  have "mkdir_all [] p t = Some t'" using assms(1) by (auto simp: MkdirAll_def split: if_splits)
  moreover have "map_of t [] = Some Dir" using assms(2) by (simp add: tree_ok_def)
  ultimately show "tree_ok t'" "map_of t' p = Some Dir"
    "map_of t x \<noteq> None \<Longrightarrow> map_of t' x = map_of t x" "\<not> under x p \<Longrightarrow> map_of t' x = map_of t x"
    using mkdir_all_props [of "[]" p t t'] assms(2) by auto
qed

lemmas MkdirAll_ok [tree_ok_rules] = MkdirAll_props(1)

section \<open>Writing and removing\<close>

lemma WriteFile_lookup:
  "WriteFile fails now p data t = Some t' \<Longrightarrow>
     map_of t' x = (if x = p then Some (File data now) else map_of t x) \<and> map_of t (butlast p) = Some Dir"
  by (auto simp: WriteFile_def update_conv' split: if_splits)

lemma WriteFile_ok [tree_ok_rules]:
  assumes "WriteFile fails now p data t = Some t'" and "tree_ok t"
  shows "tree_ok t'"
proof -
  have p: "map_of t (butlast p) = Some Dir" "map_of t p \<noteq> Some Dir"
    and t': "t' = AList.update p (File data now) t"
    using assms(1) by (auto simp: WriteFile_def split: if_splits)
  have at: "map_of t' x = (if x = p then Some (File data now) else map_of t x)" for x
    by (simp add: t' update_conv')
  have np: "p \<noteq> []" using p by auto
  have child: "butlast x \<noteq> p" if "x \<noteq> []" "map_of t x \<noteq> None" for x
    using tree_ok_parent [OF assms(2) that] p(2) by auto
  have "map_of t' (butlast x) = Some Dir" if "x \<noteq> []" "map_of t' x \<noteq> None" for x
  proof (cases "x = p")
    case True
    then show ?thesis using at p np by (metis append_butlast_last_id not_Cons_self2 self_append_conv)
  next
    case False
    then show ?thesis using that child [of x] tree_ok_parent [OF assms(2), of x] by (simp add: at)
  qed
  moreover have "distinct (map fst t')" using assms(2) by (simp add: t' tree_ok_def distinct_update)
  moreover have "map_of t' [] = Some Dir" using assms(2) np by (simp add: at tree_ok_def)
  ultimately show ?thesis by (simp add: tree_ok_def)
qed

lemma RemoveAll_ok [tree_ok_rules]:
  assumes "tree_ok t" and "p \<noteq> []"
  shows "tree_ok (RemoveAll fails p t)"
proof -
  have "distinct (map fst (filter P t))" for P using assms(1) by (simp add: tree_ok_def distinct_map_filter)
  then have "distinct (map fst (RemoveAll fails p t))" using assms(1) by (simp add: RemoveAll_def tree_ok_def)
  moreover have "\<not> under p []" using assms(2) by (simp add: under_def)
  moreover have "x \<noteq> [] \<Longrightarrow> \<not> under p x \<Longrightarrow> \<not> under p (butlast x)" for x
    using under_parent by blast
  ultimately show ?thesis using assms(1) by (auto simp: tree_ok_def RemoveAll_lookup)
qed

lemma RemoveAll_at [simp]: "\<not> fails (RemoveCall p) \<Longrightarrow> under p x \<Longrightarrow> map_of (RemoveAll fails p t) x = None"
  by (simp add: RemoveAll_lookup)

lemma RemoveAll_other [simp]: "\<not> under p x \<Longrightarrow> map_of (RemoveAll fails p t) x = map_of t x"
  by (simp add: RemoveAll_lookup)

section \<open>Renaming\<close>

lemma Rename_cases:
  assumes "Rename fails p q t = Ok t'" and "tree_ok t" and "p \<noteq> q"
  shows "\<not> under p q \<and> \<not> under q p \<and> map_of t p \<noteq> None \<and> map_of t (butlast q) = Some Dir \<and>
    t' = move p q (filter (\<lambda>(x, n). x \<noteq> q) t) \<and> (\<forall>x. under q x \<longrightarrow> x \<noteq> q \<longrightarrow> map_of t x = None)"
proof -
  obtain n where n: "map_of t p = Some n" using assms(1) by (auto simp: Rename_def split: if_splits option.splits)
  have qd: "map_of t q \<noteq> Some Dir" using assms(1) by (auto simp: Rename_def split: if_splits option.splits)
  have none: "map_of t x = None" if u: "under q x" "x \<noteq> q" for x
  proof -
    obtain y where "x = q @ y" using u(1) by (rule underE)
    then show ?thesis using below_no_dir [OF assms(2) qd, of y] u(2) by auto
  qed
  then have up: "\<not> under q p" using n assms(3) by fastforce
  show ?thesis
  proof (cases "map_of t q")
    case None
    then have "filter (\<lambda>(x, n). x \<noteq> q) t = t" by (auto simp: filter_id_conv dest: weak_map_of_SomeI)
    then show ?thesis using assms(1) n None up none
      by (auto simp: Rename_def split: if_splits option.splits node.splits)
  next
    case (Some m)
    then obtain c i where m: "map_of t q = Some (File c i)" using qd by (cases m) auto
    then obtain c' i' where f: "n = File c' i'" using assms(1) n by (cases n) (auto simp: Rename_def split: if_splits)
    have "\<not> under p q"
      using below_no_dir [OF assms(2), of p] n f m assms(3) by (fastforce simp: under_def prefix_def)
    moreover have "q \<noteq> []" using m assms(2) by (auto simp: tree_ok_def)
    then have "map_of t (butlast q) = Some Dir" using tree_ok_parent [OF assms(2)] m by simp
    ultimately show ?thesis using assms(1,3) n m f up none by (auto simp: Rename_def split: if_splits)
  qed
qed

lemma Rename_lookup:
  assumes "Rename fails p q t = Ok t'" and "tree_ok t" and "p \<noteq> q"
  shows "map_of t' (q @ y) = map_of t (p @ y)"
    and "under p x \<Longrightarrow> map_of t' x = None"
    and "\<not> under p x \<Longrightarrow> \<not> under q x \<Longrightarrow> map_of t' x = map_of t x"
proof -
  let ?t = "filter (\<lambda>(x, n). x \<noteq> q) t"
  have ap: "apart p q" and t': "t' = move p q ?t" and none: "\<forall>x. under q x \<longrightarrow> map_of ?t x = None"
    using Rename_cases [OF assms] by (auto simp: apart_def map_of_filter_key)
  have nq: "p @ y \<noteq> q" for y using ap by (auto simp: apart_def)
  show "map_of t' (q @ y) = map_of t (p @ y)"
    using move_lookup [OF none, of p y] nq by (simp add: t' map_of_filter_key)
  show "map_of t' x = None" if "under p x"
    using move_lookup_source [OF that apart_under [OF ap that]] by (simp add: t')
  show "map_of t' x = map_of t x" if "\<not> under p x" "\<not> under q x"
    using move_lookup_other [OF that, of ?t] that by (auto simp: t' map_of_filter_key)
qed

lemma moved_inj:
  assumes "(if under p x then q @ drop (length p) x else x) = (if under p y then q @ drop (length p) y else y)"
    and "\<not> under q x" and "\<not> under q y"
  shows "x = y"
proof -
  have "under p x = under p y" using assms by (metis under_append)
  moreover have "drop (length p) x = drop (length p) y \<Longrightarrow> under p x \<Longrightarrow> under p y \<Longrightarrow> x = y"
    by (auto simp: under_def prefix_def)
  ultimately show ?thesis using assms(1) by (cases "under p x") auto
qed

lemma move_distinct:
  assumes "distinct (map fst t)" and "\<And>x. x \<in> fst ` set t \<Longrightarrow> \<not> under q x"
  shows "distinct (map fst (move p q t))"
proof -
  let ?f = "\<lambda>x. if under p x then q @ drop (length p) x else x"
  have "inj_on ?f (fst ` set t)"
    by (rule inj_onI) (rule moved_inj, assumption, rule assms(2), assumption, rule assms(2), assumption)
  moreover have "map fst (move p q t) = map ?f (map fst t)" by (simp add: move_def case_prod_beta)
  ultimately show ?thesis using assms(1) by (simp only: distinct_map set_map)
qed

lemma Rename_ok [tree_ok_rules]:
  assumes "Rename fails p q t = Ok t'" and "tree_ok t" and "p \<noteq> q"
  shows "tree_ok t'"
proof -
  let ?t = "filter (\<lambda>(x, n). x \<noteq> q) t"
  note R = Rename_cases [OF assms] and L = Rename_lookup [OF assms]
  have none: "\<forall>x. under q x \<longrightarrow> x \<noteq> q \<longrightarrow> map_of t x = None" using R by (elim conjE)
  have d: "distinct (map fst t)" using assms(2) by (simp add: tree_ok_def)
  have "distinct (map fst (move p q ?t))"
  proof (rule move_distinct)
    show "distinct (map fst ?t)" using d by (simp add: distinct_map_filter)
    show "\<not> under q x" if "x \<in> fst ` set ?t" for x
    proof
      assume "under q x"
      moreover have "x \<noteq> q" using that by auto
      moreover have "x \<in> fst ` set t" using that by auto
      then have "map_of t x \<noteq> None" by (simp add: map_of_eq_None_iff)
      ultimately show False using none by simp
    qed
  qed
  moreover have "\<not> under p []" "\<not> under q []" using R by (auto simp: under_def)
  then have "map_of t' [] = Some Dir" using L(3) [of "[]"] assms(2) by (simp add: tree_ok_def)
  moreover have "map_of t' (butlast x) = Some Dir" if x: "x \<noteq> []" "map_of t' x \<noteq> None" for x
  proof (cases "under q x")
    case True
    then obtain y where y: "x = q @ y" by (rule underE)
    show ?thesis
    proof (cases "y = []")
      case True
      have q: "q \<noteq> []" using R by (auto simp: under_def)
      then have "\<not> under q (butlast q)" by simp
      moreover have "\<not> under p (butlast q)" using R under_parent [OF q] by blast
      ultimately show ?thesis using L(3) [of "butlast q"] R y True by simp
    next
      case False
      then have b: "butlast (p @ y) = p @ butlast y" "butlast x = q @ butlast y" by (simp_all add: y butlast_append)
      have "map_of t (p @ y) \<noteq> None" using x(2) L(1) y by simp
      then have "map_of t (p @ butlast y) = Some Dir" using tree_ok_parent [OF assms(2), of "p @ y"] False b by simp
      then show ?thesis using L(1) b(2) by simp
    qed
  next
    case False
    then have p: "\<not> under p x" using L(2) x(2) by auto
    have up: "\<not> under r (butlast x)" if "\<not> under r x" for r
      using that under_parent [OF x(1)] by blast
    have "map_of t x \<noteq> None" using L(3) p False x(2) by simp
    then have "map_of t (butlast x) = Some Dir" using tree_ok_parent [OF assms(2) x(1)] by simp
    then show ?thesis using L(3) up p False by simp
  qed
  ultimately show ?thesis using R by (simp add: tree_ok_def)
qed

end
