(* ===== verification/Desired_Props.thy ===== *)
theory Desired_Props
  imports Desired Tree_Props Store_Props
begin

text \<open>
  How a generation reaches the disk and the store: what \<open>write\<close> leaves in the staging directory, what
  the renames of \<open>Apply\<close> do to the live one on every path, and which profiles the store serves after
  it.
\<close>

section \<open>Paths of the files\<close>

definition plain_name :: "string \<Rightarrow> bool" where
  "plain_name s \<longleftrightarrow> CHR ''/'' \<notin> set s"

lemma Split_plain: "c \<notin> set s \<Longrightarrow> Split s c = [s]"
  by (induction s) auto

lemma path_join_plain:
  assumes "plain_name s" and "2 < length s"
  shows "path_join dir s = dir @ [s]"
proof -
  have "s \<noteq> []" "s \<noteq> ''.''" "s \<noteq> ''..''" using assms(2) by auto
  then show ?thesis using Split_plain [of "CHR ''/''" s] assms(1)
    by (simp add: path_join_def plain_name_def clean_step_def)
qed

lemma tree_ok_above:
  assumes "tree_ok t" and "map_of t q \<noteq> None" and "under x q"
  shows "map_of t x \<noteq> None"
proof
  assume "map_of t x = None"
  from below_none [OF assms(1) this assms(3)] assms(2) show False by simp
qed

lemma MkdirAll_child:
  assumes "MkdirAll fails p t = Some t'" and "tree_ok t" and "map_of t (butlast p) = Some Dir" and "p \<noteq> []"
  shows "map_of t' x = (if x = p then Some Dir else map_of t x)"
proof (cases "under x p \<and> x \<noteq> p")
  case True
  then have "under x (butlast p)"
    using under_butlast [of x p] by metis
  then have "map_of t x \<noteq> None" using tree_ok_above [OF assms(2), of "butlast p" x] assms(3) by simp
  then show ?thesis using MkdirAll_props(3) [OF assms(1,2)] True by simp
next
  case False
  then show ?thesis
    using MkdirAll_props(2) [OF assms(1,2)] MkdirAll_props(4) [OF assms(1,2), of x] by auto
qed

section \<open>What \<open>write\<close> leaves\<close>

lemma write_each_spec:
  assumes "write_each fails now dir suf body xs t = (r, t')" and "tree_ok t"
    and "\<forall>(n, v) \<in> set xs. plain_name n" and "plain_name suf" and "2 < length suf"
  shows "tree_ok t' \<and> (\<forall>x. x \<notin> (\<lambda>(n, v). dir @ [n @ suf]) ` set xs \<longrightarrow> map_of t' x = map_of t x) \<and>
    (r = Ok () \<longrightarrow> distinct (map fst xs) \<longrightarrow>
      (\<forall>(n, v) \<in> set xs. \<exists>data. body n v = Ok data \<and> map_of t' (dir @ [n @ suf]) = Some (File data now)))"
  using assms
proof (induction xs arbitrary: t)
  case (Cons e xs)
  obtain n v where e: "e = (n, v)" by (cases e)
  have path: "path_join dir (n @ suf) = dir @ [n @ suf]"
    using Cons.prems e by (intro path_join_plain) (auto simp: plain_name_def)
  show ?case
  proof (cases "\<exists>data t1. body n v = Ok data \<and> WriteFile fails now (dir @ [n @ suf]) data t = Some t1")
    case True
    then obtain data t1 where b: "body n v = Ok data"
      and w: "WriteFile fails now (dir @ [n @ suf]) data t = Some t1" by blast
    have run: "write_each fails now dir suf body xs t1 = (r, t')" using Cons.prems(1) e b w path by simp
    have at: "map_of t1 x = (if x = dir @ [n @ suf] then Some (File data now) else map_of t x)" for x
      using WriteFile_lookup [OF w] by blast
    have names: "\<forall>(n, v) \<in> set xs. plain_name n" using Cons.prems(3) by simp
    have IH: "tree_ok t'" "\<And>x. x \<notin> (\<lambda>(n, v). dir @ [n @ suf]) ` set xs \<Longrightarrow> map_of t' x = map_of t1 x"
      "r = Ok () \<Longrightarrow> distinct (map fst xs) \<Longrightarrow>
        \<forall>(n, v) \<in> set xs. \<exists>data. body n v = Ok data \<and> map_of t' (dir @ [n @ suf]) = Some (File data now)"
      using Cons.IH [OF run WriteFile_ok [OF w Cons.prems(2)] names Cons.prems(4,5)] by blast+
    have "map_of t' (dir @ [n @ suf]) = Some (File data now)" if "distinct (map fst (e # xs))"
    proof -
      have "dir @ [n @ suf] \<notin> (\<lambda>(n, v). dir @ [n @ suf]) ` set xs" using that e by force
      then show ?thesis using IH(2) at by simp
    qed
    then show ?thesis using IH at b e by auto
  next
    case False
    then have "t' = t \<and> r \<noteq> Ok ()"
      using Cons.prems(1) e path by (auto split: outcome.splits option.splits)
    then show ?thesis using Cons.prems(2) by simp
  qed
qed auto

text \<open>The tree of a generation, by the path from its root.\<close>

fun generation_node :: "int \<Rightarrow> manifest \<Rightarrow> (string \<times> string) list \<Rightarrow> path \<Rightarrow> node option" where
  "generation_node now m bodies [] = Some Dir"
| "generation_node now m bodies [f] =
     (if f = ListsDir then (if mf_Lists m = [] then None else Some Dir)
      else if HasSuffix f ''.yaml'' then
        (case map_of (mf_Profiles m) (TrimSuffix f ''.yaml'') of
           Some (c # _) \<Rightarrow> Some (File (fi_Text c) now) | _ \<Rightarrow> None)
      else None)"
| "generation_node now m bodies [d, f] =
     (if d = ListsDir \<and> HasSuffix f ''.txt'' \<and> map_of (mf_Lists m) (TrimSuffix f ''.txt'') \<noteq> None then
        map_option (\<lambda>b. File b now) (map_of bodies (TrimSuffix f ''.txt''))
      else None)"
| "generation_node now m bodies _ = None"

definition names_plain :: "manifest \<Rightarrow> bool" where
  "names_plain m \<longleftrightarrow> distinct (map fst (mf_Profiles m)) \<and> distinct (map fst (mf_Lists m)) \<and>
     (\<forall>(n, v) \<in> set (mf_Profiles m). plain_name n) \<and> (\<forall>(n, v) \<in> set (mf_Lists m). plain_name n)"

lemma suffix_cut: "HasSuffix f s \<Longrightarrow> f = TrimSuffix f s @ s"
  by (auto simp: HasSuffix_def TrimSuffix_def CutSuffix_def suffix_def)

lemma cut_suffix [simp]: "HasSuffix (n @ s) s" "TrimSuffix (n @ s) s = n"
  by (auto simp: HasSuffix_def TrimSuffix_def CutSuffix_def suffix_def)

lemma profile_files:
  assumes "names_plain m" and spec: "\<forall>(n, v) \<in> set (mf_Profiles m).
      \<exists>data. profile_text n v = Ok data \<and> map_of t (S @ [n @ ''.yaml'']) = Some (File data now)"
    and none: "S @ [f] \<notin> (\<lambda>(n, v). S @ [n @ ''.yaml'']) ` set (mf_Profiles m) \<Longrightarrow> map_of t (S @ [f]) = None"
    and "f \<noteq> ListsDir"
  shows "map_of t (S @ [f]) = generation_node now m bodies [f]"
proof (cases "HasSuffix f ''.yaml'' \<and> map_of (mf_Profiles m) (TrimSuffix f ''.yaml'') \<noteq> None")
  case True
  then obtain v where v: "map_of (mf_Profiles m) (TrimSuffix f ''.yaml'') = Some v" by blast
  with spec obtain data where "profile_text (TrimSuffix f ''.yaml'') v = Ok data"
    and "map_of t (S @ [TrimSuffix f ''.yaml'' @ ''.yaml'']) = Some (File data now)" by (fastforce dest: map_of_SomeD)
  then show ?thesis
    using True v assms(4) suffix_cut [of f "''.yaml''"] by (auto simp: profile_text_def split: list.splits)
next
  case False
  have "S @ [f] \<notin> (\<lambda>(n, v). S @ [n @ ''.yaml'']) ` set (mf_Profiles m)"
  proof
    assume "S @ [f] \<in> (\<lambda>(n, v). S @ [n @ ''.yaml'']) ` set (mf_Profiles m)"
    then obtain n v where "(n, v) \<in> set (mf_Profiles m)" and f: "f = n @ ''.yaml''" by auto
    then have "map_of (mf_Profiles m) n \<noteq> None" using weak_map_of_SomeI by fastforce
    moreover have "HasSuffix f ''.yaml''" "TrimSuffix f ''.yaml'' = n" unfolding f by (rule cut_suffix)+
    ultimately show False using False by simp
  qed
  from none [OF this] show ?thesis using False assms(4) by auto
qed

lemma list_files:
  assumes "names_plain m" and spec: "\<forall>(n, v) \<in> set (mf_Lists m).
      \<exists>data. list_body bodies n v = Ok data \<and> map_of t (S @ [ListsDir, n @ ''.txt'']) = Some (File data now)"
    and none: "S @ [d, f] \<notin> (\<lambda>(n, v). S @ [ListsDir, n @ ''.txt'']) ` set (mf_Lists m) \<Longrightarrow> map_of t (S @ [d, f]) = None"
  shows "map_of t (S @ [d, f]) = generation_node now m bodies [d, f]"
proof (cases "d = ListsDir \<and> HasSuffix f ''.txt'' \<and> map_of (mf_Lists m) (TrimSuffix f ''.txt'') \<noteq> None")
  case True
  then obtain v where v: "map_of (mf_Lists m) (TrimSuffix f ''.txt'') = Some v" by blast
  with spec obtain data where "list_body bodies (TrimSuffix f ''.txt'') v = Ok data"
    and "map_of t (S @ [ListsDir, TrimSuffix f ''.txt'' @ ''.txt'']) = Some (File data now)"
    by (fastforce dest: map_of_SomeD)
  then show ?thesis
    using True v suffix_cut [of f "''.txt''"] by (auto simp: list_body_def split: option.splits)
next
  case False
  have "S @ [d, f] \<notin> (\<lambda>(n, v). S @ [ListsDir, n @ ''.txt'']) ` set (mf_Lists m)"
  proof
    assume "S @ [d, f] \<in> (\<lambda>(n, v). S @ [ListsDir, n @ ''.txt'']) ` set (mf_Lists m)"
    then obtain n v where "(n, v) \<in> set (mf_Lists m)" and f: "d = ListsDir" "f = n @ ''.txt''" by auto
    then have "map_of (mf_Lists m) n \<noteq> None" using weak_map_of_SomeI by fastforce
    moreover have "HasSuffix f ''.txt''" "TrimSuffix f ''.txt'' = n" unfolding f by (rule cut_suffix)+
    ultimately show False using False f(1) by simp
  qed
  from none [OF this] show ?thesis using False by auto
qed

lemma write_tree_spec:
  assumes "write_tree fails now S m bodies t = (r, t')" and ok: "tree_ok t" and S: "S \<noteq> []"
    and parent: "map_of t (butlast S) = Some Dir" and names: "names_plain m"
  shows "tree_ok t' \<and> (\<forall>x. \<not> under S x \<longrightarrow> map_of t' x = map_of t x) \<and>
    (r = Ok () \<longrightarrow> map_of t S = None \<longrightarrow> (\<forall>y. map_of t' (S @ y) = generation_node now m bodies y))"
proof (cases "MkdirAll fails S t")
  case None
  then show ?thesis using assms(1) ok by (auto simp: write_tree_def)
next
  case (Some t1)
  let ?P = "(\<lambda>(n, v). S @ [n @ ''.yaml'']) ` set (mf_Profiles m)"
  note at1 = MkdirAll_child [OF Some ok parent S] and ok1 = MkdirAll_ok [OF Some ok]
  obtain r2 t2 where w: "write_each fails now S ''.yaml'' profile_text (mf_Profiles m) t1 = (r2, t2)" by fastforce
  have pn: "\<forall>(n, v) \<in> set (mf_Profiles m). plain_name n" "\<forall>(n, v) \<in> set (mf_Lists m). plain_name n"
    and d: "distinct (map fst (mf_Profiles m))" "distinct (map fst (mf_Lists m))"
    using names by (simp_all add: names_plain_def)
  have suf: "plain_name ''.yaml''" "2 < length ''.yaml''" "plain_name ''.txt''" "2 < length ''.txt''"
    by (simp_all add: plain_name_def)
  note W = write_each_spec [OF w ok1 pn(1) suf(1,2)]
  have below: "map_of t (S @ y) = None" if "map_of t S = None" for y using below_none [OF ok that] by simp
  have at2: "map_of t2 x = map_of t1 x" if "x \<notin> ?P" for x using W that by blast
  have frame2: "map_of t2 x = map_of t x" if "\<not> under S x" for x
  proof -
    have "x \<notin> ?P" "x \<noteq> S" using that by auto
    then show ?thesis using at2 at1 [of x] by simp
  qed
  have "S \<notin> ?P" by auto
  then have S2: "map_of t2 S = Some Dir" using at2 at1 [of S] by simp
  have files2: "map_of t2 (S @ [f]) = generation_node now m bodies [f]" if "r2 = Ok ()" "f \<noteq> ListsDir" "map_of t S = None" for f
  proof (rule profile_files [OF names])
    show "\<forall>(n, v) \<in> set (mf_Profiles m). \<exists>data. profile_text n v = Ok data \<and>
        map_of t2 (S @ [n @ ''.yaml'']) = Some (File data now)" using W that(1) d(1) by blast
    show "map_of t2 (S @ [f]) = None" if "S @ [f] \<notin> ?P"
      using at2 [OF that] at1 [of "S @ [f]"] below \<open>map_of t S = None\<close> by simp
  qed (rule that(2))
  have deep2: "map_of t2 (S @ d # f # y) = None" if "map_of t S = None" for d f y
  proof -
    have "S @ d # f # y \<notin> ?P" by auto
    then show ?thesis using at2 at1 [of "S @ d # f # y"] below [OF that] by simp
  qed
  have lists2: "map_of t2 (S @ [ListsDir]) = None" if "map_of t S = None"
  proof -
    have "S @ [ListsDir] \<notin> ?P" by auto
    then show ?thesis using at2 at1 [of "S @ [ListsDir]"] below [OF that] by simp
  qed
  show ?thesis
  proof (cases "r2 = Ok () \<and> mf_Lists m \<noteq> []")
    case False
    have r: "r = r2" "t' = t2"
      using assms(1) Some w False by (auto simp: write_tree_def split: outcome.splits if_splits)
    have "map_of t2 (S @ y) = generation_node now m bodies y" if "r2 = Ok ()" "map_of t S = None" for y
    proof (cases "(now, m, bodies, y)" rule: generation_node.cases)
      case (2 now' m' bodies' f)
      then show ?thesis using files2 [OF that(1) _ that(2)] lists2 False that by (cases "f = ListsDir") auto
    qed (use S2 deep2 [OF that(2)] False that in auto)
    then show ?thesis using r W frame2 by simp
  next
    case True
    show ?thesis
    proof (cases "MkdirAll fails (S @ [ListsDir]) t2")
      case None
      then have "r = Err WriteFailed" "t' = t2" using assms(1) Some w True by (auto simp: write_tree_def)
      then show ?thesis using W frame2 by simp
    next
      case (Some t3)
      note ok2 = W [THEN conjunct1]
      have at3: "map_of t3 x = (if x = S @ [ListsDir] then Some Dir else map_of t2 x)" for x
        by (rule MkdirAll_child [OF Some ok2]) (simp_all add: S2)
      let ?L = "(\<lambda>(n, v). (S @ [ListsDir]) @ [n @ ''.txt'']) ` set (mf_Lists m)"
      have run: "write_each fails now (S @ [ListsDir]) ''.txt'' (list_body bodies) (mf_Lists m) t3 = (r, t')"
        using assms(1) \<open>MkdirAll fails S t = Some t1\<close> w True Some by (simp add: write_tree_def)
      note V = write_each_spec [OF run MkdirAll_ok [OF Some ok2] pn(2) suf(3,4)]
      have at4: "map_of t' x = map_of t3 x" if "x \<notin> ?L" for x using V that by blast
      have "map_of t' x = map_of t x" if "\<not> under S x" for x
      proof -
        have "x \<notin> ?L" "x \<noteq> S @ [ListsDir]" using that by auto
        then show ?thesis using at4 at3 [of x] frame2 [OF that] by simp
      qed
      moreover have "map_of t' (S @ y) = generation_node now m bodies y" if r: "r = Ok ()" and none: "map_of t S = None" for y
      proof (cases "(now, m, bodies, y)" rule: generation_node.cases)
        case 1
        have "S \<notin> ?L" by auto
        then show ?thesis using 1 at4 at3 [of S] S2 by simp
      next
        case (2 now' m' bodies' f)
        have "S @ [f] \<notin> ?L" by auto
        then show ?thesis using 2 at4 at3 [of "S @ [f]"] files2 [OF _ _ none] True by (cases "f = ListsDir") auto
      next
        case (3 now' m' bodies' d f)
        have "map_of t' (S @ [d, f]) = generation_node now m bodies [d, f]"
        proof (rule list_files [OF names])
          show "\<forall>(n, v) \<in> set (mf_Lists m). \<exists>data. list_body bodies n v = Ok data \<and>
              map_of t' (S @ [ListsDir, n @ ''.txt'']) = Some (File data now)" using V r d(2) by simp
          show "map_of t' (S @ [d, f]) = None"
            if "S @ [d, f] \<notin> (\<lambda>(n, v). S @ [ListsDir, n @ ''.txt'']) ` set (mf_Lists m)"
            using at4 [of "S @ [d, f]"] at3 [of "S @ [d, f]"] deep2 [OF none, of d f "[]"] that by simp
        qed
        moreover have "y = [d, f]" using 3 by simp
        ultimately show ?thesis by (simp only:)
      next
        case (4 now' m' bodies' d f g y')
        have "S @ d # f # g # y' \<notin> ?L" by auto
        then show ?thesis using 4 at4 at3 [of "S @ d # f # g # y'"] deep2 [OF none] by simp
      qed
      ultimately show ?thesis using V by blast
    qed
  qed
qed

section \<open>The renames of \<open>Apply\<close>\<close>

abbreviation next_dir :: "path \<Rightarrow> path" where "next_dir dir \<equiv> dir @ [''.next'']"
abbreviation prev_dir :: "path \<Rightarrow> path" where "prev_dir dir \<equiv> dir @ [''.prev'']"
abbreviation live_dir :: "path \<Rightarrow> path" where "live_dir dir \<equiv> dir @ [treeDir]"

lemma Rename_subtree:
  assumes "Rename fails p q t = Ok t'" and "tree_ok t" and "p \<noteq> q"
  shows "tree_ok t'" and "subtree q t' = subtree p t" and "map_of t' p = None"
    and "apart r p \<Longrightarrow> apart r q \<Longrightarrow> subtree r t' = subtree r t"
proof -
  show "tree_ok t'" by (rule Rename_ok [OF assms])
  show "subtree q t' = subtree p t" using Rename_lookup(1) [OF assms] by (simp add: subtree_def)
  show "map_of t' p = None" using Rename_lookup(2) [OF assms] by simp
  show "subtree r t' = subtree r t" if "apart r p" "apart r q"
    using Rename_lookup(3) [OF assms] apart_under [OF that(1)] apart_under [OF that(2)]
    by (simp add: subtree_def)
qed

lemma RemoveAll_subtree: "apart r p \<Longrightarrow> subtree r (RemoveAll fails p t) = subtree r t"
  using apart_under by (simp add: subtree_def)

lemma RemoveAll_gone: "\<not> fails (RemoveCall p) \<Longrightarrow> map_of (RemoveAll fails p t) p = None"
  by simp

lemma subtree_root: "map_of t p = subtree p t []"
  by (simp add: subtree_def)

text \<open>A rename into a free place of an existing directory is refused only by the system.\<close>

lemma Rename_free:
  assumes "\<not> fails (RenameCall p q)" and "map_of t p \<noteq> None" and "map_of t q = None"
    and "map_of t (butlast q) = Some Dir" and "apart p q"
  shows "\<exists>t'. Rename fails p q t = Ok t'"
  using assms by (auto simp: Rename_def apart_def)

text \<open>A free name stays free when nothing is moved there.\<close>

lemma gone_subtree: "tree_ok t \<Longrightarrow> map_of t p = None \<Longrightarrow> subtree p t = (\<lambda>_. None)"
  using below_none by (auto simp: subtree_def fun_eq_iff)

text \<open>The live tree after a failed activation is the one that was parked.\<close>

lemma activate_Err:
  assumes "activate E F dir lived t s = (Err e, t', s')" and "tree_ok t" and "map_of t dir = Some Dir"
    and "\<not> F 11 (RemoveCall (live_dir dir))" and "\<not> F 12 (RenameCall (prev_dir dir) (live_dir dir))"
    and "lived \<longrightarrow> map_of t (prev_dir dir) \<noteq> None"
  shows "subtree (live_dir dir) t' = (if lived then subtree (prev_dir dir) t else (\<lambda>_. None)) \<and>
    (so_current s' = so_current s \<or> LoadDir (at_step E F 13) (live_dir dir) t' = Ok (so_current s'))"
proof -
  let ?t = "RemoveAll (F 11) (live_dir dir) t"
  have ap: "apart (prev_dir dir) (live_dir dir)" by simp
  have ok: "tree_ok ?t" using assms(2) by (rule RemoveAll_ok) simp
  have gone: "map_of ?t (live_dir dir) = None" using RemoveAll_gone [of "F 11"] assms(4) .
  have prev: "subtree (prev_dir dir) ?t = subtree (prev_dir dir) t" by (rule RemoveAll_subtree [OF ap])
  obtain l where l: "ReloadFrom (at_step E F 10) (live_dir dir) t s = Err l"
    using assms(1) by (auto simp: activate_def Let_def split: outcome.splits)
  show ?thesis
  proof (cases lived)
    case False
    then have r: "t' = ?t" "s' = s" using assms(1) l by (auto simp: activate_def)
    then show ?thesis using False gone_subtree [OF ok gone] by simp
  next
    case True
    have "map_of ?t (prev_dir dir) \<noteq> None" using True assms(6) prev by (simp add: subtree_root)
    moreover have "\<not> under (live_dir dir) dir" by (auto simp: under_def dest: prefix_length_le)
    then have "map_of ?t (butlast (live_dir dir)) = Some Dir" using assms(3) by simp
    ultimately obtain t2 where t2: "Rename (F 12) (prev_dir dir) (live_dir dir) ?t = Ok t2"
      using Rename_free [of "F 12", OF assms(5) _ gone _ ap] by blast
    have live: "subtree (live_dir dir) t2 = subtree (prev_dir dir) t"
      using Rename_subtree(2) [OF t2 ok] prev by simp
    have "t' = t2 \<and> (s' = s \<or> ReloadFrom (at_step E F 13) (live_dir dir) t2 s = Ok s')"
      using assms(1) l True t2 by (auto simp: activate_def split: outcome.splits)
    then show ?thesis using live True by (auto simp: ReloadFrom_def obind_Ok swap_def)
  qed
qed

lemma promote_Err:
  assumes "promote E F dir lived t s = (Err e, t', s')" and "tree_ok t" and "map_of t dir = Some Dir"
    and "\<not> F 8 (RenameCall (prev_dir dir) (live_dir dir))" and "\<not> F 11 (RemoveCall (live_dir dir))"
    and "\<not> F 12 (RenameCall (prev_dir dir) (live_dir dir))"
    and "lived \<longrightarrow> map_of t (prev_dir dir) \<noteq> None" and "map_of t (live_dir dir) = None"
  shows "subtree (live_dir dir) t' = (if lived then subtree (prev_dir dir) t else (\<lambda>_. None)) \<and>
    (so_current s' = so_current s \<or> LoadDir (at_step E F 13) (live_dir dir) t' = Ok (so_current s'))"
proof (cases "\<exists>t1. Rename (F 7) (next_dir dir) (live_dir dir) t = Ok t1")
  case True
  then obtain t1 where t1: "Rename (F 7) (next_dir dir) (live_dir dir) t = Ok t1" by blast
  have ne: "next_dir dir \<noteq> live_dir dir" by simp
  note R = Rename_subtree [OF t1 assms(2) ne]
  have prev: "subtree (prev_dir dir) t1 = subtree (prev_dir dir) t" by (rule R(4)) simp_all
  have "\<not> under (next_dir dir) dir" "\<not> under (live_dir dir) dir" by (auto simp: under_def dest: prefix_length_le)
  then have dir1: "map_of t1 dir = Some Dir" using Rename_lookup(3) [OF t1 assms(2) ne] assms(3) by simp
  have act: "activate E F dir lived t1 s = (Err e, t', s')" using assms(1) t1 by (simp add: promote_def)
  show ?thesis
    using activate_Err [OF act R(1) dir1 assms(5,6)] prev assms(7) by (simp add: subtree_root)
next
  case False
  have ap: "apart (live_dir dir) (next_dir dir)" "apart (prev_dir dir) (live_dir dir)" by simp_all
  show ?thesis
  proof (cases lived)
    case True
    then have "map_of t (butlast (live_dir dir)) = Some Dir" "map_of t (prev_dir dir) \<noteq> None"
      using assms(3,7) by simp_all
    then obtain t2 where t2: "Rename (F 8) (prev_dir dir) (live_dir dir) t = Ok t2"
      using Rename_free [of "F 8", OF assms(4) _ assms(8) _ ap(2)] by blast
    have "t' = RemoveAll (F 9) (next_dir dir) t2 \<and> s' = s"
      using assms(1) False True t2 by (auto simp: promote_def Let_def split: outcome.splits)
    then show ?thesis
      using True Rename_subtree(2) [OF t2 assms(2)] RemoveAll_subtree [OF ap(1)] by simp
  next
    case no: False
    then have "t' = RemoveAll (F 9) (next_dir dir) t \<and> s' = s"
      using assms(1) False by (auto simp: promote_def Let_def split: outcome.splits)
    then show ?thesis
      using no RemoveAll_subtree [OF ap(1)] gone_subtree [OF assms(2)] assms(8) by simp
  qed
qed

text \<open>Parking leaves the live tree where it was, or moves it as a whole.\<close>

lemma park_cases:
  assumes "tree_ok t" and "map_of t dir = Some Dir"
    and t1: "t1 = RemoveAll (F 4) (prev_dir dir) t"
  shows "tree_ok t1" and "map_of t1 dir = Some Dir"
    and "subtree (live_dir dir) t1 = subtree (live_dir dir) t"
    and "subtree (next_dir dir) t1 = subtree (next_dir dir) t"
  using assms RemoveAll_subtree [of "live_dir dir" "prev_dir dir"] RemoveAll_subtree [of "next_dir dir" "prev_dir dir"]
  by (auto intro!: RemoveAll_ok) (auto simp: RemoveAll_lookup under_def dest: prefix_length_le)

lemma park_renamed:
  assumes "Rename (F 5) (live_dir dir) (prev_dir dir) t = Ok t2" and "tree_ok t" and "map_of t dir = Some Dir"
  shows "tree_ok t2" and "map_of t2 dir = Some Dir" and "subtree (prev_dir dir) t2 = subtree (live_dir dir) t"
    and "map_of t2 (live_dir dir) = None" and "map_of t2 (prev_dir dir) \<noteq> None"
    and "subtree (next_dir dir) t2 = subtree (next_dir dir) t"
proof -
  have ne: "live_dir dir \<noteq> prev_dir dir" by simp
  note R = Rename_subtree [OF assms(1,2) ne]
  have "\<not> under (prev_dir dir) dir" "\<not> under (live_dir dir) dir" by (auto simp: under_def dest: prefix_length_le)
  then show "map_of t2 dir = Some Dir" using Rename_lookup(3) [OF assms(1,2) ne] assms(3) by simp
  show "tree_ok t2" "subtree (prev_dir dir) t2 = subtree (live_dir dir) t" "map_of t2 (live_dir dir) = None"
    using R(1-3) by simp_all
  have "map_of t (live_dir dir) \<noteq> None" using Rename_cases [OF assms(1,2) ne] by blast
  then show "map_of t2 (prev_dir dir) \<noteq> None" using R(2) by (simp add: subtree_root)
  show "subtree (next_dir dir) t2 = subtree (next_dir dir) t" by (rule R(4)) simp_all
qed

lemma Rename_NotExist:
  assumes "Rename fails (live_dir dir) (prev_dir dir) t = Err NotExist" and "map_of t dir = Some Dir"
  shows "map_of t (live_dir dir) = None"
  using assms by (auto simp: Rename_def split: if_splits option.splits node.splits)

lemma park_Err:
  assumes "park E F dir t s = (Err e, t', s')" and "tree_ok t" and "map_of t dir = Some Dir"
    and undo: "\<not> F 8 (RenameCall (prev_dir dir) (live_dir dir))" "\<not> F 11 (RemoveCall (live_dir dir))"
      "\<not> F 12 (RenameCall (prev_dir dir) (live_dir dir))"
  shows "subtree (live_dir dir) t' = subtree (live_dir dir) t \<and>
    (so_current s' = so_current s \<or> LoadDir (at_step E F 13) (live_dir dir) t' = Ok (so_current s'))"
proof -
  let ?t = "RemoveAll (F 4) (prev_dir dir) t"
  note K = park_cases [where F = F, OF assms(2,3) refl]
  show ?thesis
  proof (cases "Rename (F 5) (live_dir dir) (prev_dir dir) ?t")
    case (Ok t2)
    note P = park_renamed [where F = F, OF Ok K(1,2)]
    have "promote E F dir True t2 s = (Err e, t', s')" using assms(1) Ok by (simp add: park_def Let_def)
    from promote_Err [OF this P(1,2) undo _ P(4)] P(3,5) K(3) show ?thesis by simp
  next
    case (Err x)
    show ?thesis
    proof (cases x)
      case NotExist
      then have none: "map_of ?t (live_dir dir) = None" using Rename_NotExist Err K(2) by blast
      have "promote E F dir False ?t s = (Err e, t', s')" using assms(1) Err NotExist by (simp add: park_def Let_def)
      from promote_Err [OF this K(1,2) undo _ none] gone_subtree [OF K(1) none] K(3) show ?thesis by simp
    next
      case RenameFailed
      then have "t' = RemoveAll (F 6) (next_dir dir) ?t \<and> s' = s"
        using assms(1) Err by (simp add: park_def Let_def)
      then show ?thesis using K(3) RemoveAll_subtree [of "live_dir dir" "next_dir dir" "F 6" ?t] by simp
    qed
  next
    case Panic
    then show ?thesis by (simp add: Rename_def split: if_splits option.splits node.splits)
  qed
qed

text \<open>The directories of \<open>Apply\<close> up to the renames.\<close>

lemma Apply_stages:
  assumes "MkdirAll (F 0) dir t = Some t1" and "tree_ok t" and "names_plain m"
    and w: "write_tree (F 2) now (next_dir dir) m bodies (RemoveAll (F 1) (next_dir dir) t1) = (r, t2)"
  shows "tree_ok t2" and "map_of t2 dir = Some Dir"
    and "subtree (live_dir dir) t2 = subtree (live_dir dir) t"
    and "r = Ok () \<Longrightarrow> \<not> F 1 (RemoveCall (next_dir dir)) \<Longrightarrow>
      subtree (next_dir dir) t2 = generation_node now m bodies"
proof -
  let ?t = "RemoveAll (F 1) (next_dir dir) t1"
  note M = MkdirAll_props [OF assms(1,2)]
  have nu: "\<not> under (next_dir dir) dir" by (auto simp: under_def dest: prefix_length_le)
  have ok: "tree_ok ?t" by (rule RemoveAll_ok [OF M(1)]) simp
  have dir: "map_of ?t dir = Some Dir" using M(2) nu by simp
  have parent: "map_of ?t (butlast (next_dir dir)) = Some Dir" using dir by simp
  have S: "next_dir dir \<noteq> []" by simp
  note W = write_tree_spec [OF w ok S parent assms(3)]
  show "tree_ok t2" "map_of t2 dir = Some Dir" using W dir nu by auto
  have "apart (live_dir dir) (next_dir dir)" by simp
  then have off: "\<not> under (next_dir dir) (live_dir dir @ y)" for y
    by (rule apart_under) (rule under_append)
  have above: "\<not> under (live_dir dir @ y) dir" for y by (auto simp: under_def dest: prefix_length_le)
  have "map_of t2 (live_dir dir @ y) = map_of t (live_dir dir @ y)" for y
  proof -
    have "map_of t2 (live_dir dir @ y) = map_of ?t (live_dir dir @ y)" using W off by blast
    also have "\<dots> = map_of t1 (live_dir dir @ y)" by (rule RemoveAll_other [OF off])
    also have "\<dots> = map_of t (live_dir dir @ y)" by (rule M(4) [OF above])
    finally show ?thesis .
  qed
  then show "subtree (live_dir dir) t2 = subtree (live_dir dir) t" by (simp add: subtree_def)
  show "subtree (next_dir dir) t2 = generation_node now m bodies"
    if "r = Ok ()" "\<not> F 1 (RemoveCall (next_dir dir))"
    using W that RemoveAll_gone [of "F 1" "next_dir dir" t1] by (simp add: subtree_def fun_eq_iff)
qed

lemma Apply_Err:
  assumes "Apply E F now dir m bodies t s = (Err e, t', s')" and "tree_ok t" and "names_plain m"
    and undo: "\<not> F 8 (RenameCall (prev_dir dir) (live_dir dir))" "\<not> F 11 (RemoveCall (live_dir dir))"
      "\<not> F 12 (RenameCall (prev_dir dir) (live_dir dir))"
  shows "subtree (live_dir dir) t' = subtree (live_dir dir) t \<and>
    (so_current s' = so_current s \<or> LoadDir (at_step E F 13) (live_dir dir) t' = Ok (so_current s'))"
proof (cases "MkdirAll (F 0) dir t")
  case None
  then show ?thesis using assms(1) by (simp add: Apply_def)
next
  case (Some t1)
  obtain r t2 where w: "write_tree (F 2) now (next_dir dir) m bodies (RemoveAll (F 1) (next_dir dir) t1) = (r, t2)"
    by fastforce
  note A = Apply_stages [where F = F, OF Some assms(2,3) w]
  show ?thesis
  proof (cases r)
    case (Ok u)
    then have "park E F dir t2 s = (Err e, t', s')" using assms(1) Some w by (simp add: Apply_def Let_def)
    from park_Err [OF this A(1,2) undo] A(3) show ?thesis by simp
  next
    case (Err x)
    then have "t' = RemoveAll (F 3) (next_dir dir) t2 \<and> s' = s"
      using assms(1) Some w by (simp add: Apply_def Let_def)
    then show ?thesis using A(3) RemoveAll_subtree [of "live_dir dir" "next_dir dir" "F 3" t2] by simp
  next
    case Panic
    then show ?thesis using assms(1) Some w by (simp add: Apply_def Let_def)
  qed
qed

section \<open>A generation that was applied\<close>

lemma activate_Ok:
  assumes "activate E F dir lived t s = (Ok u, t', s')"
  shows "ReloadFrom (at_step E F 10) (live_dir dir) t s = Ok s' \<and> t' = RemoveAll (F 14) (prev_dir dir) t"
  using assms by (auto simp: activate_def Let_def split: outcome.splits if_splits)

lemma promote_Ok:
  assumes "promote E F dir lived t s = (Ok u, t', s')" and "tree_ok t"
  shows "\<exists>t1. tree_ok t1 \<and> subtree (live_dir dir) t1 = subtree (next_dir dir) t \<and>
    ReloadFrom (at_step E F 10) (live_dir dir) t1 s = Ok s' \<and> t' = RemoveAll (F 14) (prev_dir dir) t1"
proof -
  obtain t1 where t1: "Rename (F 7) (next_dir dir) (live_dir dir) t = Ok t1"
    and a: "activate E F dir lived t1 s = (Ok u, t', s')"
    using assms(1) by (auto simp: promote_def Let_def split: outcome.splits)
  have ne: "next_dir dir \<noteq> live_dir dir" by simp
  from Rename_subtree(1,2) [OF t1 assms(2) ne] activate_Ok [OF a] show ?thesis by blast
qed

lemma park_Ok:
  assumes "park E F dir t s = (Ok u, t', s')" and "tree_ok t" and "map_of t dir = Some Dir"
  shows "\<exists>t1. tree_ok t1 \<and> subtree (live_dir dir) t1 = subtree (next_dir dir) t \<and>
    ReloadFrom (at_step E F 10) (live_dir dir) t1 s = Ok s' \<and> t' = RemoveAll (F 14) (prev_dir dir) t1"
proof -
  let ?t = "RemoveAll (F 4) (prev_dir dir) t"
  note K = park_cases [where F = F, OF assms(2,3) refl]
  show ?thesis
  proof (cases "Rename (F 5) (live_dir dir) (prev_dir dir) ?t")
    case (Ok t2)
    note P = park_renamed [where F = F, OF Ok K(1,2)]
    have "promote E F dir True t2 s = (Ok u, t', s')" using assms(1) Ok by (simp add: park_def Let_def)
    from promote_Ok [OF this P(1)] P(6) K(4) show ?thesis by simp
  next
    case (Err x)
    have "promote E F dir False ?t s = (Ok u, t', s')"
      using assms(1) Err by (cases x) (simp_all add: park_def Let_def)
    from promote_Ok [OF this K(1)] K(4) show ?thesis by simp
  next
    case Panic
    then show ?thesis by (simp add: Rename_def split: if_splits option.splits node.splits)
  qed
qed

lemma Apply_Ok:
  assumes "Apply E F now dir m bodies t s = (Ok u, t', s')" and "tree_ok t" and "names_plain m"
    and "\<not> F 1 (RemoveCall (next_dir dir))"
  shows "\<exists>t1. tree_ok t1 \<and> subtree (live_dir dir) t1 = generation_node now m bodies \<and>
    ReloadFrom (at_step E F 10) (live_dir dir) t1 s = Ok s' \<and> t' = RemoveAll (F 14) (prev_dir dir) t1"
proof (cases "MkdirAll (F 0) dir t")
  case None
  then show ?thesis using assms(1) by (simp add: Apply_def)
next
  case (Some t1)
  obtain r t2 where w: "write_tree (F 2) now (next_dir dir) m bodies (RemoveAll (F 1) (next_dir dir) t1) = (r, t2)"
    by fastforce
  note A = Apply_stages [where F = F, OF Some assms(2,3) w]
  have r: "r = Ok ()" and p: "park E F dir t2 s = (Ok u, t', s')"
    using assms(1) Some w by (auto simp: Apply_def Let_def split: outcome.splits)
  from park_Ok [OF p A(1,2)] A(4) [OF r assms(4)] show ?thesis by simp
qed

section \<open>What a loaded generation serves\<close>

lemma entries_of_iff:
  assumes "tree_ok t"
  shows "(f, n) \<in> set (entries_of d t) \<longleftrightarrow> map_of t (d @ [f]) = Some n"
proof -
  have "map_of t x = Some n \<longleftrightarrow> (x, n) \<in> set t" for x using assms by (simp add: tree_ok_def)
  moreover have "(f, n) \<in> set (entries_of d t) \<longleftrightarrow> (\<exists>x. (x, n) \<in> set t \<and> x \<noteq> [] \<and> butlast x = d \<and> last x = f)"
    by (force simp: entries_of_def)
  moreover have "x \<noteq> [] \<and> butlast x = d \<and> last x = f \<longleftrightarrow> x = d @ [f]" for x
    by (metis append_butlast_last_id butlast_snoc last_snoc snoc_eq_iff_butlast)
  ultimately show ?thesis by auto
qed

text \<open>Names the loader takes as they are.\<close>

definition served_name :: "go_lib \<Rightarrow> string \<Rightarrow> bool" where
  "served_name L n \<longleftrightarrow> n \<noteq> [] \<and> \<not> HasPrefix n ''.'' \<and> \<not> HasPrefix n ''_'' \<and> ToLower L n = n"

lemma profileName_served:
  assumes "served_name L n"
  shows "profileName L (n @ ''.yaml'', File c i) = Some n"
proof -
  have "CutSuffix (n @ ''.yaml'') ''.yaml'' = (n, True)" by (simp add: CutSuffix_def suffix_def)
  then show ?thesis
    using assms by (cases n) (simp_all add: profileName_def served_name_def HasPrefix_def)
qed

text \<open>The profiles of a manifest as the inspector should serve them: under the names of the manifest,
  parsed from its texts, their static clauses fed from its lists.\<close>

definition serves :: "go_lib \<Rightarrow> (string \<Rightarrow> fileProfile option) \<Rightarrow> manifest \<Rightarrow> (string \<times> string) list \<Rightarrow> profiles \<Rightarrow> bool" where
  "serves L yaml m bodies ps \<longleftrightarrow>
     distinct (map fst ps) \<and> fst ` set ps = fst ` set (mf_Profiles m) \<and>
     (\<exists>read. (\<forall>n b. map_of (mf_Lists m) n \<noteq> None \<longrightarrow> read n = Some b \<longrightarrow> map_of bodies n = Some b) \<and>
       (\<forall>n p'. map_of ps n = Some p' \<longrightarrow>
          (\<exists>c cs p. map_of (mf_Profiles m) n = Some (c # cs) \<and> ParseProfile L yaml n (fi_Text c) = Ok p \<and>
             with_sets read p p')))"

lemma generation_file:
  assumes "generation_node now m bodies [f] = Some (File c i)"
  shows "\<exists>n x xs. f = n @ ''.yaml'' \<and> map_of (mf_Profiles m) n = Some (x # xs) \<and> c = fi_Text x"
proof -
  have "HasSuffix f ''.yaml''" using assms by (auto split: if_splits)
  from suffix_cut [OF this] assms show ?thesis
    by (intro exI [of _ "TrimSuffix f ''.yaml''"]) (auto split: if_splits option.splits list.splits)
qed

lemma generation_list:
  assumes "map_of t (live_dir dir @ [ListsDir, n @ ''.txt'']) = Some (File b i)"
    and "subtree (live_dir dir) t = generation_node now m bodies"
  shows "map_of bodies n = Some b"
proof -
  have "generation_node now m bodies [ListsDir, n @ ''.txt''] = Some (File b i)"
    using assms unfolding subtree_def by metis
  then show ?thesis using cut_suffix(2) [of n "''.txt''"] by (auto split: if_splits)
qed

definition names_served :: "go_lib \<Rightarrow> manifest \<Rightarrow> bool" where
  "names_served L m \<longleftrightarrow> (\<forall>(n, v) \<in> set (mf_Profiles m). served_name L n \<and> v \<noteq> [])"

lemma served_entry:
  assumes "tree_ok t" and "subtree (live_dir dir) t = generation_node now m bodies" and "names_served L m"
    and "ReadDir fails (live_dir dir) t = Some es"
  shows "(\<exists>k. (f, k) \<in> set es \<and> profileName L (f, k) = Some n) \<longleftrightarrow>
    (\<exists>x xs. f = n @ ''.yaml'' \<and> map_of (mf_Profiles m) n = Some (x # xs) \<and>
       map_of t (live_dir dir @ [f]) = Some (File (fi_Text x) now))"
proof -
  have "set es = set (entries_of (live_dir dir) t)" using assms(4) by (auto simp: ReadDir_def split: if_splits)
  then have es: "(f, k) \<in> set es \<longleftrightarrow> generation_node now m bodies [f] = Some k" for k
    using entries_of_iff [OF assms(1), of f k "live_dir dir"] assms(2) unfolding subtree_def by (metis)
  have node: "map_of t (live_dir dir @ [f]) = generation_node now m bodies [f]"
    using assms(2) unfolding subtree_def by metis
  have served: "profileName L (n' @ ''.yaml'', File c i) = Some n'" if ex: "map_of (mf_Profiles m) n' \<noteq> None" for n' c i
  proof (rule profileName_served)
    obtain v where "map_of (mf_Profiles m) n' = Some v" using ex by blast
    then have "(n', v) \<in> set (mf_Profiles m)" by (rule map_of_SomeD)
    then show "served_name L n'" using assms(3) by (auto simp: names_served_def)
  qed
  show ?thesis
  proof
    assume "\<exists>k. (f, k) \<in> set es \<and> profileName L (f, k) = Some n"
    then obtain k where k: "generation_node now m bodies [f] = Some k" and p: "profileName L (f, k) = Some n"
      using es by blast
    then obtain c i where f: "k = File c i" by (cases k) (simp_all add: profileName_def)
    then obtain n' x xs where g: "f = n' @ ''.yaml''" "map_of (mf_Profiles m) n' = Some (x # xs)" "c = fi_Text x"
      using generation_file k by blast
    then have "n' = n" using served [of n' c i] p f by simp
    moreover have "i = now" using k f g(1) by (auto split: if_splits option.splits list.splits)
    ultimately show "\<exists>x xs. f = n @ ''.yaml'' \<and> map_of (mf_Profiles m) n = Some (x # xs) \<and>
        map_of t (live_dir dir @ [f]) = Some (File (fi_Text x) now)" using g k f node by auto
  next
    assume "\<exists>x xs. f = n @ ''.yaml'' \<and> map_of (mf_Profiles m) n = Some (x # xs) \<and>
        map_of t (live_dir dir @ [f]) = Some (File (fi_Text x) now)"
    then show "\<exists>k. (f, k) \<in> set es \<and> profileName L (f, k) = Some n" using es node served by auto
  qed
qed

lemma profile_node:
  assumes "subtree (live_dir dir) t = generation_node now m bodies" and "map_of (mf_Profiles m) n = Some (x # xs)"
  shows "map_of t (live_dir dir @ [n @ ''.yaml'']) = Some (File (fi_Text x) now)"
proof -
  have "n @ ''.yaml'' \<noteq> ListsDir"
  proof
    assume "n @ ''.yaml'' = ListsDir"
    then have "HasSuffix ListsDir ''.yaml''" using cut_suffix(1) by metis
    then show False by (simp add: HasSuffix_def suffix_def)
  qed
  then have "generation_node now m bodies [n @ ''.yaml''] = Some (File (fi_Text x) now)"
    using assms(2) cut_suffix [of n "''.yaml''"] by simp
  then show ?thesis using assms(1) unfolding subtree_def by metis
qed

lemma LoadDir_generation:
  assumes "tree_ok t" and live: "subtree (live_dir dir) t = generation_node now m bodies"
    and "names_served (fx_lib E) m" and "names_plain m" and "LoadDir E (live_dir dir) t = Ok ps"
  shows "serves (fx_lib E) (fx_yaml E) m bodies ps"
proof -
  let ?read = "\<lambda>ds. ReadFile (fx_fails E) (list_file (live_dir dir) ds) t"
  obtain es where es: "ReadDir (fx_fails E) (live_dir dir) t = Some es"
    and d: "distinct (map fst ps)" and names: "fst ` set ps = names_of E es"
    and src: "\<And>n p'. map_of ps n = Some p' \<Longrightarrow>
      \<exists>p. source_of E (live_dir dir) t es n p \<and> with_sets ?read p p'"
    using LoadDir_spec [OF assms(5)] by blast
  note entry = served_entry [OF assms(1) live assms(3) es]
  have "n \<in> names_of E es \<longleftrightarrow> n \<in> fst ` set (mf_Profiles m)" for n
  proof
    assume "n \<in> names_of E es"
    then obtain f k where "(f, k) \<in> set es" "profileName (fx_lib E) (f, k) = Some n" by (auto simp: names_of_def)
    then have "map_of (mf_Profiles m) n \<noteq> None" using entry [of f n] by auto
    then show "n \<in> fst ` set (mf_Profiles m)" by (simp add: map_of_eq_None_iff)
  next
    assume "n \<in> fst ` set (mf_Profiles m)"
    then obtain v where v: "map_of (mf_Profiles m) n = Some v" by (metis map_of_eq_None_iff not_None_eq)
    then have "v \<noteq> []" using assms(3) map_of_SomeD [OF v] by (auto simp: names_served_def)
    then obtain x xs where "map_of (mf_Profiles m) n = Some (x # xs)" using v by (cases v) auto
    then have "\<exists>k. (n @ ''.yaml'', k) \<in> set es \<and> profileName (fx_lib E) (n @ ''.yaml'', k) = Some n"
      using entry [of "n @ ''.yaml''" n] profile_node [OF live] by blast
    then show "n \<in> names_of E es" by (auto simp: names_of_def)
  qed
  then have keys: "fst ` set ps = fst ` set (mf_Profiles m)" using names by blast
  have feed: "map_of bodies n = Some b" if n: "map_of (mf_Lists m) n \<noteq> None" and b: "?read n = Some b" for n b
  proof -
    obtain v where "(n, v) \<in> set (mf_Lists m)" using n by (auto dest: map_of_SomeD)
    then have "plain_name (n @ ''.txt'')" using assms(4) by (auto simp: names_plain_def plain_name_def)
    then have "list_file (live_dir dir) n = live_dir dir @ [ListsDir, n @ ''.txt'']"
      by (simp add: list_file_def path_join_plain)
    then obtain i where "map_of t (live_dir dir @ [ListsDir, n @ ''.txt'']) = Some (File b i)"
      using b by (auto simp: ReadFile_def split: if_splits option.splits node.splits)
    then show ?thesis using live by (rule generation_list)
  qed
  have "\<exists>c cs p. map_of (mf_Profiles m) n = Some (c # cs) \<and>
      ParseProfile (fx_lib E) (fx_yaml E) n (fi_Text c) = Ok p \<and> with_sets ?read p p'"
    if n: "map_of ps n = Some p'" for n p'
  proof -
    obtain p f k raw where w: "with_sets ?read p p'" and k: "(f, k) \<in> set es" "profileName (fx_lib E) (f, k) = Some n"
      and raw: "ReadFile (fx_fails E) (live_dir dir @ [f]) t = Some raw"
      and p: "ParseProfile (fx_lib E) (fx_yaml E) n raw = Ok p"
      using src [OF n] by (auto simp: source_of_def)
    obtain x xs where x: "map_of (mf_Profiles m) n = Some (x # xs)"
      and "map_of t (live_dir dir @ [f]) = Some (File (fi_Text x) now)" using entry [of f n] k by blast
    then have "raw = fi_Text x" using raw by (simp add: ReadFile_def split: if_splits)
    then show ?thesis using x p w by blast
  qed
  then show ?thesis unfolding serves_def using d keys feed by (intro conjI exI [of _ ?read]) blast+
qed

section \<open>Manifests that parse\<close>

definition json_maps :: "desired_env \<Rightarrow> bool" where
  "json_maps D \<longleftrightarrow> (\<forall>raw m. dx_json D raw = Some m \<longrightarrow>
     distinct (map fst (mf_Profiles m)) \<and> distinct (map fst (mf_Lists m)))"

lemma first_bad_None: "first_bad f xs = None \<longleftrightarrow> (\<forall>x \<in> set xs. f x = None)"
  by (induction xs) (auto split: option.splits)

lemma listNameRe_plain: "listNameRe n \<Longrightarrow> plain_name n"
  by (cases n) (auto simp: listNameRe_def plain_name_def listName_char_def list_all_iff is_alnum_def is_upper_def
      is_lower_def is_digit_def)

lemma mf_Parse_ok:
  assumes "mf_Parse D raw = Ok m" and "json_maps D"
  shows "names_plain m" and "mf_Rev m \<ge> 1"
    and "map_of (mf_Profiles m) DefaultProfile \<noteq> None"
    and "(n, v) \<in> set (mf_Profiles m) \<Longrightarrow> \<exists>text. v = [\<lparr>fi_Name = ProfileFile, fi_Text = text\<rparr>]"
    and "(n, h) \<in> set (mf_Lists m) \<Longrightarrow> listNameRe n \<and> listHashRe h"
    and "mf_ConfigHash m = HashLists (fx_lib (dx_fs D)) (mf_Profiles m) (mf_Lists m) (mf_Settings m)"
proof -
  obtain m0 where m0: "dx_json D raw = Some m0" and c: "parse_checked D m0 = Ok m"
    using assms(1) by (auto simp: mf_Parse_def split: option.splits)
  obtain st where P: "first_bad profile_bad (mf_Profiles m0) = None" and Ls: "first_bad list_bad (mf_Lists m0) = None"
    and rv: "mf_Rev m0 \<ge> 1" and def: "map_of (mf_Profiles m0) DefaultProfile \<noteq> None"
    and m: "m = m0\<lparr>mf_Settings := st,
      mf_ConfigHash := HashLists (fx_lib (dx_fs D)) (mf_Profiles m0) (mf_Lists m0) st\<rparr>"
    using c by (auto simp: parse_checked_def Let_def split: if_splits option.splits)
  have p: "plain_name n \<and> (\<exists>text. v = [\<lparr>fi_Name = ProfileFile, fi_Text = text\<rparr>])"
    if "(n, v) \<in> set (mf_Profiles m0)" for n v
  proof -
    have b: "profile_bad (n, v) = None" using P that by (simp add: first_bad_None)
    then obtain f where f: "v = [f]" "fi_Name f = ProfileFile"
      by (cases v) (auto simp: profile_bad_def split: if_splits)
    then have "f = \<lparr>fi_Name = ProfileFile, fi_Text = fi_Text f\<rparr>" by simp
    moreover have "plain_name n" using b by (auto simp: profile_bad_def plain_name_def list_ex_iff split: if_splits)
    ultimately show ?thesis using f by metis
  qed
  have l: "listNameRe n \<and> listHashRe h" if "(n, h) \<in> set (mf_Lists m0)" for n h
    using Ls that by (fastforce simp: first_bad_None list_bad_def split: if_splits)
  have "distinct (map fst (mf_Profiles m0))" "distinct (map fst (mf_Lists m0))"
    using assms(2) m0 by (auto simp: json_maps_def)
  then show "names_plain m" using p l listNameRe_plain by (auto simp: names_plain_def m)
  show "mf_Rev m \<ge> 1" "map_of (mf_Profiles m) DefaultProfile \<noteq> None" using rv def by (simp_all add: m)
  show "\<exists>text. v = [\<lparr>fi_Name = ProfileFile, fi_Text = text\<rparr>]" if "(n, v) \<in> set (mf_Profiles m)"
    using p that by (simp add: m)
  show "listNameRe n \<and> listHashRe h" if "(n, h) \<in> set (mf_Lists m)" using l that by (simp add: m)
  show "mf_ConfigHash m = HashLists (fx_lib (dx_fs D)) (mf_Profiles m) (mf_Lists m) (mf_Settings m)"
    by (simp add: m)
qed

section \<open>The tree stays in order\<close>

lemma activate_tree_ok:
  assumes "activate E F dir lived t s = (r, t', s')" and "tree_ok t"
  shows "tree_ok t'"
proof -
  have ne: "prev_dir dir \<noteq> live_dir dir" by simp
  have ok: "tree_ok (RemoveAll f (dir @ [x]) t)" for f x using assms(2) by (rule RemoveAll_ok) simp
  show ?thesis
    using assms ok Rename_ok [OF _ ok ne]
    by (auto simp: activate_def Let_def split: outcome.splits if_splits)
qed

lemma promote_tree_ok:
  assumes "promote E F dir lived t s = (r, t', s')" and "tree_ok t"
  shows "tree_ok t'"
proof (cases "\<exists>t1. Rename (F 7) (next_dir dir) (live_dir dir) t = Ok t1")
  case True
  then obtain t1 where t1: "Rename (F 7) (next_dir dir) (live_dir dir) t = Ok t1" by blast
  have ne: "next_dir dir \<noteq> live_dir dir" by simp
  have "activate E F dir lived t1 s = (r, t', s')" using assms(1) t1 by (simp add: promote_def)
  then show ?thesis using Rename_ok [OF t1 assms(2) ne] by (rule activate_tree_ok)
next
  case False
  let ?t = "if lived then (case Rename (F 8) (prev_dir dir) (live_dir dir) t of Ok t' \<Rightarrow> t' | _ \<Rightarrow> t) else t"
  have ne: "prev_dir dir \<noteq> live_dir dir" by simp
  have "tree_ok ?t" using Rename_ok [OF _ assms(2) ne] assms(2) by (auto split: outcome.split)
  moreover have "t' = RemoveAll (F 9) (next_dir dir) ?t"
    using assms(1) False by (auto simp: promote_def Let_def split: outcome.splits)
  ultimately show ?thesis by (auto intro!: RemoveAll_ok)
qed

lemma park_tree_ok:
  assumes "park E F dir t s = (r, t', s')" and "tree_ok t"
  shows "tree_ok t'"
proof -
  let ?t = "RemoveAll (F 4) (prev_dir dir) t"
  have ok: "tree_ok ?t" using assms(2) by (rule RemoveAll_ok) simp
  have ne: "live_dir dir \<noteq> prev_dir dir" by simp
  show ?thesis
  proof (cases "Rename (F 5) (live_dir dir) (prev_dir dir) ?t")
    case (Ok t2)
    then have "promote E F dir True t2 s = (r, t', s')" using assms(1) by (simp add: park_def Let_def)
    then show ?thesis using Rename_ok [OF Ok ok ne] by (rule promote_tree_ok)
  next
    case (Err x)
    then have "promote E F dir False ?t s = (r, t', s') \<or> t' = RemoveAll (F 6) (next_dir dir) ?t"
      using assms(1) by (cases x) (auto simp: park_def Let_def)
    then show ?thesis using promote_tree_ok ok RemoveAll_ok [OF ok, of "next_dir dir"] by auto
  next
    case Panic
    then show ?thesis by (simp add: Rename_def split: if_splits option.splits node.splits)
  qed
qed

lemma Apply_tree_ok:
  assumes "Apply E F now dir m bodies t s = (r, t', s')" and "tree_ok t" and "names_plain m"
  shows "tree_ok t'"
proof (cases "MkdirAll (F 0) dir t")
  case None
  then show ?thesis using assms by (simp add: Apply_def)
next
  case (Some t1)
  obtain r2 t2 where w: "write_tree (F 2) now (next_dir dir) m bodies (RemoveAll (F 1) (next_dir dir) t1) = (r2, t2)"
    by fastforce
  note A = Apply_stages(1) [where F = F, OF Some assms(2,3) w]
  have "park E F dir t2 s = (r, t', s') \<or> t' = RemoveAll (F 3) (next_dir dir) t2 \<or> t' = t2"
    using assms(1) Some w by (auto simp: Apply_def Let_def split: outcome.splits)
  then show ?thesis using park_tree_ok A RemoveAll_ok [OF A, of "next_dir dir"] by auto
qed

section \<open>Panics\<close>

lemma write_each_no_panic:
  "write_each fails now dir suf body xs t = (Panic, t') \<Longrightarrow> \<exists>(n, v) \<in> set xs. body n v = Panic"
  by (induction fails now dir suf body xs t rule: write_each.induct)
    (auto split: outcome.splits option.splits)

lemma write_tree_no_panic:
  assumes "write_tree fails now S m bodies t = (Panic, t')"
  shows "\<exists>(n, v) \<in> set (mf_Profiles m). v = []"
proof -
  have l: "list_body bodies n v \<noteq> Panic" for n v by (simp add: list_body_def split: option.split)
  have p: "profile_text n v = Panic \<longleftrightarrow> v = []" for n v by (simp add: profile_text_def split: list.split)
  obtain t1 where "MkdirAll fails S t = Some t1" using assms by (auto simp: write_tree_def split: option.splits)
  then have "(\<exists>t. write_each fails now S ''.yaml'' profile_text (mf_Profiles m) t1 = (Panic, t)) \<or>
      (\<exists>t2. write_each fails now (S @ [ListsDir]) ''.txt'' (list_body bodies) (mf_Lists m) t2 = (Panic, t'))"
    using assms by (auto simp: write_tree_def split: option.splits outcome.splits prod.splits if_splits)
  then show ?thesis
  proof (elim disjE exE)
    fix t assume "write_each fails now S ''.yaml'' profile_text (mf_Profiles m) t1 = (Panic, t)"
    from write_each_no_panic [OF this] show ?thesis by (simp add: p)
  next
    fix t2 assume "write_each fails now (S @ [ListsDir]) ''.txt'' (list_body bodies) (mf_Lists m) t2 = (Panic, t')"
    from write_each_no_panic [OF this] l show ?thesis by auto
  qed
qed

end
