(* ===== verification/Desired_Hash.thy ===== *)
theory Desired_Hash
  imports Desired_Props
begin

text \<open>
  What the hash of a generation covers: the bytes fed to SHA-256 determine the generation, when no part
  holds a NUL byte and no list is called \<open>profile.yaml\<close>; and the static lists that are fetched are the
  ones the manifest names by hash.
\<close>

section \<open>Parts that end in a NUL\<close>

definition no_nul :: "string \<Rightarrow> bool" where
  "no_nul s \<longleftrightarrow> CHR 0x00 \<notin> set s"

lemma sum_part_split:
  assumes "no_nul x" and "no_nul y" and "sum_part x @ r = sum_part y @ r'"
  shows "x = y \<and> r = r'"
proof -
  have tw: "takeWhile (\<lambda>c. c \<noteq> CHR 0x00) (z @ CHR 0x00 # s) = z" if "no_nul z" for z s
    using that by (subst takeWhile_append2) (auto simp: no_nul_def)
  have "x @ CHR 0x00 # r = y @ CHR 0x00 # r'" using assms(3) by (simp add: sum_part_def)
  then show ?thesis using tw [OF assms(1), of r] tw [OF assms(2), of r'] by simp
qed

lemma sum_parts_inj:
  assumes "concat (map sum_part xs) = concat (map sum_part ys)"
    and "\<forall>x \<in> set xs. no_nul x" and "\<forall>y \<in> set ys. no_nul y"
  shows "xs = ys"
  using assms
proof (induction xs arbitrary: ys)
  case Nil
  then show ?case by (cases ys) (simp_all add: sum_part_def)
next
  case (Cons x xs)
  show ?case
  proof (cases ys)
    case Nil
    then show ?thesis using Cons.prems(1) by (simp add: sum_part_def)
  next
    case ys: (Cons y zs)
    have "sum_part x @ concat (map sum_part xs) = sum_part y @ concat (map sum_part zs)"
      using Cons.prems(1) ys by simp
    from sum_part_split [OF _ _ this] have "x = y" "concat (map sum_part xs) = concat (map sum_part zs)"
      using Cons.prems ys by simp_all
    then show ?thesis using Cons.IH [of zs] Cons.prems ys by simp
  qed
qed

lemma triples_inj:
  assumes "concat xs = concat ys" and "\<forall>x \<in> set xs. length x = 3" and "\<forall>y \<in> set ys. length y = 3"
  shows "xs = ys"
  using assms
proof (induction xs arbitrary: ys)
  case Nil
  then show ?case by (cases ys) auto
next
  case (Cons x xs)
  then obtain y zs where ys: "ys = y # zs" by (cases ys) auto
  then have "x = y \<and> concat xs = concat zs" using Cons.prems by simp
  then show ?case using Cons.IH [of zs] Cons.prems ys by simp
qed

section \<open>The input of the hash\<close>

definition gen_input :: "manifest \<Rightarrow> string" where
  "gen_input m = hash_input (mf_Profiles m) (mf_Lists m) (mf_Settings m)"

definition text_of :: "manifest \<Rightarrow> string \<Rightarrow> string" where
  "text_of m n = fi_Text (hd (the (map_of (mf_Profiles m) n)))"

definition profile_triples :: "manifest \<Rightarrow> string list list" where
  "profile_triples m = map (\<lambda>n. [n, ProfileFile, text_of m n]) (mf_Names m)"

definition list_triples :: "manifest \<Rightarrow> string list list" where
  "list_triples m = map (\<lambda>n. [''list'', n, the (map_of (mf_Lists m) n)]) (sort (map fst (mf_Lists m)))"

definition settings_triples :: "manifest \<Rightarrow> string list list" where
  "settings_triples m =
     (case mf_Settings m of None \<Rightarrow> [] | Some s \<Rightarrow> [[''settings'', ''log_level'', se_LogLevel s]])"

definition triples :: "manifest \<Rightarrow> string list list" where
  "triples m = profile_triples m @ list_triples m @ settings_triples m"

text \<open>A manifest as \<open>Parse\<close> leaves it.\<close>

definition single_files :: "manifest \<Rightarrow> bool" where
  "single_files m \<longleftrightarrow> (\<forall>(n, v) \<in> set (mf_Profiles m). \<exists>text. v = [\<lparr>fi_Name = ProfileFile, fi_Text = text\<rparr>])"

lemma single_file:
  assumes "single_files m" and "n \<in> fst ` set (mf_Profiles m)"
  shows "map_of (mf_Profiles m) n = Some [\<lparr>fi_Name = ProfileFile, fi_Text = text_of m n\<rparr>]"
proof -
  obtain v where v: "map_of (mf_Profiles m) n = Some v" using assms(2) by (metis map_of_eq_None_iff not_None_eq)
  then obtain tx where "v = [\<lparr>fi_Name = ProfileFile, fi_Text = tx\<rparr>]"
    using assms(1) map_of_SomeD [OF v] by (auto simp: single_files_def)
  then show ?thesis using v by (simp add: text_of_def)
qed

lemma concat_parts: "concat (map sum_part (concat (map f xs))) = concat (map (\<lambda>x. concat (map sum_part (f x))) xs)"
  by (induction xs) simp_all

lemma gen_input_triples:
  assumes "single_files m"
  shows "gen_input m = concat (map sum_part (concat (triples m)))"
proof -
  have "map (\<lambda>n. sum_part n @ file_parts (the (map_of (mf_Profiles m) n))) (mf_Names m) =
      map (\<lambda>n. concat (map sum_part [n, ProfileFile, text_of m n])) (mf_Names m)"
    using single_file [OF assms] by (intro map_cong) (auto simp: mf_Names_def file_parts_def)
  then have "concat (map (\<lambda>n. sum_part n @ file_parts (the (map_of (mf_Profiles m) n))) (mf_Names m)) =
      concat (map sum_part (concat (profile_triples m)))"
    unfolding profile_triples_def concat_parts by (rule arg_cong)
  then show ?thesis
    by (simp add: gen_input_def hash_input_def mf_Names_def triples_def list_triples_def settings_triples_def
        writeSettings_def concat_parts split: option.splits)
qed

definition plain_parts :: "manifest \<Rightarrow> bool" where
  "plain_parts m \<longleftrightarrow> (\<forall>x \<in> set (concat (triples m)). no_nul x) \<and> ProfileFile \<notin> fst ` set (mf_Lists m)"

definition same_generation :: "manifest \<Rightarrow> manifest \<Rightarrow> bool" where
  "same_generation m m' \<longleftrightarrow>
     map_of (mf_Profiles m) = map_of (mf_Profiles m') \<and> map_of (mf_Lists m) = map_of (mf_Lists m') \<and>
     map_option se_LogLevel (mf_Settings m) = map_option se_LogLevel (mf_Settings m')"

text \<open>The three groups can be told apart by their second and first components.\<close>

lemma triples_groups:
  assumes "ProfileFile \<notin> fst ` set (mf_Lists m)"
  shows "profile_triples m = filter (\<lambda>x. x ! 1 = ProfileFile) (triples m)"
    and "list_triples m = filter (\<lambda>x. x ! 1 \<noteq> ProfileFile \<and> x ! 0 = ''list'') (triples m)"
    and "settings_triples m = filter (\<lambda>x. x ! 1 \<noteq> ProfileFile \<and> x ! 0 \<noteq> ''list'') (triples m)"
proof -
  have L: "\<forall>x \<in> set (list_triples m). x ! 1 \<noteq> ProfileFile \<and> x ! 0 = ''list''"
    using assms by (force simp: list_triples_def)
  have P: "\<forall>x \<in> set (profile_triples m). x ! 1 = ProfileFile" by (auto simp: profile_triples_def)
  have S: "\<forall>x \<in> set (settings_triples m). x ! 1 \<noteq> ProfileFile \<and> x ! 0 \<noteq> ''list''"
    by (auto simp: settings_triples_def split: option.splits)
  show "profile_triples m = filter (\<lambda>x. x ! 1 = ProfileFile) (triples m)"
    "list_triples m = filter (\<lambda>x. x ! 1 \<noteq> ProfileFile \<and> x ! 0 = ''list'') (triples m)"
    "settings_triples m = filter (\<lambda>x. x ! 1 \<noteq> ProfileFile \<and> x ! 0 \<noteq> ''list'') (triples m)"
    using L P S by (simp_all add: triples_def filter_False filter_True cong: filter_cong)
qed

lemma triples_length: "\<forall>x \<in> set (triples m). length x = 3"
  by (auto simp: triples_def profile_triples_def list_triples_def settings_triples_def split: option.splits)

lemma keyed_map_eq:
  assumes "map (\<lambda>n. [k, n, f n]) xs = map (\<lambda>n. [k, n, g n]) ys \<or> map (\<lambda>n. [n, k, f n]) xs = map (\<lambda>n. [n, k, g n]) ys"
  shows "xs = ys \<and> (\<forall>n \<in> set xs. f n = g n)"
proof -
  have "map (\<lambda>n. (n, f n)) xs = map (\<lambda>n. (n, g n)) ys"
    using assms
  proof
    assume "map (\<lambda>n. [k, n, f n]) xs = map (\<lambda>n. [k, n, g n]) ys"
    from arg_cong [where f = "map (\<lambda>x. (x ! 1, x ! 2))", OF this] show ?thesis by (simp add: comp_def)
  next
    assume "map (\<lambda>n. [n, k, f n]) xs = map (\<lambda>n. [n, k, g n]) ys"
    from arg_cong [where f = "map (\<lambda>x. (x ! 0, x ! 2))", OF this] show ?thesis by (simp add: comp_def)
  qed
  then have "map fst (map (\<lambda>n. (n, f n)) xs) = map fst (map (\<lambda>n. (n, g n)) ys)" by simp
  then have "xs = ys" by (simp add: comp_def)
  then show ?thesis using \<open>map (\<lambda>n. (n, f n)) xs = map (\<lambda>n. (n, g n)) ys\<close> by simp
qed

lemma sort_set_eq: "set (sort xs) = set xs"
  by simp

lemma gen_input_inj:
  assumes "gen_input m = gen_input m'" and s: "single_files m" "single_files m'" and "plain_parts m" and "plain_parts m'"
  shows "same_generation m m'"
proof -
  have "concat (triples m) = concat (triples m')"
    by (rule sum_parts_inj) (use assms gen_input_triples in \<open>simp_all add: plain_parts_def\<close>)
  then have eq: "triples m = triples m'" by (rule triples_inj) (rule triples_length)+
  have nl: "ProfileFile \<notin> fst ` set (mf_Lists m)" "ProfileFile \<notin> fst ` set (mf_Lists m')"
    using assms(4,5) by (simp_all add: plain_parts_def)
  note G = triples_groups [OF nl(1), unfolded eq, folded triples_groups [OF nl(2)]]
  have P: "mf_Names m = mf_Names m' \<and> (\<forall>n \<in> set (mf_Names m). text_of m n = text_of m' n)"
    using G(1) unfolding profile_triples_def by (intro keyed_map_eq disjI2)
  have L: "sort (map fst (mf_Lists m)) = sort (map fst (mf_Lists m')) \<and>
      (\<forall>n \<in> set (sort (map fst (mf_Lists m))). the (map_of (mf_Lists m) n) = the (map_of (mf_Lists m') n))"
    using G(2) unfolding list_triples_def by (intro keyed_map_eq disjI1)
  have dP: "fst ` set (mf_Profiles m) = fst ` set (mf_Profiles m')"
    using P unfolding mf_Names_def by (metis set_map set_sort)
  have dL: "fst ` set (mf_Lists m) = fst ` set (mf_Lists m')" using L by (metis set_map set_sort)
  have "map_of (mf_Profiles m) n = map_of (mf_Profiles m') n" for n
  proof (cases "n \<in> fst ` set (mf_Profiles m)")
    case True
    then have "n \<in> set (mf_Names m)" unfolding mf_Names_def by simp
    then have "text_of m n = text_of m' n" using P by blast
    then show ?thesis using single_file [OF s(1) True] single_file [OF s(2)] True dP by simp
  next
    case False
    then show ?thesis using dP by (metis map_of_eq_None_iff)
  qed
  moreover have "map_of (mf_Lists m) n = map_of (mf_Lists m') n" for n
  proof (cases "n \<in> fst ` set (mf_Lists m)")
    case True
    then have "map_of (mf_Lists m) n \<noteq> None" "map_of (mf_Lists m') n \<noteq> None"
      using dL by (simp_all add: map_of_eq_None_iff)
    moreover have "n \<in> set (sort (map fst (mf_Lists m)))" using True by simp
    then have "the (map_of (mf_Lists m) n) = the (map_of (mf_Lists m') n)" using L by blast
    ultimately show ?thesis by (metis option.exhaust_sel)
  next
    case False
    then show ?thesis using dL by (metis map_of_eq_None_iff)
  qed
  moreover have "map_option se_LogLevel (mf_Settings m) = map_option se_LogLevel (mf_Settings m')"
    using G(3) by (auto simp: settings_triples_def split: option.splits)
  ultimately show ?thesis by (simp add: same_generation_def fun_eq_iff)
qed

lemma same_generation_input:
  assumes "same_generation m m'" and "names_plain m" and "names_plain m'"
  shows "gen_input m = gen_input m'"
proof -
  have "sort (map fst al) = sort (map fst al')"
    if "map_of al = map_of al'" "distinct (map fst al)" "distinct (map fst al')" for al al' :: "(string \<times> 'v) list"
  proof (rule sorted_distinct_set_unique)
    show "set (sort (map fst al)) = set (sort (map fst al'))"
      using that(1) by (metis dom_map_of_conv_image_fst set_map set_sort)
  qed (use that in simp_all)
  from this [of "mf_Profiles m" "mf_Profiles m'"] this [of "mf_Lists m" "mf_Lists m'"] assms
  show ?thesis
    by (auto simp: gen_input_def hash_input_def same_generation_def names_plain_def writeSettings_def split: option.splits)
qed

section \<open>Lists that were fetched\<close>

lemma fetch_each_spec:
  "fetch_each L slists names bodies out = Ok res \<Longrightarrow> distinct names \<Longrightarrow>
     (\<forall>n. map_of res n = (if n \<in> set names then map_of res n else map_of out n)) \<and>
     (\<forall>n \<in> set names. \<exists>b. map_of res n = Some b \<and> ''sha256:'' @ sha256_hex L b = the (map_of slists n))"
proof (induction L slists names bodies out rule: fetch_each.induct)
  case (4 L slists name names b bodies out)
  then have h: "''sha256:'' @ sha256_hex L b = the (map_of slists name)"
    and r: "fetch_each L slists names bodies (AList.update name b out) = Ok res" by (auto split: if_splits)
  have d: "distinct names" "name \<notin> set names" using "4.prems"(2) by simp_all
  note IH = "4.IH" [OF _ r d(1)]
  have ih: "(\<forall>n. map_of res n = (if n \<in> set names then map_of res n else map_of (AList.update name b out) n)) \<and>
     (\<forall>n \<in> set names. \<exists>b. map_of res n = Some b \<and> ''sha256:'' @ sha256_hex L b = the (map_of slists n))"
    by (rule IH) (use h in simp)
  then have "map_of res name = map_of (AList.update name b out) name" using d(2) by metis
  then have "map_of res name = Some b" by (simp add: update_conv')
  moreover have "map_of res n = map_of out n" if "n \<notin> set (name # names)" for n
  proof -
    have "map_of res n = map_of (AList.update name b out) n" using ih that by (metis list.set_intros(2))
    then show ?thesis using that by (simp add: update_conv')
  qed
  ultimately show ?case using ih h by auto
qed auto

lemma FetchLists_verified:
  assumes "FetchLists L blobs m = Ok bodies" and "distinct (map fst (mf_Lists m))" and "map_of (mf_Lists m) n = Some h"
  shows "\<exists>b. map_of bodies n = Some b \<and> ''sha256:'' @ sha256_hex L b = h"
proof -
  have "mf_Lists m \<noteq> []" using assms(3) by auto
  then obtain bs where f: "fetch_each L (mf_Lists m) (sort (map fst (mf_Lists m))) bs [] = Ok bodies"
    using assms(1) by (auto simp: FetchLists_def Let_def split: option.splits)
  have "distinct (sort (map fst (mf_Lists m)))" using assms(2) by simp
  moreover have "n \<in> set (sort (map fst (mf_Lists m)))" using assms(3) by (auto dest: map_of_SomeD intro: rev_image_eqI)
  ultimately show ?thesis using fetch_each_spec [OF f] assms(3) by auto
qed

lemma FetchLists_no_panic: "FetchLists L blobs m \<noteq> Panic"
proof -
  have "fetch_each L slists names bodies out \<noteq> Panic" for slists names bodies out
    by (induction L slists names bodies out rule: fetch_each.induct) auto
  then show ?thesis by (auto simp: FetchLists_def Let_def split: option.splits)
qed

end
