(* ===== verification/Desired_Runs.thy ===== *)
theory Desired_Runs
  imports Desired_Hash
begin

text \<open>
  The loop that follows the key, beside the watch of the store: a run is any sequence of updates,
  retries, turns of the watch and edits of the files, and the invariant says what the reported status
  means for the store.
\<close>

section \<open>What a status says\<close>

definition status_of :: "manifest \<Rightarrow> applied \<Rightarrow> bool" where
  "status_of m a \<longleftrightarrow> ap_hash a = mf_ConfigHash m \<and> ap_rev a = mf_Rev m \<and> ap_names a = mf_Names m"

definition verified :: "go_lib \<Rightarrow> manifest \<Rightarrow> (string \<times> string) list \<Rightarrow> bool" where
  "verified L m bodies \<longleftrightarrow> (\<forall>n h. map_of (mf_Lists m) n = Some h \<longrightarrow>
     (\<exists>b. map_of bodies n = Some b \<and> ''sha256:'' @ sha256_hex L b = h))"

text \<open>The store serves the manifest the status names, from lists that have the hashes it gives.\<close>

definition serving :: "desired_env \<Rightarrow> applied \<Rightarrow> profiles \<Rightarrow> bool" where
  "serving D a ps \<longleftrightarrow> (\<exists>raw m bodies. mf_Parse D raw = Ok m \<and> status_of m a \<and>
     verified (fx_lib (dx_fs D)) m bodies \<and>
     (names_served (fx_lib (dx_fs D)) m \<longrightarrow> serves (fx_lib (dx_fs D)) (fx_yaml (dx_fs D)) m bodies ps))"

definition told :: "desired_env \<Rightarrow> applied \<Rightarrow> bool" where
  "told D a \<longleftrightarrow> ap_hash a = [] \<or> (\<exists>raw m. mf_Parse D raw = Ok m \<and> status_of m a)"

text \<open>The live directory holds the manifest the status names.\<close>

definition tree_holds :: "desired_env \<Rightarrow> path \<Rightarrow> applied \<Rightarrow> tree \<Rightarrow> bool" where
  "tree_holds D dir a t \<longleftrightarrow> (\<exists>raw m bodies now. mf_Parse D raw = Ok m \<and> status_of m a \<and>
     verified (fx_lib (dx_fs D)) m bodies \<and> subtree (live_dir dir) t = generation_node now m bodies)"

lemma tree_holds_load:
  assumes "tree_holds D dir a t" and "tree_ok t" and "json_maps D"
    and "LoadDir ((dx_fs D)\<lparr>fx_fails := f\<rparr>) (live_dir dir) t = Ok ps"
  shows "serving D a ps"
proof -
  obtain raw m bodies now where m: "mf_Parse D raw = Ok m" "status_of m a" "verified (fx_lib (dx_fs D)) m bodies"
    and t: "subtree (live_dir dir) t = generation_node now m bodies"
    using assms(1) unfolding tree_holds_def by blast
  have "serves (fx_lib (dx_fs D)) (fx_yaml (dx_fs D)) m bodies ps" if "names_served (fx_lib (dx_fs D)) m"
    using LoadDir_generation [OF assms(2) t _ mf_Parse_ok(1) [OF m(1) assms(3)] assms(4)] that by simp
  then show ?thesis using m unfolding serving_def by blast
qed

section \<open>One handling\<close>

lemma Apply_serving:
  assumes "mf_Parse D raw = Ok m" and "json_maps D" and "FetchLists (fx_lib (dx_fs D)) blobs m = Ok bodies"
    and "Apply (dx_fs D) F now dir m bodies t s = (Ok u, t', s')" and "tree_ok t"
    and "\<not> F 1 (RemoveCall (next_dir dir))" and "status_of m a"
  shows "serving D a (so_current s')" and "tree_holds D dir a t'" and "so_dir s' = live_dir dir"
proof -
  note M = mf_Parse_ok [OF assms(1,2)]
  obtain t1 where t1: "tree_ok t1" "subtree (live_dir dir) t1 = generation_node now m bodies"
    and r: "ReloadFrom (at_step (dx_fs D) F 10) (live_dir dir) t1 s = Ok s'" "t' = RemoveAll (F 14) (prev_dir dir) t1"
    using Apply_Ok [OF assms(4,5) M(1) assms(6)] by blast
  have "verified (fx_lib (dx_fs D)) m bodies"
    using FetchLists_verified [OF assms(3)] M(1) by (auto simp: verified_def names_plain_def)
  then have h: "tree_holds D dir a t1" using assms(1,7) t1(2) unfolding tree_holds_def by blast
  show "serving D a (so_current s')" "so_dir s' = live_dir dir"
    using tree_holds_load [OF h t1(1) assms(2)] r(1) by (auto simp: ReloadFrom_def obind_Ok swap_def)
  have "apart (live_dir dir) (prev_dir dir)" by simp
  then have "subtree (live_dir dir) t' = subtree (live_dir dir) t1" unfolding r(2) by (rule RemoveAll_subtree)
  then show "tree_holds D dir a t'" using h by (simp add: tree_holds_def)
qed

text \<open>What handling a value leaves: either the status is not \<open>ok\<close>, or nothing happened, or the
  generation was applied, and, when the staging directory was empty before it was written, is served.\<close>

definition applied_clean :: "desired_env \<Rightarrow> path \<Rightarrow> desired \<Rightarrow> bool" where
  "applied_clean D dir d \<longleftrightarrow> serving D (de_applied d) (so_current (de_store d)) \<and>
     tree_holds D dir (de_applied d) (de_tree d) \<and> so_dir (de_store d) = live_dir dir"

definition handled_as :: "desired_env \<Rightarrow> (nat \<Rightarrow> os_faults) \<Rightarrow> path \<Rightarrow> desired \<Rightarrow> desired \<Rightarrow> bool" where
  "handled_as D F dir d d' \<longleftrightarrow> tree_ok (de_tree d') \<and> told D (de_applied d') \<and>
     (ap_apply (de_applied d') = ApplyOK \<longrightarrow>
        de_tree d' = de_tree d \<and> de_store d' = de_store d \<and> de_applied d' = de_applied d \<or>
        de_applied d' \<noteq> de_applied d \<and> (\<not> F 1 (RemoveCall (next_dir dir)) \<longrightarrow> applied_clean D dir d'))"

lemma handle_step:
  assumes "handle D F now dir blobs raw d = Ok (again, d')" and "json_maps D"
    and "tree_ok (de_tree d)" and "told D (de_applied d)"
  shows "handled_as D F dir d d' \<and> de_pending d' = de_pending d \<and> de_retry d' = de_retry d"
proof (cases "mf_Parse D raw")
  case (Ok m)
  let ?a = "de_applied d"
  have failed: "told D (ap_set (ap_hash ?a) (ap_rev ?a) ApplyFailed (ap_names ?a) ?a)"
    using assms(4) by (auto simp: told_def status_of_def ap_set_def)
  show ?thesis
  proof (cases "ap_apply ?a = ApplyOK \<and> ap_hash ?a = mf_ConfigHash m \<and> ap_rev ?a = mf_Rev m")
    case True
    then show ?thesis using assms Ok by (simp add: handle_def ap_Snapshot_def handled_as_def)
  next
    case no: False
    show ?thesis
    proof (cases "FetchLists (fx_lib (dx_fs D)) blobs m")
      case (Err e)
      then have "d' = d\<lparr>de_applied := ap_set (ap_hash ?a) (ap_rev ?a) ApplyFailed (ap_names ?a) ?a\<rparr>"
        using assms(1) Ok no by (simp add: handle_def ap_Snapshot_def)
      then show ?thesis using failed assms(3) by (simp add: handled_as_def ap_set_def)
    next
      case Panic
      then show ?thesis using FetchLists_no_panic by blast
    next
      case fetched: (Ok bodies)
      obtain r t' s' where A: "Apply (dx_fs D) F now dir m bodies (de_tree d) (de_store d) = (r, t', s')"
        by (metis prod_cases3)
      have tok': "tree_ok t'" by (rule Apply_tree_ok [OF A assms(3) mf_Parse_ok(1) [OF Ok assms(2)]])
      show ?thesis
      proof (cases r)
        case (Err e)
        then have "d' = d\<lparr>de_tree := t', de_store := s',
            de_applied := ap_set (ap_hash ?a) (ap_rev ?a) ApplyFailed (ap_names ?a) ?a\<rparr>"
          using assms(1) Ok no fetched A by (simp add: handle_def ap_Snapshot_def)
        then show ?thesis using failed tok' by (simp add: handled_as_def ap_set_def)
      next
        case Panic
        then show ?thesis using assms(1) Ok no fetched A by (simp add: handle_def ap_Snapshot_def)
      next
        case fin: (Ok u)
        let ?b = "ap_set (mf_ConfigHash m) (mf_Rev m) ApplyOK (mf_Names m) ?a"
        have d': "d' = d\<lparr>de_tree := t', de_store := s', de_applied := ?b,
            de_level := se_apply (mf_Settings m) (de_level d)\<rparr>"
          using assms(1) Ok no fetched A fin by (simp add: handle_def ap_Snapshot_def)
        have b: "status_of m ?b" by (simp add: status_of_def ap_set_def)
        have new: "?b \<noteq> ?a" using no by (auto simp: ap_set_def dest: arg_cong [where f = ap_apply]
              arg_cong [where f = ap_hash] arg_cong [where f = ap_rev])
        have A': "Apply (dx_fs D) F now dir m bodies (de_tree d) (de_store d) = (Ok u, t', s')" using A fin by simp
        note S = Apply_serving [where F = F, OF Ok assms(2) fetched A' assms(3) _ b]
        show ?thesis using d' tok' Ok b new S by (auto simp: handled_as_def applied_clean_def told_def)
      qed
    qed
  qed
qed (use assms in \<open>auto simp: handle_def handled_as_def\<close>)

text \<open>The two events of the loop that handle a value.\<close>

definition handling ::
  "desired_env \<Rightarrow> (nat \<Rightarrow> os_faults) \<Rightarrow> int \<Rightarrow> path \<Rightarrow> blob_source option \<Rightarrow> desired \<Rightarrow> desired \<Rightarrow> bool" where
  "handling D F now dir blobs d d' \<longleftrightarrow>
     (\<exists>u. on_update D F now dir blobs u d = Ok d') \<or> de_retry d \<and> on_retry D F now dir blobs d = Ok d'"

lemma handled_as_fields:
  "handled_as D F dir (d\<lparr>de_pending := p, de_retry := r\<rparr>) d' \<longleftrightarrow> handled_as D F dir d d'"
  "handled_as D F dir (d\<lparr>de_retry := r\<rparr>) d' \<longleftrightarrow> handled_as D F dir d d'"
  "handled_as D F dir (d\<lparr>de_pending := p\<rparr>) d' \<longleftrightarrow> handled_as D F dir d d'"
  "handled_as D F dir d (d'\<lparr>de_pending := p, de_retry := r\<rparr>) \<longleftrightarrow> handled_as D F dir d d'"
  "handled_as D F dir d (d'\<lparr>de_retry := r\<rparr>) \<longleftrightarrow> handled_as D F dir d d'"
  "handled_as D F dir d (d'\<lparr>de_pending := p\<rparr>) \<longleftrightarrow> handled_as D F dir d d'"
  by (simp_all add: handled_as_def applied_clean_def)

abbreviation timer_ok :: "desired \<Rightarrow> bool" where
  "timer_ok d \<equiv> de_pending d \<noteq> None \<longleftrightarrow> de_retry d"

lemma handling_step:
  assumes "handling D F now dir blobs d d'" and "json_maps D" and "tree_ok (de_tree d)"
    and "told D (de_applied d)" and "timer_ok d"
  shows "handled_as D F dir d d' \<and> timer_ok d'"
proof (cases "\<exists>u. on_update D F now dir blobs u d = Ok d'")
  case True
  then obtain u where u: "on_update D F now dir blobs u d = Ok d'" by blast
  show ?thesis
  proof (cases u)
    case (Put raw)
    obtain again d1 where h: "handle D F now dir blobs raw (d\<lparr>de_pending := None, de_retry := False\<rparr>) = Ok (again, d1)"
      and d': "d' = (if again then d1\<lparr>de_pending := Some raw, de_retry := True\<rparr> else d1)"
      using u Put by (auto simp: on_update_def obind_Ok)
    from handle_step [OF h assms(2)] assms(3,4) d' show ?thesis by (auto simp: handled_as_fields)
  qed (use u assms in \<open>auto simp: on_update_def handled_as_def\<close>)
next
  case False
  then have r: "on_retry D F now dir blobs d = Ok d'" "de_retry d" using assms(1) by (auto simp: handling_def)
  then obtain raw where raw: "de_pending d = Some raw" using assms(5) by auto
  obtain again d1 where h: "handle D F now dir blobs raw (d\<lparr>de_retry := False\<rparr>) = Ok (again, d1)"
    and d': "d' = (if again then d1\<lparr>de_retry := True\<rparr> else d1\<lparr>de_pending := None\<rparr>)"
    using r raw by (auto simp: on_retry_def obind_Ok)
  from handle_step [OF h assms(2)] assms(3,4) d' raw show ?thesis by (auto simp: handled_as_fields)
qed

text \<open>A handling touches the store in one way only: it reloads it, and then the status is \<open>failed\<close>
  or changes.\<close>

definition no_apply :: "desired \<Rightarrow> desired \<Rightarrow> bool" where
  "no_apply d d' \<longleftrightarrow> ap_apply (de_applied d') = ApplyFailed \<or> de_applied d' = de_applied d"

section \<open>Runs\<close>

text \<open>
  The loop and the watch of the store, side by side. The goroutine of the loop shares the store and the
  files with the watch; the watch moves by the steps of \<open>watch_step\<close>. A handling that reloads the store
  is two steps, cut at the one place where the watch sees a store between two others: after the
  directory and the print were set (\<open>loaded\<close>), before the profiles are stored and the status is
  published (\<open>stored\<close>); \<open>fo_next\<close> holds what is to be published and the profiles it loaded.

  Three flags record the history. \<open>fo_fresh\<close>: the turn of the watch that is under way began after the
  last handling that reloaded had ended, so it reads the files as they are (any other turn reads
  whatever the handling left on its way). \<open>fo_whole\<close>: the live directory is as that handling left it, and
  the directory it wrote was empty before. \<open>fo_settled\<close>: so it is, and what was stored last was stored by
  that handling or by a fresh turn.
\<close>

record following =
  fo_desired :: desired
  fo_watch :: watch_pc
  fo_next :: "(desired \<times> profiles \<times> bool) option"
  fo_fresh :: bool
  fo_whole :: bool
  fo_settled :: bool

fun stores :: "watch_pc \<Rightarrow> bool" where
  "stores (WSwap ps) = True"
| "stores _ = False"

abbreviation same_live :: "path \<Rightarrow> tree \<Rightarrow> tree \<Rightarrow> bool" where
  "same_live dir t t' \<equiv> subtree (live_dir dir) t = subtree (live_dir dir) t'"

inductive desired_run :: "desired_env \<Rightarrow> path \<Rightarrow> following \<Rightarrow> bool" for D dir where
  started: "tree_ok t \<Longrightarrow> desired_run D dir
     \<lparr>fo_desired = \<lparr>de_tree = t, de_store = s, de_applied = new_applied, de_level = l, de_pending = None, de_retry = False\<rparr>,
      fo_watch = w, fo_next = None, fo_fresh = False, fo_whole = False, fo_settled = False\<rparr>"
| edited: "desired_run D dir f \<Longrightarrow> d = fo_desired f \<Longrightarrow> tree_ok t \<Longrightarrow>
     desired_run D dir (f\<lparr>fo_desired := d\<lparr>de_tree := t\<rparr>, fo_whole := fo_whole f \<and> same_live dir t (de_tree d)\<rparr>)"
| kept: "desired_run D dir f \<Longrightarrow> d = fo_desired f \<Longrightarrow> fo_next f = None \<Longrightarrow>
     handling D F now dir blobs d d' \<Longrightarrow> de_store d' = de_store d \<Longrightarrow> no_apply d d' \<Longrightarrow>
     desired_run D dir (f\<lparr>fo_desired := d', fo_fresh := fo_fresh f \<and> de_tree d' = de_tree d,
       fo_whole := fo_whole f \<and> same_live dir (de_tree d') (de_tree d)\<rparr>)"
| loaded: "desired_run D dir f \<Longrightarrow> d = fo_desired f \<Longrightarrow> fo_next f = None \<Longrightarrow>
     handling D F now dir blobs d d' \<Longrightarrow> s = (de_store d)\<lparr>so_dir := q, so_print := p\<rparr> \<Longrightarrow> de_store d' = swap ps s \<Longrightarrow>
     ap_apply (de_applied d') = ApplyFailed \<or> de_applied d' \<noteq> de_applied d \<Longrightarrow>
     clear \<longleftrightarrow> \<not> F 1 (RemoveCall (next_dir dir)) \<Longrightarrow>
     desired_run D dir (f\<lparr>fo_desired := d\<lparr>de_tree := de_tree d', de_store := s\<rparr>,
       fo_next := Some (d', ps, clear), fo_fresh := False, fo_whole := clear\<rparr>)"
| stored: "desired_run D dir f \<Longrightarrow> d = fo_desired f \<Longrightarrow> fo_next f = Some (d', ps, clear) \<Longrightarrow>
     desired_run D dir (f\<lparr>fo_desired := d'\<lparr>de_tree := de_tree d, de_store := swap ps (de_store d)\<rparr>,
       fo_next := None, fo_settled := clear\<rparr>)"
| turn: "desired_run D dir f \<Longrightarrow> d = fo_desired f \<Longrightarrow>
     watch_step ((dx_fs D)\<lparr>fx_fails := g\<rparr>) t (fo_watch f, de_store d) = Ok (w, s) \<Longrightarrow>
     fresh \<longleftrightarrow> fo_next f = None \<and> (fo_watch f = WIdle \<or> fo_fresh f) \<Longrightarrow> (fresh \<Longrightarrow> t = de_tree d) \<Longrightarrow>
     desired_run D dir (f\<lparr>fo_desired := d\<lparr>de_store := s\<rparr>, fo_watch := w, fo_fresh := fresh,
       fo_settled := (if stores (fo_watch f) then fresh \<and> fo_whole f else fo_settled f)\<rparr>)"

text \<open>Every handling is one of the two kinds.\<close>

definition reloaded :: "store \<Rightarrow> store \<Rightarrow> bool" where
  "reloaded s s' \<longleftrightarrow> (\<exists>ps q p. s' = swap ps (s\<lparr>so_dir := q, so_print := p\<rparr>))"

definition reloads :: "('e, unit) outcome \<Rightarrow> store \<Rightarrow> store \<Rightarrow> bool" where
  "reloads r s s' \<longleftrightarrow> s' = s \<and> r \<noteq> Ok () \<or> reloaded s s'"

lemma reloads_same [intro]: "r \<noteq> Ok () \<Longrightarrow> reloads r s s"
  by (simp add: reloads_def)

lemma ReloadFrom_reloads: "ReloadFrom E dir t s = Ok s' \<Longrightarrow> reloads r s s'"
  by (auto simp: reloads_def reloaded_def ReloadFrom_def obind_Ok)

lemma activate_store: "activate E F dir lived t s = (r, t', s') \<Longrightarrow> reloads r s s'"
  by (auto simp: activate_def Let_def dest: ReloadFrom_reloads split: outcome.splits if_splits)

lemma promote_store:
  assumes "promote E F dir lived t s = (r, t', s')"
  shows "reloads r s s'"
proof (cases "Rename (F 7) (next_dir dir) (live_dir dir) t")
  case (Ok t1)
  then have "activate E F dir lived t1 s = (r, t', s')" using assms by (simp add: promote_def Let_def)
  then show ?thesis by (rule activate_store)
qed (use assms in \<open>auto simp: promote_def Let_def\<close>)

lemma park_store:
  assumes "park E F dir t s = (r, t', s')"
  shows "reloads r s s'"
proof (cases "Rename (F 5) (live_dir dir) (prev_dir dir) (RemoveAll (F 4) (prev_dir dir) t)")
  case (Ok t1)
  then have "promote E F dir True t1 s = (r, t', s')" using assms by (simp add: park_def Let_def)
  then show ?thesis by (rule promote_store)
next
  case (Err e)
  then show ?thesis using assms by (cases e) (auto simp: park_def Let_def dest: promote_store)
qed (use assms in \<open>auto simp: park_def Let_def\<close>)

lemma Apply_store:
  assumes "Apply E F now dir m bodies t s = (r, t', s')"
  shows "reloads r s s'"
proof (cases "MkdirAll (F 0) dir t")
  case (Some t1)
  obtain w t2 where w: "write_tree (F 2) now (next_dir dir) m bodies (RemoveAll (F 1) (next_dir dir) t1) = (w, t2)"
    by fastforce
  then show ?thesis using assms Some by (cases w) (auto simp: Apply_def Let_def dest: park_store)
qed (use assms in \<open>auto simp: Apply_def\<close>)

lemma ap_set_apply [simp]: "ap_apply (ap_set h v st ns a) = st"
  by (simp add: ap_set_def)

lemma handle_store:
  assumes "handle D F now dir blobs raw d = Ok (again, d')"
  shows "de_store d' = de_store d \<and> no_apply d d' \<or>
    reloaded (de_store d) (de_store d') \<and> (ap_apply (de_applied d') = ApplyFailed \<or> de_applied d' \<noteq> de_applied d)"
proof (cases "mf_Parse D raw")
  case (Ok m)
  let ?a = "de_applied d"
  show ?thesis
  proof (cases "ap_apply ?a = ApplyOK \<and> ap_hash ?a = mf_ConfigHash m \<and> ap_rev ?a = mf_Rev m")
    case True
    then show ?thesis using assms Ok by (simp add: handle_def ap_Snapshot_def no_apply_def)
  next
    case no: False
    then have new: "ap_set (mf_ConfigHash m) (mf_Rev m) ApplyOK (mf_Names m) ?a \<noteq> ?a"
      by (auto simp: ap_set_def dest: arg_cong [where f = ap_apply] arg_cong [where f = ap_hash] arg_cong [where f = ap_rev])
    show ?thesis
    proof (cases "FetchLists (fx_lib (dx_fs D)) blobs m")
      case fetched: (Ok bodies)
      obtain r t' s' where A: "Apply (dx_fs D) F now dir m bodies (de_tree d) (de_store d) = (r, t', s')"
        by (metis prod_cases3)
      have rel: "reloads r (de_store d) s'" by (rule Apply_store [OF A])
      show ?thesis
      proof (cases r)
        case fin: (Ok u)
        have "de_store d' = s'" "de_applied d' = ap_set (mf_ConfigHash m) (mf_Rev m) ApplyOK (mf_Names m) ?a"
          using assms Ok no fetched A fin by (auto simp: handle_def ap_Snapshot_def)
        then show ?thesis using rel new fin by (simp add: reloads_def)
      next
        case (Err e)
        have "de_store d' = s'" "ap_apply (de_applied d') = ApplyFailed"
          using assms Ok no fetched A Err by (auto simp: handle_def ap_Snapshot_def)
        then show ?thesis using rel by (auto simp: reloads_def no_apply_def)
      next
        case Panic
        then show ?thesis using assms Ok no fetched A by (simp add: handle_def ap_Snapshot_def)
      qed
    qed (use assms Ok no in \<open>auto simp: handle_def ap_Snapshot_def no_apply_def\<close>)
  qed
qed (use assms in \<open>auto simp: handle_def no_apply_def\<close>)

lemma handling_store:
  assumes "handling D F now dir blobs d d'"
  shows "de_store d' = de_store d \<and> no_apply d d' \<or>
    reloaded (de_store d) (de_store d') \<and> (ap_apply (de_applied d') = ApplyFailed \<or> de_applied d' \<noteq> de_applied d)"
proof (cases "\<exists>u. on_update D F now dir blobs u d = Ok d'")
  case True
  then obtain u where "on_update D F now dir blobs u d = Ok d'" by blast
  then show ?thesis
    by (cases u) (auto simp: on_update_def obind_Ok no_apply_def split: if_splits dest!: handle_store)
next
  case False
  then have "on_retry D F now dir blobs d = Ok d'" using assms by (auto simp: handling_def)
  then show ?thesis
    by (auto simp: on_retry_def obind_Ok Let_def no_apply_def split: option.splits if_splits dest!: handle_store)
qed

text \<open>So the rules leave no handling out: any one, with no step of the watch within it, is a run.\<close>

lemma handling_covered:
  assumes "desired_run D dir f" and "fo_next f = None" and "handling D F now dir blobs (fo_desired f) d'"
  shows "\<exists>f'. desired_run D dir f' \<and> fo_desired f' = d' \<and> fo_next f' = None \<and> fo_watch f' = fo_watch f \<and>
    (de_applied d' \<noteq> de_applied (fo_desired f) \<and> ap_apply (de_applied d') = ApplyOK \<and>
       \<not> F 1 (RemoveCall (next_dir dir)) \<longrightarrow> fo_settled f')"
  using handling_store [OF assms(3)]
proof
  assume k: "de_store d' = de_store (fo_desired f) \<and> no_apply (fo_desired f) d'"
  have run: "desired_run D dir (f\<lparr>fo_desired := d', fo_fresh := fo_fresh f \<and> de_tree d' = de_tree (fo_desired f),
      fo_whole := fo_whole f \<and> same_live dir (de_tree d') (de_tree (fo_desired f))\<rparr>)"
    by (rule desired_run.kept [OF assms(1) refl assms(2,3)]) (use k in simp_all)
  show ?thesis by (rule exI, rule conjI, rule run) (use k assms(2) in \<open>auto simp: no_apply_def\<close>)
next
  assume r: "reloaded (de_store (fo_desired f)) (de_store d') \<and>
    (ap_apply (de_applied d') = ApplyFailed \<or> de_applied d' \<noteq> de_applied (fo_desired f))"
  let ?c = "\<not> F 1 (RemoveCall (next_dir dir))"
  obtain ps q p where s: "de_store d' = swap ps ((de_store (fo_desired f))\<lparr>so_dir := q, so_print := p\<rparr>)"
    using r by (auto simp: reloaded_def)
  let ?f = "f\<lparr>fo_desired := (fo_desired f)\<lparr>de_tree := de_tree d',
      de_store := (de_store (fo_desired f))\<lparr>so_dir := q, so_print := p\<rparr>\<rparr>,
      fo_next := Some (d', ps, ?c), fo_fresh := False, fo_whole := ?c\<rparr>"
  have "desired_run D dir ?f"
    by (rule desired_run.loaded [OF assms(1) refl assms(2,3) refl s]) (use r in simp_all)
  then have run: "desired_run D dir (?f\<lparr>fo_desired := d'\<lparr>de_tree := de_tree (fo_desired ?f),
      de_store := swap ps (de_store (fo_desired ?f))\<rparr>, fo_next := None, fo_settled := ?c\<rparr>)"
    by (rule desired_run.stored [OF _ refl]) simp
  show ?thesis by (rule exI, rule conjI, rule run) (use s in simp)
qed

section \<open>The invariant of a run\<close>

fun turn_dir :: "watch_pc \<Rightarrow> path option" where
  "turn_dir (WDir q) = Some q"
| "turn_dir (WPrint q p) = Some q"
| "turn_dir (WDiff q p) = Some q"
| "turn_dir (WBad q p) = Some q"
| "turn_dir (WGood q p ps) = Some q"
| "turn_dir _ = None"

fun turn_loaded :: "watch_pc \<Rightarrow> profiles option" where
  "turn_loaded (WGood q p ps) = Some ps"
| "turn_loaded (WSwap ps) = Some ps"
| "turn_loaded _ = None"

text \<open>A fresh turn looks at the live directory, and what it has loaded is what the status names.\<close>

definition turn_ok :: "desired_env \<Rightarrow> path \<Rightarrow> applied \<Rightarrow> watch_pc \<Rightarrow> bool" where
  "turn_ok D dir a w \<longleftrightarrow> (\<forall>q. turn_dir w = Some q \<longrightarrow> q = live_dir dir) \<and>
     (\<forall>ps. turn_loaded w = Some ps \<longrightarrow> serving D a ps)"

lemma watch_step_store:
  assumes "watch_step E t (w, s) = Ok (w', s')"
  shows "so_dir s' = so_dir s" "stores w \<Longrightarrow> turn_loaded w = Some (so_current s')"
    "\<not> stores w \<Longrightarrow> so_current s' = so_current s"
  using assms by (cases w; auto simp: setPrint_def split: option.splits if_splits outcome.splits)+

lemma watch_step_turn:
  assumes "watch_step ((dx_fs D)\<lparr>fx_fails := g\<rparr>) t (w, s) = Ok (w', s')" and "w = WIdle \<or> turn_ok D dir a w"
    and "so_dir s = live_dir dir" and "tree_holds D dir a t" and "tree_ok t" and "json_maps D"
  shows "turn_ok D dir a w'"
proof (cases w)
  case (WDiff q p)
  then have "q = live_dir dir" using assms(2) by (simp add: turn_ok_def)
  then show ?thesis
    using assms(1) WDiff tree_holds_load [OF assms(4-6)] by (auto simp: turn_ok_def split: outcome.splits)
qed (use assms(1-3) in \<open>auto simp: turn_ok_def split: option.splits if_splits\<close>)

definition loop_inv :: "desired_env \<Rightarrow> desired \<Rightarrow> bool" where
  "loop_inv D d \<longleftrightarrow> told D (de_applied d) \<and> timer_ok d"

definition applied_inv :: "desired_env \<Rightarrow> path \<Rightarrow> following \<Rightarrow> bool" where
  "applied_inv D dir f \<longleftrightarrow> (let d = fo_desired f in
     case fo_next f of
       None \<Rightarrow> fo_whole f \<and> ap_apply (de_applied d) = ApplyOK \<longrightarrow>
         so_dir (de_store d) = live_dir dir \<and> tree_holds D dir (de_applied d) (de_tree d) \<and>
         (fo_fresh f \<longrightarrow> fo_watch f = WIdle \<or> turn_ok D dir (de_applied d) (fo_watch f))
     | Some (d', ps, clear) \<Rightarrow> loop_inv D d' \<and> \<not> fo_fresh f \<and> (ap_apply (de_applied d') = ApplyOK \<longrightarrow>
         (clear \<longrightarrow> serving D (de_applied d') ps) \<and>
         (fo_whole f \<longrightarrow> so_dir (de_store d) = live_dir dir \<and> tree_holds D dir (de_applied d') (de_tree d))))"

definition follow_inv :: "desired_env \<Rightarrow> path \<Rightarrow> following \<Rightarrow> bool" where
  "follow_inv D dir f \<longleftrightarrow> (let d = fo_desired f in
     tree_ok (de_tree d) \<and> loop_inv D d \<and> applied_inv D dir f \<and>
     (fo_settled f \<and> ap_apply (de_applied d) = ApplyOK \<longrightarrow> serving D (de_applied d) (so_current (de_store d))))"

lemma same_live_holds: "same_live dir t t' \<Longrightarrow> tree_holds D dir a t = tree_holds D dir a t'"
  by (simp add: tree_holds_def)

lemma edited_inv:
  assumes "follow_inv D dir f" and "tree_ok t" and "d = fo_desired f"
  shows "follow_inv D dir (f\<lparr>fo_desired := d\<lparr>de_tree := t\<rparr>, fo_whole := fo_whole f \<and> same_live dir t (de_tree d)\<rparr>)"
  using assms same_live_holds [of dir t "de_tree d"]
  by (auto simp: follow_inv_def applied_inv_def loop_inv_def Let_def split: option.splits)

lemma handling_follow:
  assumes "handling D F now dir blobs (fo_desired f) d'" and "follow_inv D dir f" and "json_maps D"
  shows "handled_as D F dir (fo_desired f) d' \<and> loop_inv D d'"
proof -
  have "handled_as D F dir (fo_desired f) d' \<and> timer_ok d'"
    by (rule handling_step [OF assms(1,3)]) (use assms(2) in \<open>auto simp: follow_inv_def loop_inv_def Let_def\<close>)
  then show ?thesis by (auto simp: loop_inv_def handled_as_def)
qed

lemma kept_inv:
  assumes "follow_inv D dir f" and "fo_next f = None" and "handling D F now dir blobs d d'" and "d = fo_desired f"
    and "de_store d' = de_store d" and "no_apply d d'" and "json_maps D"
  shows "follow_inv D dir (f\<lparr>fo_desired := d', fo_fresh := fo_fresh f \<and> de_tree d' = de_tree d,
    fo_whole := fo_whole f \<and> same_live dir (de_tree d') (de_tree d)\<rparr>)"
proof (cases "ap_apply (de_applied d') = ApplyOK")
  case True
  have h: "handled_as D F dir d d' \<and> loop_inv D d'" using handling_follow assms(1,3,4,7) by blast
  then have "de_tree d' = de_tree d" "de_applied d' = de_applied d"
    using True assms(6) by (auto simp: handled_as_def no_apply_def)
  then show ?thesis using assms(1,2,4,5) h by (auto simp: follow_inv_def applied_inv_def Let_def)
next
  case False
  then show ?thesis using handling_follow assms by (auto simp: follow_inv_def applied_inv_def handled_as_def Let_def)
qed

lemma loaded_inv:
  assumes "follow_inv D dir f" and "fo_next f = None" and "handling D F now dir blobs d d'" and "d = fo_desired f"
    and "s = (de_store d)\<lparr>so_dir := q, so_print := p\<rparr>" and "de_store d' = swap ps s"
    and "ap_apply (de_applied d') = ApplyFailed \<or> de_applied d' \<noteq> de_applied d"
    and "clear \<longleftrightarrow> \<not> F 1 (RemoveCall (next_dir dir))" and "json_maps D"
  shows "follow_inv D dir (f\<lparr>fo_desired := d\<lparr>de_tree := de_tree d', de_store := s\<rparr>,
    fo_next := Some (d', ps, clear), fo_fresh := False, fo_whole := clear\<rparr>)"
proof -
  have h: "handled_as D F dir d d' \<and> loop_inv D d'" using handling_follow assms(1,3,4,9) by blast
  have c: "clear \<longrightarrow> applied_clean D dir d'" if "ap_apply (de_applied d') = ApplyOK"
    using h assms(7,8) that by (auto simp: handled_as_def)
  have s: "so_current (de_store d') = ps" "so_dir (de_store d') = so_dir s" "so_current s = so_current (de_store d)"
    using assms(5,6) by (simp_all add: swap_def)
  show ?thesis using h c s assms(1,4) by (auto simp: follow_inv_def applied_inv_def applied_clean_def handled_as_def loop_inv_def Let_def)
qed

lemma stored_inv:
  assumes "follow_inv D dir f" and "fo_next f = Some (d', ps, clear)" and "d = fo_desired f"
  shows "follow_inv D dir (f\<lparr>fo_desired := d'\<lparr>de_tree := de_tree d, de_store := swap ps (de_store d)\<rparr>,
    fo_next := None, fo_settled := clear\<rparr>)"
  using assms by (auto simp: follow_inv_def applied_inv_def loop_inv_def swap_def Let_def)

lemma turn_inv:
  assumes "follow_inv D dir f" and "d = fo_desired f" and "json_maps D"
    and "watch_step ((dx_fs D)\<lparr>fx_fails := g\<rparr>) t (fo_watch f, de_store d) = Ok (w, s)"
    and "fresh \<longleftrightarrow> fo_next f = None \<and> (fo_watch f = WIdle \<or> fo_fresh f)" and "fresh \<Longrightarrow> t = de_tree d"
  shows "follow_inv D dir (f\<lparr>fo_desired := d\<lparr>de_store := s\<rparr>, fo_watch := w, fo_fresh := fresh,
    fo_settled := (if stores (fo_watch f) then fresh \<and> fo_whole f else fo_settled f)\<rparr>)"
proof -
  note W = watch_step_store [OF assms(4)]
  have I: "tree_ok (de_tree d)" "loop_inv D d" "applied_inv D dir f" using assms(1,2) by (simp_all add: follow_inv_def Let_def)
  have ok: "turn_ok D dir (de_applied d) w" and held: "stores (fo_watch f) \<Longrightarrow> serving D (de_applied d) (so_current s)"
    if fr: fresh and wh: "fo_whole f" and st: "ap_apply (de_applied d) = ApplyOK"
  proof -
    have n: "fo_next f = None" and i: "fo_watch f = WIdle \<or> fo_fresh f" using assms(5) fr by blast+
    have A: "so_dir (de_store d) = live_dir dir" "tree_holds D dir (de_applied d) (de_tree d)"
      "fo_watch f = WIdle \<or> turn_ok D dir (de_applied d) (fo_watch f)"
      using I(3) n i wh st assms(2) by (auto simp: applied_inv_def Let_def)
    show "turn_ok D dir (de_applied d) w"
      using watch_step_turn [OF assms(4) A(3,1) _ _ assms(3)] A(2) I(1) assms(6) [OF fr] by simp
    show "serving D (de_applied d) (so_current s)" if "stores (fo_watch f)"
      using A(3) W(2) [OF that] that by (auto simp: turn_ok_def)
  qed
  have "applied_inv D dir (f\<lparr>fo_desired := d\<lparr>de_store := s\<rparr>, fo_watch := w, fo_fresh := fresh,
      fo_settled := (if stores (fo_watch f) then fresh \<and> fo_whole f else fo_settled f)\<rparr>)"
    using I(3) ok W(1) assms(2,5) by (auto simp: applied_inv_def Let_def split: option.splits)
  moreover have "serving D (de_applied d) (so_current s)"
    if "if stores (fo_watch f) then fresh \<and> fo_whole f else fo_settled f" "ap_apply (de_applied d) = ApplyOK"
    using that held W(3) assms(1,2) by (auto simp: follow_inv_def Let_def split: if_splits)
  ultimately show ?thesis using I(1,2) by (simp add: follow_inv_def loop_inv_def Let_def)
qed

lemma desired_run_inv:
  assumes "desired_run D dir f" and "json_maps D"
  shows "follow_inv D dir f"
  using assms
proof (induction rule: desired_run.induct)
  case (started t s l w)
  then show ?case by (simp add: follow_inv_def loop_inv_def applied_inv_def told_def new_applied_def)
next
  case edited
  then show ?case by (intro edited_inv) simp_all
next
  case kept
  then show ?case by (intro kept_inv) simp_all
next
  case loaded
  then show ?case by (intro loaded_inv) simp_all
next
  case stored
  then show ?case by (intro stored_inv) simp_all
next
  case turn
  show ?case by (rule turn_inv [OF turn.IH [OF turn.prems] turn.hyps(2) turn.prems turn.hyps(3-5)])
qed

section \<open>A panic while loading a generation\<close>

text \<open>Loading what is live would panic, and there is something to load.\<close>

definition trapped :: "fs_env \<Rightarrow> path \<Rightarrow> tree \<Rightarrow> bool" where
  "trapped E dir t \<longleftrightarrow> LoadDir E (live_dir dir) t = Panic \<and> map_of t (live_dir dir @ [DefaultProfile @ ''.yaml'']) \<noteq> None"

lemma trapped_Bootstrap: "trapped E dir t \<Longrightarrow> Bootstrap E (Some dir) t s = Panic"
  by (simp add: trapped_def Bootstrap_def os_stat_def ReloadFrom_def)

lemma activate_Panic:
  assumes "activate E F dir lived t s = (Panic, t', s')" and "tree_ok t"
    and "map_of t (live_dir dir @ [DefaultProfile @ ''.yaml'']) \<noteq> None"
    and "lived \<Longrightarrow> map_of t (prev_dir dir @ [DefaultProfile @ ''.yaml'']) \<noteq> None"
  shows "trapped (at_step E F 10) dir t' \<or> trapped (at_step E F 13) dir t'"
proof (cases "ReloadFrom (at_step E F 10) (live_dir dir) t s")
  case Panic
  then show ?thesis using assms(1,3) by (auto simp: activate_def trapped_def ReloadFrom_def obind_Panic)
next
  case (Err e)
  let ?t = "RemoveAll (F 11) (live_dir dir) t"
  obtain t2 where l: lived and t2: "Rename (F 12) (prev_dir dir) (live_dir dir) ?t = Ok t2"
    and r: "ReloadFrom (at_step E F 13) (live_dir dir) t2 s = Panic" "t' = t2"
    using assms(1) Err by (auto simp: activate_def Let_def split: if_splits outcome.splits)
  have ok: "tree_ok ?t" using assms(2) by (rule RemoveAll_ok) simp
  have "apart (prev_dir dir) (live_dir dir)" by simp
  then have "subtree (live_dir dir) t2 = subtree (prev_dir dir) t"
    using Rename_subtree(2) [OF t2 ok] RemoveAll_subtree by simp
  then have "map_of t2 (live_dir dir @ [DefaultProfile @ ''.yaml'']) \<noteq> None"
    using assms(4) [OF l] unfolding subtree_def by metis
  then show ?thesis using r by (auto simp: trapped_def ReloadFrom_def obind_Panic)
qed (use assms(1) in \<open>simp add: activate_def\<close>)

lemma default_node:
  assumes "subtree p t = generation_node now m bodies" and "map_of (mf_Profiles m) DefaultProfile = Some (x # xs)"
  shows "map_of t (p @ [DefaultProfile @ ''.yaml'']) \<noteq> None"
proof -
  have "generation_node now m bodies [DefaultProfile @ ''.yaml''] \<noteq> None"
    using assms(2) cut_suffix [of DefaultProfile "''.yaml''"] by simp
  then show ?thesis using assms(1) unfolding subtree_def by metis
qed

lemma promote_Panic:
  assumes "promote E F dir lived t s = (Panic, t', s')" and "tree_ok t"
    and "map_of t (next_dir dir @ [DefaultProfile @ ''.yaml'']) \<noteq> None"
    and "lived \<Longrightarrow> map_of t (prev_dir dir @ [DefaultProfile @ ''.yaml'']) \<noteq> None"
  shows "trapped (at_step E F 10) dir t' \<or> trapped (at_step E F 13) dir t'"
proof -
  obtain t1 where t1: "Rename (F 7) (next_dir dir) (live_dir dir) t = Ok t1"
    and a: "activate E F dir lived t1 s = (Panic, t', s')"
    using assms(1) by (auto simp: promote_def Let_def split: outcome.splits)
  have ne: "next_dir dir \<noteq> live_dir dir" by simp
  note R = Rename_subtree [OF t1 assms(2) ne]
  have "subtree (prev_dir dir) t1 = subtree (prev_dir dir) t" by (rule R(4)) simp_all
  then have "lived \<Longrightarrow> map_of t1 (prev_dir dir @ [DefaultProfile @ ''.yaml'']) \<noteq> None"
    using assms(4) unfolding subtree_def by metis
  moreover have "map_of t1 (live_dir dir @ [DefaultProfile @ ''.yaml'']) \<noteq> None"
    using R(2) assms(3) unfolding subtree_def by metis
  ultimately show ?thesis using activate_Panic [OF a R(1)] by blast
qed

lemma park_Panic:
  assumes "park E F dir t s = (Panic, t', s')" and "tree_ok t" and "map_of t dir = Some Dir"
    and "map_of t (next_dir dir @ [DefaultProfile @ ''.yaml'']) \<noteq> None"
    and "map_of t (live_dir dir) \<noteq> None \<Longrightarrow> map_of t (live_dir dir @ [DefaultProfile @ ''.yaml'']) \<noteq> None"
  shows "trapped (at_step E F 10) dir t' \<or> trapped (at_step E F 13) dir t'"
proof -
  let ?t = "RemoveAll (F 4) (prev_dir dir) t"
  note K = park_cases [where F = F, OF assms(2,3) refl]
  have next1: "map_of ?t (next_dir dir @ [DefaultProfile @ ''.yaml'']) \<noteq> None"
    using K(4) assms(4) unfolding subtree_def by metis
  show ?thesis
  proof (cases "Rename (F 5) (live_dir dir) (prev_dir dir) ?t")
    case (Ok t2)
    note P = park_renamed [where F = F, OF Ok K(1,2)]
    have pr: "promote E F dir True t2 s = (Panic, t', s')" using assms(1) Ok by (simp add: park_def Let_def)
    have "map_of t (live_dir dir) \<noteq> None" using P(3,5) K(3) by (simp add: subtree_root)
    then have "map_of t (live_dir dir @ [DefaultProfile @ ''.yaml'']) \<noteq> None" by (rule assms(5))
    then have "map_of t2 (prev_dir dir @ [DefaultProfile @ ''.yaml'']) \<noteq> None"
      using P(3) K(3) unfolding subtree_def by metis
    moreover have "map_of t2 (next_dir dir @ [DefaultProfile @ ''.yaml'']) \<noteq> None"
      using P(6) next1 unfolding subtree_def by metis
    ultimately show ?thesis using promote_Panic [OF pr P(1)] by blast
  next
    case (Err x)
    have "promote E F dir False ?t s = (Panic, t', s')"
      using assms(1) Err by (cases x) (simp_all add: park_def Let_def)
    from promote_Panic [OF this K(1) next1] show ?thesis by simp
  next
    case Panic
    then show ?thesis by (simp add: Rename_def split: if_splits option.splits node.splits)
  qed
qed

lemma Apply_Panic:
  assumes "Apply E F now dir m bodies t s = (Panic, t', s')" and "tree_ok t" and "names_plain m" and "single_files m"
    and "map_of (mf_Profiles m) DefaultProfile \<noteq> None" and "\<not> F 1 (RemoveCall (next_dir dir))"
    and "map_of t (live_dir dir) \<noteq> None \<Longrightarrow> map_of t (live_dir dir @ [DefaultProfile @ ''.yaml'']) \<noteq> None"
  shows "trapped (at_step E F 10) dir t' \<or> trapped (at_step E F 13) dir t'"
proof (cases "MkdirAll (F 0) dir t")
  case None
  then show ?thesis using assms(1) by (simp add: Apply_def)
next
  case (Some t1)
  obtain r t2 where w: "write_tree (F 2) now (next_dir dir) m bodies (RemoveAll (F 1) (next_dir dir) t1) = (r, t2)"
    by fastforce
  note A = Apply_stages [where F = F, OF Some assms(2,3) w]
  have "r \<noteq> Panic" using write_tree_no_panic [of "F 2" now "next_dir dir" m bodies] w assms(4)
    by (fastforce simp: single_files_def)
  then have r: "r = Ok ()" and p: "park E F dir t2 s = (Panic, t', s')"
    using assms(1) Some w by (auto simp: Apply_def Let_def split: outcome.splits)
  have "DefaultProfile \<in> fst ` set (mf_Profiles m)" using assms(5) by (simp add: map_of_eq_None_iff)
  from default_node [OF A(4) [OF r assms(6)] single_file [OF assms(4) this]]
  have next2: "map_of t2 (next_dir dir @ [DefaultProfile @ ''.yaml'']) \<noteq> None" .
  have "map_of t2 (live_dir dir @ [DefaultProfile @ ''.yaml'']) \<noteq> None" if "map_of t2 (live_dir dir) \<noteq> None"
    using assms(7) A(3) that unfolding subtree_def by (metis append.right_neutral)
  with park_Panic [OF p A(1,2) next2] show ?thesis by blast
qed

end
