(* ===== verification/Desired_Claims.thy ===== *)
theory Desired_Claims
  imports Desired_Runs Store_Claims
begin

text \<open>The properties of the generations the controller publishes, \<open>internal/desired\<close>.\<close>

section \<open>A small generation\<close>

definition no_faults :: "nat \<Rightarrow> os_faults" where
  "no_faults = (\<lambda>_ _. False)"

definition one_file :: "string \<Rightarrow> cfile list" where
  "one_file tx = [\<lparr>fi_Name = ProfileFile, fi_Text = tx\<rparr>]"

definition hash_name :: string where
  "hash_name = ''sha256:'' @ replicate 64 CHR ''0''"

definition gen_a :: manifest where
  "gen_a = \<lparr>mf_V = 1, mf_Rev = 7, mf_ConfigHash = [],
     mf_Profiles = [(''default'', one_file ''x''), (''list'', one_file hash_name)], mf_Lists = [], mf_Settings = None\<rparr>"

definition gen_b :: manifest where
  "gen_b = \<lparr>mf_V = 1, mf_Rev = 7, mf_ConfigHash = [],
     mf_Profiles = [(''default'', one_file ''x'')], mf_Lists = [(ProfileFile, hash_name)], mf_Settings = None\<rparr>"

definition demo_json :: "string \<Rightarrow> manifest option" where
  "demo_json raw = (if raw = ''a'' then Some gen_a else if raw = ''b'' then Some gen_b else None)"

definition demo_gens :: "go_lib \<Rightarrow> desired_env" where
  "demo_gens L = \<lparr>dx_fs = demo_env\<lparr>fx_lib := L\<rparr>, dx_json = demo_json, dx_level = (\<lambda>_. Some 0)\<rparr>"

lemma demo_maps: "json_maps (demo_gens L)"
  by (auto simp: json_maps_def demo_gens_def demo_json_def gen_a_def gen_b_def split: if_splits)

lemma demo_checks:
  "mf_V gen_a = 1 \<and> mf_Rev gen_a = 7 \<and> map_of (mf_Profiles gen_a) DefaultProfile \<noteq> None \<and>
   first_bad profile_bad (mf_Profiles gen_a) = None \<and> first_bad list_bad (mf_Lists gen_a) = None \<and>
   mf_Settings gen_a = None \<and> mf_ConfigHash gen_a = []"
  "mf_V gen_b = 1 \<and> mf_Rev gen_b = 7 \<and> map_of (mf_Profiles gen_b) DefaultProfile \<noteq> None \<and>
   first_bad profile_bad (mf_Profiles gen_b) = None \<and> first_bad list_bad (mf_Lists gen_b) = None \<and>
   mf_Settings gen_b = None \<and> mf_ConfigHash gen_b = []"
  by code_simp+

lemma demo_parse:
  "mf_Parse (demo_gens L) ''a'' =
     Ok (gen_a\<lparr>mf_Settings := None, mf_ConfigHash := HashLists L (mf_Profiles gen_a) (mf_Lists gen_a) None\<rparr>)"
  "mf_Parse (demo_gens L) ''b'' =
     Ok (gen_b\<lparr>mf_Settings := None, mf_ConfigHash := HashLists L (mf_Profiles gen_b) (mf_Lists gen_b) None\<rparr>)"
  using demo_checks
  by (simp_all add: mf_Parse_def demo_gens_def demo_json_def parse_checked_def Let_def se_validate_def)

section \<open>The hash of a generation\<close>

text \<open>C28: two manifests that parse have the same configuration hash exactly when they name the same
  profiles with the same texts, the same lists with the same hashes and the same log level, provided
  SHA-256 does not collide on their two inputs, no part holds a NUL byte and no list is called
  \<open>profile.yaml\<close>.\<close>

theorem config_hash_exact:
  assumes "mf_Parse D raw = Ok m" and "mf_Parse D raw' = Ok m'" and "json_maps D"
    and "plain_parts m" and "plain_parts m'"
    and "sha256_hex (fx_lib (dx_fs D)) (gen_input m) = sha256_hex (fx_lib (dx_fs D)) (gen_input m') \<Longrightarrow>
      gen_input m = gen_input m'"
  shows "mf_ConfigHash m = mf_ConfigHash m' \<longleftrightarrow> same_generation m m'"
proof -
  note P = mf_Parse_ok [OF assms(1,3)] and P' = mf_Parse_ok [OF assms(2,3)]
  have "single_files m" "single_files m'" unfolding single_files_def using P(4) P'(4) by blast+
  then have "gen_input m = gen_input m' \<longleftrightarrow> same_generation m m'"
    using gen_input_inj assms(4,5) same_generation_input P(1) P'(1) by blast
  moreover have "mf_ConfigHash m = mf_ConfigHash m' \<longleftrightarrow> gen_input m = gen_input m'"
    using P(6) P'(6) assms(6) by (auto simp: HashLists_def gen_input_def)
  ultimately show ?thesis by simp
qed

lemma demo_plain_a:
  "plain_parts (gen_a\<lparr>mf_Settings := None, mf_ConfigHash := h\<rparr>)"
  by (auto simp: plain_parts_def triples_def profile_triples_def list_triples_def settings_triples_def
      mf_Names_def text_of_def gen_a_def one_file_def hash_name_def no_nul_def)

theorem config_hash_exact_witness:
  "\<exists>m. mf_Parse (demo_gens ascii_lib) ''a'' = Ok m \<and>
     (mf_ConfigHash m = mf_ConfigHash m \<longleftrightarrow> same_generation m m)"
  using demo_parse(1) [of ascii_lib] config_hash_exact [OF demo_parse(1) demo_parse(1) demo_maps demo_plain_a demo_plain_a]
  by blast

text \<open>C40: the hash does not separate every two manifests. A profile called \<open>list\<close> whose text is a
  hash and a static list called \<open>profile.yaml\<close> with that hash are fed to it as the same bytes: two
  different manifests of the same revision are accepted with the same hash, whatever the hash
  function, so the second is taken as already applied.\<close>

theorem config_hash_ambiguous:
  "\<exists>m m'. mf_Parse (demo_gens L) ''a'' = Ok m \<and> mf_Parse (demo_gens L) ''b'' = Ok m' \<and>
     mf_ConfigHash m = mf_ConfigHash m' \<and> mf_Rev m = mf_Rev m' \<and> \<not> same_generation m m' \<and>
     handle (demo_gens L) F now dir blobs ''b''
       (d\<lparr>de_applied := ap_set (mf_ConfigHash m) (mf_Rev m) ApplyOK (mf_Names m) a\<rparr>) =
     Ok (False, d\<lparr>de_applied := ap_set (mf_ConfigHash m) (mf_Rev m) ApplyOK (mf_Names m) a\<rparr>)"
proof -
  have "hash_input (mf_Profiles gen_a) (mf_Lists gen_a) None = hash_input (mf_Profiles gen_b) (mf_Lists gen_b) None"
    by code_simp
  then have h: "HashLists L (mf_Profiles gen_a) (mf_Lists gen_a) None =
      HashLists L (mf_Profiles gen_b) (mf_Lists gen_b) None" by (simp add: HashLists_def)
  let ?a = "gen_a\<lparr>mf_Settings := None, mf_ConfigHash := HashLists L (mf_Profiles gen_a) (mf_Lists gen_a) None\<rparr>"
  let ?b = "gen_b\<lparr>mf_Settings := None, mf_ConfigHash := HashLists L (mf_Profiles gen_b) (mf_Lists gen_b) None\<rparr>"
  have "map_of (mf_Lists ?a) ProfileFile \<noteq> map_of (mf_Lists ?b) ProfileFile" by (simp add: gen_a_def gen_b_def)
  then have "\<not> same_generation ?a ?b" unfolding same_generation_def by metis
  moreover have "mf_Rev ?a = mf_Rev ?b" by (simp add: gen_a_def gen_b_def)
  ultimately show ?thesis
    using demo_parse [of L] h by (intro exI [of _ ?a] exI [of _ ?b]) (auto simp: handle_def ap_Snapshot_def ap_set_def)
qed

section \<open>Applying a generation\<close>

text \<open>Texts of profiles: \<open>good\<close> loads, \<open>typo\<close> refers through a condition to one that is not declared,
  anything else is not YAML.\<close>

definition typo_profile :: fileProfile where
  "typo_profile = \<lparr>fp_mode = [], fp_conditions = [row_is ''a'' ''b'', row_is ''b'' ''zzz''], fp_rules = []\<rparr>"

definition demo_yaml :: "string \<Rightarrow> fileProfile option" where
  "demo_yaml raw = (if raw = ''good'' then Some sample_profile else if raw = ''typo'' then Some typo_profile else None)"

definition live_env :: fs_env where
  "live_env = \<lparr>fx_lib = ascii_lib, fx_yaml = demo_yaml, fx_fails = (\<lambda>_. False)\<rparr>"

definition live_tree :: tree where
  "live_tree =
     [([], Dir), ([''data''], Dir), ([''data'', ''profiles''], Dir),
      ([''data'', ''profiles'', ''default.yaml''], File ''good'' 1)]"

definition empty_store :: store where
  "empty_store = \<lparr>so_dir = [], so_print = None, so_current = [], so_hooked = True, so_seen = []\<rparr>"

definition gen_of :: "string \<Rightarrow> manifest" where
  "gen_of tx = \<lparr>mf_V = 1, mf_Rev = 2, mf_ConfigHash = [], mf_Profiles = [(''default'', one_file tx)],
     mf_Lists = [], mf_Settings = None\<rparr>"

lemma live_tree_ok: "tree_ok live_tree"
  by (auto simp: tree_ok_def live_tree_def split: if_splits)

lemma gen_of_plain: "names_plain (gen_of tx)"
  by (simp add: names_plain_def gen_of_def plain_name_def)

text \<open>C7: when a generation cannot be applied, whichever call was refused and whatever was wrong with
  it, the live directory holds afterwards exactly what it held before, provided the calls that undo
  (renaming the previous tree back, removing the rejected one) are not refused themselves; and the
  store serves what it served, or what that directory loads to.\<close>

theorem Apply_rollback:
  assumes "Apply E F now dir m bodies t s = (Err e, t', s')" and "tree_ok t" and "names_plain m"
    and "\<not> F 8 (RenameCall (prev_dir dir) (live_dir dir))" and "\<not> F 11 (RemoveCall (live_dir dir))"
    and "\<not> F 12 (RenameCall (prev_dir dir) (live_dir dir))"
  shows "subtree (live_dir dir) t' = subtree (live_dir dir) t \<and>
    (so_current s' = so_current s \<or> LoadDir (at_step E F 13) (live_dir dir) t' = Ok (so_current s'))"
  using Apply_Err [OF assms] .

theorem Apply_rollback_witness:
  "\<exists>e t' s'. Apply live_env no_faults 5 [''data''] (gen_of ''bad'') [] live_tree empty_store = (Err e, t', s') \<and>
     subtree [''data'', ''profiles''] t' = subtree [''data'', ''profiles''] live_tree"
proof -
  have "case Apply live_env no_faults 5 [''data''] (gen_of ''bad'') [] live_tree empty_store of
      (Err e, _) \<Rightarrow> True | _ \<Rightarrow> False" by code_simp
  then obtain e t' s' where
    a: "Apply live_env no_faults 5 [''data''] (gen_of ''bad'') [] live_tree empty_store = (Err e, t', s')"
    by (auto split: prod.splits outcome.splits)
  from Apply_rollback [OF a live_tree_ok gen_of_plain] a show ?thesis by (auto simp: no_faults_def)
qed


definition live_gens :: desired_env where
  "live_gens = \<lparr>dx_fs = live_env, dx_json = (\<lambda>raw. Some (gen_of raw)), dx_level = (\<lambda>_. Some 0)\<rparr>"


lemma live_maps: "json_maps live_gens"
  by (simp add: json_maps_def live_gens_def gen_of_def)




text \<open>C36: a generation whose loading panics stays live. The panic is not recovered and ends the
  process, after the tree was promoted; when the process starts again, \<open>Bootstrap\<close> finds the default
  profile and loads the same tree, and panics again.\<close>

theorem Apply_crash_loop:
  assumes "mf_Parse D raw = Ok m" and "json_maps D" and "tree_ok t"
    and "Apply (dx_fs D) F now dir m bodies t s = (Panic, t', s')" and "\<not> F 1 (RemoveCall (next_dir dir))"
    and "map_of t (live_dir dir) \<noteq> None \<Longrightarrow> map_of t (live_dir dir @ [DefaultProfile @ ''.yaml'']) \<noteq> None"
  shows "\<exists>i. \<forall>s0. Bootstrap (at_step (dx_fs D) F i) (Some dir) t' s0 = Panic"
proof -
  note P = mf_Parse_ok [OF assms(1,2)]
  have "single_files m" unfolding single_files_def using P(4) by blast
  from Apply_Panic [OF assms(4,3) P(1) this P(3) assms(5,6)] show ?thesis
    using trapped_Bootstrap by blast
qed

theorem Apply_crash_loop_witness:
  "\<exists>m t' s'. mf_Parse live_gens ''typo'' = Ok m \<and>
     Apply live_env no_faults 5 [''data''] m [] live_tree empty_store = (Panic, t', s') \<and>
     Bootstrap live_env (Some [''data'']) t' empty_store = Panic"
proof -
  have p: "case mf_Parse live_gens ''typo'' of Ok m \<Rightarrow>
      (case Apply (dx_fs live_gens) no_faults 5 [''data''] m [] live_tree empty_store of (Panic, _) \<Rightarrow> True | _ \<Rightarrow> False)
    | _ \<Rightarrow> False" by code_simp
  then obtain m where m: "mf_Parse live_gens ''typo'' = Ok m" by (cases "mf_Parse live_gens ''typo''") auto
  obtain r t' s' where r: "Apply (dx_fs live_gens) no_faults 5 [''data''] m [] live_tree empty_store = (r, t', s')"
    by (metis prod_cases3)
  then have a: "Apply (dx_fs live_gens) no_faults 5 [''data''] m [] live_tree empty_store = (Panic, t', s')"
    using p m by (cases r) auto
  have "map_of live_tree (live_dir [''data''] @ [DefaultProfile @ ''.yaml'']) \<noteq> None" by (simp add: live_tree_def)
  from Apply_crash_loop [OF m live_maps live_tree_ok a _ this]
  obtain i where "Bootstrap (at_step (dx_fs live_gens) no_faults i) (Some [''data'']) t' empty_store = Panic"
    by (auto simp: no_faults_def)
  moreover have "at_step (dx_fs live_gens) no_faults i = live_env"
    by (simp add: live_gens_def live_env_def no_faults_def)
  ultimately show ?thesis using m a by (auto simp: live_gens_def)
qed

text \<open>A name the loader skips is accepted, reported as applied and never served.\<close>

definition gen_hidden :: manifest where
  "gen_hidden = (gen_of ''good'')\<lparr>mf_Profiles := [(''default'', one_file ''good''), (''_shop'', one_file ''good'')]\<rparr>"

lemma hidden_profile:
  "case mf_Parse (live_gens\<lparr>dx_json := \<lambda>_. Some gen_hidden\<rparr>) [] of Ok m \<Rightarrow>
     (case Apply live_env no_faults 5 [''data''] m [] live_tree empty_store of
        (Ok _, _, s) \<Rightarrow> mf_Names m = [''_shop'', ''default''] \<and> Names (so_current s) = [''default'']
      | _ \<Rightarrow> False)
   | _ \<Rightarrow> False"
  by code_simp

end
