(* ===== verification/Inspector.thy ===== *)
theory Inspector
  imports Handler Mirror Desired
begin

text \<open>
  How the parts are put together (\<open>cmd/inspector/main.go\<close>): the start-up with its early returns, the hook
  that makes the mirror follow the lists of every snapshot, the heartbeat; and the probe
  (\<open>cmd/probe/main.go\<close>). What the constructors of other packages answer is the record \<open>outside\<close>.
\<close>

section \<open>Start-up\<close>

record outside =
  xt_bus :: bool
  xt_redis :: "string \<Rightarrow> store_ops option"
  xt_ping :: bool
  xt_blobs :: "string \<Rightarrow> bool"
  xt_listen :: "string \<Rightarrow> bool"
  xt_geo :: bool
  xt_subscribe :: bool
  xt_limits :: "int \<Rightarrow> int \<Rightarrow> bool"

datatype start_err =
    ProfilesErr load_err | BusDown | ObjectStoreURL | ObjectStoreDown | InternalBad | GeoBad | SubscribeBad | LimitsBad

text \<open>The store of the objects, none when it is not configured.\<close>

definition bodyLoader :: "config \<Rightarrow> outside \<Rightarrow> (start_err, store_ops option) outcome" where
  "bodyLoader cfg x =
     (if cf_RedisURL cfg = [] then Ok None
      else case xt_redis x (cf_RedisURL cfg) of
        None \<Rightarrow> Err ObjectStoreURL
      | Some st \<Rightarrow> if \<not> xt_ping x then Err ObjectStoreDown else Ok (Some st))"

text \<open>The hook of the store: every dynamic list of the snapshot is followed. \<open>listen\<close> says for which
  lists the subscription succeeds.\<close>

definition follow_lists :: "(string \<Rightarrow> bool) \<Rightarrow> int \<Rightarrow> profiles \<Rightarrow> mirror \<Rightarrow> mirror" where
  "follow_lists listen now ps m = foldl (\<lambda>m name. Ensure name now (listen name) m) m (snapshot_Datasets ps)"

record inspector =
  ip_store :: store
  ip_mirror :: mirror
  ip_pool :: pool
  ip_objects :: "store_ops option"
  ip_blobs :: bool
  ip_geo :: bool

definition dir_of :: "string \<Rightarrow> path" where
  "dir_of s = path_join [] s"

definition data_dir :: "config \<Rightarrow> path option" where
  "data_dir cfg = (if cf_DataDir cfg = [] then None else Some (dir_of (cf_DataDir cfg)))"

definition inspector_start ::
  "fs_env \<Rightarrow> tree \<Rightarrow> config \<Rightarrow> outside \<Rightarrow> int \<Rightarrow> (start_err, inspector) outcome" where
  "inspector_start E t cfg x now =
     obind (map_err ProfilesErr (NewStore E (dir_of (cf_ProfilesDir cfg)) t)) (\<lambda>s.
     obind (map_err (\<lambda>_. BusDown) (Bootstrap E (data_dir cfg) t s)) (\<lambda>(restored, s).
     if \<not> xt_bus x then Err BusDown
     else obind (bodyLoader cfg x) (\<lambda>objects.
       if cf_InternalURL cfg \<noteq> [] \<and> \<not> xt_blobs x (cf_InternalURL cfg) then Err InternalBad
       else let m = follow_lists (xt_listen x) now (so_current s) new_mirror; s = OnLoad s
       in if cf_GeoAddr cfg \<noteq> [] \<and> \<not> xt_geo x then Err GeoBad
       else if \<not> xt_subscribe x then Err SubscribeBad
       else if \<not> xt_limits x (wrap64 (cf_QueueDepth cfg + cf_Workers cfg + 2)) (8 * 1024 * 1024) then Err LimitsBad
       else Ok \<lparr>ip_store = s, ip_mirror = m,
         ip_pool = New (cf_QueueDepth cfg) (cf_ReserveMS cfg) (cf_MinBudgetMS cfg) (cf_QueueFull cfg),
         ip_objects = objects, ip_blobs = (cf_InternalURL cfg \<noteq> []), ip_geo = (cf_GeoAddr cfg \<noteq> [])\<rparr>)))"

section \<open>Heartbeat\<close>

record beat =
  hb_workers :: int
  hb_depth :: int
  hb_queued :: int
  hb_accepted :: int
  hb_shed :: int
  hb_expired :: int
  hb_config :: "(string \<times> int \<times> string) option"
  hb_profiles :: "string list"

text \<open>\<open>applied\<close> is none when the watch of the key could not be set up.\<close>

definition beat_msg :: "config \<Rightarrow> pool \<Rightarrow> applied option \<Rightarrow> store \<Rightarrow> beat" where
  "beat_msg cfg p a s =
     (let (hash, rv, ap, names) = ap_Snapshot a
      in \<lparr>hb_workers = cf_Workers cfg, hb_depth = cf_QueueDepth cfg, hb_queued = Queued p,
          hb_accepted = pl_Accepted p, hb_shed = pl_Shed p, hb_expired = pl_Expired p,
          hb_config = (if ap \<noteq> [] then Some (hash, rv, ap) else None),
          hb_profiles = (if ap \<noteq> [] then names else Names (so_current s))\<rparr>)"

section \<open>The store and the mirror together\<close>

text \<open>A step of the store that calls the hook is also the step of the mirror that follows the lists of
  the snapshot; the mirror moves on its own otherwise.\<close>

type_synonym lists_sys = "store_sys \<times> mirror"

definition hook_calls :: "store_sys \<Rightarrow> store_sys \<Rightarrow> profiles list" where
  "hook_calls x y = drop (length (so_seen (fst x))) (so_seen (fst y))"

inductive lists_step :: "fs_env \<Rightarrow> lists_sys \<Rightarrow> lists_sys \<Rightarrow> bool" for E where
  in_store: "store_step E x y \<Longrightarrow>
     lists_step E (x, m) (y, foldl (\<lambda>m ps. follow_lists listen now ps m) m (hook_calls x y))"
| in_mirror: "mirror_step m m' \<Longrightarrow> lists_step E (x, m) (x, m')"

inductive lists_reach :: "fs_env \<Rightarrow> lists_sys \<Rightarrow> bool" for E where
  begun: "inspector_start (E\<lparr>fx_fails := f\<rparr>) t cfg x now = Ok ip \<Longrightarrow> lists_reach E ((ip_store ip, WIdle, RIdle), ip_mirror ip)"
| moved: "lists_reach E a \<Longrightarrow> lists_step E a b \<Longrightarrow> lists_reach E b"

text \<open>The handler of a running inspector looks profiles up in the store's snapshot and lists in the mirror.
  One evaluation sees one state of the mirror.\<close>

definition mirror_sets :: "mirror \<Rightarrow> int \<Rightarrow> sets_ops" where
  "mirror_sets m now =
     \<lparr>sets_contains = (\<lambda>n v. mirror_Contains m n v now), sets_contains_addr = (\<lambda>n ip. mirror_ContainsAddr m n ip now)\<rparr>"

definition wired :: "fs_env \<Rightarrow> store \<Rightarrow> mirror \<Rightarrow> int \<Rightarrow> server \<Rightarrow> server" where
  "wired E s m now sv =
     sv\<lparr>sv_lib := fx_lib E, sv_profiles := so_current s, sv_sets := Some (mirror_sets m now)\<rparr>"

section \<open>The probe\<close>

text \<open>\<open>time.Duration.Milliseconds\<close> truncates toward zero; \<open>now\<close> is the time in nanoseconds.\<close>

definition probe_request :: "string \<Rightarrow> string \<Rightarrow> string \<Rightarrow> string \<Rightarrow> string \<Rightarrow> int \<Rightarrow> duration \<Rightarrow> int \<Rightarrow> request" where
  "probe_request name profile uri method phase status timeout now =
     (let (path, args, _) = Cut uri (CHR ''?'')
      in \<lparr>req_v = ProtocolVersion, req_rid = hex_digits 16 now, req_ray = [], req_phase = phase, req_wave = 0,
          req_inspector = name, req_deadline_ms = sgn timeout * (\<bar>timeout\<bar> div 1000000), req_audit_subject = None,
          req_node = ''probe'',
          req_conn = \<lparr>client_ip = ''127.0.0.1'', client_port = 12345, server_ip = ''127.0.0.1'', server_port = 8080,
            conn_tls = None\<rparr>,
          req_http = \<lparr>http_method = method, http_scheme = ''http'', http_host = ''probe.local'', http_uri = path,
            args_size = int (length args), http_version = ''HTTP/1.1''\<rparr>,
          req_vars = None, req_needs = [],
          req_store = \<lparr>store_headers = None, store_args = None, store_body = None\<rparr>,
          req_route = \<lparr>route_server_name = ''probe.local'', route_location = ''/'', route_profile = profile\<rparr>,
          req_score = \<lparr>score_total = 0, score_deny_at = 100\<rparr>, req_prior = [],
          req_response = (if phase = PhaseResponse
            then Some \<lparr>resp_status = status, resp_headers = [], upstream_ms = 0\<rparr> else None),
          req_release = None\<rparr>)"

datatype probe_err = ProbeConnect | ProbeEncode | ProbeNoVerdict | ProbeMalformed | ProbeVerdict string

text \<open>\<open>exchange\<close> is the bus: the reply to a payload, none when there is none in time.\<close>

definition probe_run ::
  "bool \<Rightarrow> (request \<Rightarrow> string option) \<Rightarrow> (string \<Rightarrow> string option) \<Rightarrow> (string \<Rightarrow> reply option) \<Rightarrow>
   request \<Rightarrow> string \<Rightarrow> (probe_err, unit) outcome" where
  "probe_run connected enc_json exchange dec_json req expect =
     (if \<not> connected then Err ProbeConnect
      else case enc_json req of None \<Rightarrow> Err ProbeEncode | Some payload \<Rightarrow>
        (case exchange payload of None \<Rightarrow> Err ProbeNoVerdict | Some data \<Rightarrow>
          (case dec_json data of None \<Rightarrow> Err ProbeMalformed | Some reply \<Rightarrow>
             if expect \<noteq> [] \<and> rep_verdict reply \<noteq> expect then Err (ProbeVerdict (rep_verdict reply))
             else Ok ())))"

definition probe_env :: "(string \<Rightarrow> string option) \<Rightarrow> string \<Rightarrow> string \<Rightarrow> string" where
  "probe_env getenv name def = (case getenv name of Some v \<Rightarrow> if v \<noteq> [] then v else def | None \<Rightarrow> def)"

end
