(* ===== verification/Inspector_Props.thy ===== *)
theory Inspector_Props
  imports Inspector Store_Props
begin

text \<open>
  The mirror as the hook of the store uses it: a locale states what the hook relies on (a list that
  was asked for is followed, and none is forgotten), the mirror's \<open>Ensure\<close> is shown to keep it, and the
  invariant of the store and the mirror together rests on it.
\<close>

section \<open>The interface of the hook\<close>

locale list_follower =
  fixes ensure :: "'e \<Rightarrow> string \<Rightarrow> 'm \<Rightarrow> 'm"
    and knows :: "'m \<Rightarrow> string \<Rightarrow> bool"
  assumes ensure_knows: "name \<noteq> [] \<Longrightarrow> knows (ensure e name m) name"
    and ensure_keeps: "knows m n \<Longrightarrow> knows (ensure e name m) n"
begin

lemma ensure_all_keeps: "knows m n \<Longrightarrow> knows (foldl (\<lambda>m name. ensure (e name) name m) m names) n"
  by (induction names arbitrary: m) (simp_all add: ensure_keeps)

lemma ensure_all_knows:
  "name \<in> set names \<Longrightarrow> name \<noteq> [] \<Longrightarrow> knows (foldl (\<lambda>m name. ensure (e name) name m) m names) name"
proof (induction names arbitrary: m)
  case (Cons x names)
  show ?case
  proof (cases "name = x")
    case True
    then have "knows (ensure (e x) x m) name" using ensure_knows Cons.prems(2) by blast
    then show ?thesis by (simp add: ensure_all_keeps)
  next
    case False
    then show ?thesis using Cons by simp
  qed
qed simp

end

interpretation lf: list_follower "\<lambda>(now, ok) name m. Ensure name now ok m" "\<lambda>m n. map_of (mi_sets m) n \<noteq> None"
  by unfold_locales (auto simp: Ensure_def update_conv' split: prod.splits)

section \<open>Lists and snapshots\<close>

definition followed :: "mirror \<Rightarrow> profiles \<Rightarrow> bool" where
  "followed m ps \<longleftrightarrow> (\<forall>n \<in> set (snapshot_Datasets ps). map_of (mi_sets m) n \<noteq> None)"

definition keeps_sets :: "mirror \<Rightarrow> mirror \<Rightarrow> bool" where
  "keeps_sets m m' \<longleftrightarrow> (\<forall>n. map_of (mi_sets m) n \<noteq> None \<longrightarrow> map_of (mi_sets m') n \<noteq> None)"

lemma keeps_sets_trans: "keeps_sets a b \<Longrightarrow> keeps_sets b c \<Longrightarrow> keeps_sets a c"
  by (simp add: keeps_sets_def)

lemma keeps_sets_refl [simp]: "keeps_sets m m"
  by (simp add: keeps_sets_def)

lemma followed_mono: "followed m ps \<Longrightarrow> keeps_sets m m' \<Longrightarrow> followed m' ps"
  by (simp add: followed_def keeps_sets_def)

lemma keeps_change [simp]: "keeps_sets m (change_set name s m)"
  by (simp add: keeps_sets_def change_set_def update_conv')

lemma Ensure_keeps: "keeps_sets m (Ensure name now ok m)"
  using lf.ensure_keeps [of m _ "(now, ok)" name] by (simp add: keeps_sets_def)

lemma datasets_named: "n \<in> set (snapshot_Datasets ps) \<Longrightarrow> n \<noteq> []"
proof -
  have d: "set (append_new xs ys) \<subseteq> set xs \<union> set ys" for xs ys :: "string list"
    by (induction xs ys rule: append_new.induct) (auto split: if_splits)
  assume "n \<in> set (snapshot_Datasets ps)"
  then have "n \<in> set (concat (map (\<lambda>name. Datasets (the (map_of ps name))) (Names ps)))"
    using d unfolding snapshot_Datasets_def by fastforce
  then obtain p where "n \<in> set (Datasets p)" by auto
  then show ?thesis using d unfolding Datasets_def by fastforce
qed

lemma follow_lists_spec:
  "keeps_sets m (follow_lists listen now ps m) \<and> followed (follow_lists listen now ps m) ps"
  using lf.ensure_all_keeps [of m _ "\<lambda>name. (now, listen name)" "snapshot_Datasets ps"]
    lf.ensure_all_knows [of _ "snapshot_Datasets ps" "\<lambda>name. (now, listen name)" m] datasets_named
  by (simp add: follow_lists_def followed_def keeps_sets_def)

lemma follow_all:
  "keeps_sets m (foldl (\<lambda>m ps. follow_lists listen now ps m) m pss) \<and>
   (\<forall>ps \<in> set pss. followed (foldl (\<lambda>m ps. follow_lists listen now ps m) m pss) ps)"
proof (induction pss arbitrary: m)
  case (Cons ps pss)
  let ?m = "follow_lists listen now ps m"
  note IH = Cons.IH [of ?m]
  have "followed (foldl (\<lambda>m ps. follow_lists listen now ps m) ?m pss) ps"
    using follow_lists_spec [of m listen now ps] IH followed_mono by blast
  then show ?case using IH follow_lists_spec [of m listen now ps] keeps_sets_trans by auto
qed simp

lemma mirror_step_keeps: "mirror_step m m' \<Longrightarrow> keeps_sets m m'"
proof (induction rule: mirror_step.induct)
  case (ensure m name now ok)
  show ?case by (rule Ensure_keeps)
next
  case (tick m now)
  show ?case by (simp add: keeps_sets_def map_of_resync)
next
  case (close m)
  show ?case by (simp add: keeps_sets_def mirror_Close_def)
qed simp_all

text \<open>The snapshot that is current was given to the hook, or its goroutine is about to give it.\<close>

fun hook_due :: "store_sys \<Rightarrow> bool" where
  "hook_due (s, w, r) \<longleftrightarrow> so_hooked s \<and>
     (so_current s \<in> set (so_seen s) \<or> w = WHook (so_current s) \<or> r = RHook (so_current s))"

lemma watch_step_hook:
  assumes "watch_step E t (w, s) = Ok (w', s')" and "hook_due (s, w, r)"
  shows "hook_due (s', w', r) \<and> (\<exists>ns. so_seen s' = so_seen s @ ns)"
  using assms by (cases w) (auto split: option.splits if_splits outcome.splits)

lemma reload_step_hook:
  assumes "reload_step E t (r, s) = Ok (r', s')" and "hook_due (s, w, r)"
  shows "hook_due (s', w, r') \<and> (\<exists>ns. so_seen s' = so_seen s @ ns)"
  using assms by (cases r) (auto simp: obind_Ok split: if_splits)

lemma store_step_hook:
  assumes "store_step E x y" and "hook_due x"
  shows "hook_due y \<and> (\<exists>ns. so_seen (fst y) = so_seen (fst x) @ ns)"
  using assms
proof (cases rule: store_step.cases)
  case (watch f t w s w' s' r)
  then show ?thesis using watch_step_hook assms(2) by fastforce
next
  case (reload f t r s r' s' w)
  then show ?thesis using reload_step_hook assms(2) by fastforce
next
  case (refused f t r s e w)
  then show ?thesis using assms(2) by (cases r) auto
qed auto

definition lists_inv :: "lists_sys \<Rightarrow> bool" where
  "lists_inv a \<longleftrightarrow> hook_due (fst a) \<and> (\<forall>ps \<in> set (so_seen (fst (fst a))). followed (snd a) ps)"

lemma lists_step_inv:
  assumes "lists_step E a b" and "lists_inv a"
  shows "lists_inv b"
  using assms
proof (cases rule: lists_step.cases)
  case (in_store x y m listen now)
  have "hook_due x" using assms(2) in_store(1) by (simp add: lists_inv_def)
  from store_step_hook [OF in_store(3) this] obtain ns
    where due: "hook_due y" and ns: "so_seen (fst y) = so_seen (fst x) @ ns" by blast
  let ?m = "foldl (\<lambda>m ps. follow_lists listen now ps m) m ns"
  have b: "b = (y, ?m)" using in_store(2) ns by (simp add: hook_calls_def)
  have "followed m ps" if "ps \<in> set (so_seen (fst x))" for ps
    using assms(2) in_store(1) that by (simp add: lists_inv_def)
  then have "followed ?m ps" if "ps \<in> set (so_seen (fst y))" for ps
    using follow_all [of m listen now ns] followed_mono ns that by auto
  then show ?thesis using b due by (simp add: lists_inv_def)
next
  case (in_mirror m m' x)
  then show ?thesis using assms(2) followed_mono mirror_step_keeps by (auto simp: lists_inv_def)
qed

lemma inspector_start_Ok:
  assumes "inspector_start E t cfg x now = Ok ip"
  shows "\<exists>s b s'. NewStore E (dir_of (cf_ProfilesDir cfg)) t = Ok s \<and> Bootstrap E (data_dir cfg) t s = Ok (b, s') \<and>
    ip_store ip = OnLoad s' \<and> ip_mirror ip = follow_lists (xt_listen x) now (so_current s') new_mirror \<and>
    ip_pool ip = New (cf_QueueDepth cfg) (cf_ReserveMS cfg) (cf_MinBudgetMS cfg) (cf_QueueFull cfg)"
  using assms by (auto simp: inspector_start_def obind_Ok map_err_Ok Let_def split: if_splits)

lemma unhooked_start:
  assumes "NewStore E dir t = Ok s" and "Bootstrap E d t s = Ok (b, s')"
  shows "so_seen s' = []"
proof -
  have s: "so_seen s = []" "\<not> so_hooked s" using assms(1) by (auto simp: NewStore_def obind_Ok)
  have "so_seen s2 = []" if "ReloadFrom E live t s = Ok s2" for live s2
    using that s by (auto simp: ReloadFrom_def obind_Ok swap_def)
  then show ?thesis using assms(2) s by (auto simp: Bootstrap_def Let_def split: option.splits if_splits outcome.splits)
qed

lemma lists_reach_inv: "lists_reach E a \<Longrightarrow> lists_inv a"
proof (induction rule: lists_reach.induct)
  case (begun f t cfg x now ip)
  from inspector_start_Ok [OF begun] obtain s b s' where n: "NewStore (E\<lparr>fx_fails := f\<rparr>) (dir_of (cf_ProfilesDir cfg)) t = Ok s"
    and bo: "Bootstrap (E\<lparr>fx_fails := f\<rparr>) (data_dir cfg) t s = Ok (b, s')" and st: "ip_store ip = OnLoad s'"
    and m: "ip_mirror ip = follow_lists (xt_listen x) now (so_current s') new_mirror" by blast
  have "so_seen s' = []" by (rule unhooked_start [OF n bo])
  then show ?case using follow_lists_spec [of new_mirror "xt_listen x" now "so_current s'"]
    by (simp add: lists_inv_def st m OnLoad_def)
next
  case (moved a b)
  then show ?case using lists_step_inv by blast
qed

end
