(* ===== verification/Queue_Close.thy ===== *)
theory Queue_Close
  imports Queue_Claims
begin

text \<open>
  \<open>Close\<close> of \<open>internal/queue\<close> returns: it waits for the workers and the sweeper, and under a fair
  scheduler all of them stop. Runs are functions from the naturals to states; the work that is left
  to the workers is a measure that no step increases once the pool is closed, and that every step
  of a worker decreases.
\<close>

section \<open>Goroutines keep their role\<close>

definition sweeper :: "thread \<Rightarrow> bool" where
  "sweeper th = (case th of SweepTick \<Rightarrow> True | SweepReply _ \<Rightarrow> True | SweepDone \<Rightarrow> True | _ \<Rightarrow> False)"

lemma worker_simps [simp]:
  "worker WorkPop" "worker WorkSleep" "worker (WorkReply ds u ok)" "worker (WorkRun t)" "worker WorkDone"
  "\<not> worker (SubStart t)" "\<not> worker (SubCollect t)" "\<not> worker (SubReply t ds)" "\<not> worker (SubLock t)"
  "\<not> worker (SubWait t b)" "\<not> worker (SubSleep t b)" "\<not> worker (SubWaitReply t b ds)" "\<not> worker (SubExpire t l)"
  "\<not> worker (SubShed t)" "\<not> worker SubDone" "\<not> worker SweepTick" "\<not> worker (SweepReply ds)" "\<not> worker SweepDone"
  by (simp_all add: worker_def)

lemma sweeper_simps [simp]:
  "\<not> sweeper WorkPop" "\<not> sweeper WorkSleep" "\<not> sweeper (WorkReply ds u ok)" "\<not> sweeper (WorkRun t)" "\<not> sweeper WorkDone"
  "\<not> sweeper (SubStart t)" "\<not> sweeper (SubCollect t)" "\<not> sweeper (SubReply t ds)" "\<not> sweeper (SubLock t)"
  "\<not> sweeper (SubWait t b)" "\<not> sweeper (SubSleep t b)" "\<not> sweeper (SubWaitReply t b ds)" "\<not> sweeper (SubExpire t l)"
  "\<not> sweeper (SubShed t)" "\<not> sweeper SubDone" "sweeper SweepTick" "sweeper (SweepReply ds)" "sweeper SweepDone"
  by (simp_all add: sweeper_def)

lemma sweeper_wake [simp]: "sweeper th \<Longrightarrow> wake th = th" "sweeper (wake th) = sweeper th"
  by (cases th; simp)+

lemma worker_work_next [simp]: "worker (work_next r)" "worker (work_after t ok)"
  by (simp_all add: work_next_def work_after_def split: pop_result.splits option.splits)

lemma worker_not_sweeper: "worker th \<Longrightarrow> \<not> sweeper th"
  by (cases th) simp_all

lemma sweeper_work_next [simp]: "\<not> sweeper (work_next r)" "\<not> sweeper (work_after t ok)"
  by (simp_all add: worker_not_sweeper)

lemma nth_broadcast: "i < length ths \<Longrightarrow> broadcast_if b ths ! i = (if b then wake (ths ! i) else ths ! i)"
  by (simp add: broadcast_if_def)

lemma signalled_nth: "signalled ths ths' \<Longrightarrow> i < length ths \<Longrightarrow> ths' ! i = ths ! i \<or> ths' ! i = wake (ths ! i)"
  by (auto simp: signalled_def nth_list_update split: if_splits)

text \<open>What a step does to the goroutine at one place, when it does not sleep: nothing, or its own step.\<close>

lemma collect_to_threads:
  "sy_threads (collect_to i f now s) =
     (broadcast_if (fst (takeExpiredLocked (sy_pool s) now) \<noteq> []) (sy_threads s))
       [i := f (fst (takeExpiredLocked (sy_pool s) now))]"
  by (simp add: collect_to_def put_def split: prod.splits)

lemma put_threads [simp]: "sy_threads (put i th s) = (sy_threads s)[i := th]" "sy_pool (put i th s) = sy_pool s"
  by (simp_all add: put_def)

lemma accept_threads [simp]: "sy_threads (accept i t p ths s) = ths[i := SubDone]"
  by (simp add: accept_def)

definition same_role :: "thread \<Rightarrow> thread \<Rightarrow> bool" where
  "same_role th th' \<longleftrightarrow> worker th = worker th' \<and> sweeper th = sweeper th'"

definition roles_kept :: "thread list \<Rightarrow> thread list \<Rightarrow> bool" where
  "roles_kept ths ths' \<longleftrightarrow> length ths \<le> length ths' \<and> (\<forall>j < length ths. same_role (ths ! j) (ths' ! j)) \<and>
     (\<forall>j < length ths'. length ths \<le> j \<longrightarrow> \<not> worker (ths' ! j) \<and> \<not> sweeper (ths' ! j))"

lemma roles_update:
  assumes "roles_kept ths ths'" and "length ths' = length ths" and "same_role (ths ! i) th"
  shows "roles_kept ths (ths'[i := th])"
proof -
  have "same_role (ths ! j) (ths'[i := th] ! j)" if "j < length ths" for j
    using assms that by (cases "i = j") (simp_all add: roles_kept_def)
  then show ?thesis using assms(2) by (simp add: roles_kept_def)
qed

lemma roles_same: "roles_kept ths ths" "roles_kept ths (map wake ths)" "roles_kept ths (broadcast_if b ths)"
  by (auto simp: roles_kept_def same_role_def broadcast_if_def)

lemma roles_signalled: "signalled ths ths' \<Longrightarrow> roles_kept ths ths'"
  using signalled_nth [of ths ths'] by (force simp: roles_kept_def same_role_def signalled_length)

lemma roles_step: "step s s' \<Longrightarrow> roles_kept (sy_threads s) (sy_threads s')"
proof (induction rule: step.induct)
  case (submit t s)
  then show ?case by (auto simp: roles_kept_def same_role_def nth_append)
next
  case (sub_lock_enqueue i s t now p' t' ths)
  then show ?case
    using roles_update [OF roles_signalled, of "sy_threads s" ths i SubDone] by (simp add: signalled_length same_role_def)
next
  case (sub_wait_enqueue i s t b now p' ths)
  then show ?case
    using roles_update [OF roles_signalled, of "sy_threads s" ths i SubDone] by (simp add: signalled_length same_role_def)
qed (auto simp: collect_to_threads same_role_def intro!: roles_update roles_same)

section \<open>The work that is left\<close>

fun load :: "thread \<Rightarrow> nat" where
  "load WorkPop = 2"
| "load WorkSleep = 3"
| "load (WorkReply ds u ok) = length ds + (if \<not> ok then 1 else if u = None then 3 else 4)"
| "load (WorkRun t) = 3"
| "load th = 0"

definition work_left :: "system \<Rightarrow> nat" where
  "work_left s = sum_list (map load (sy_threads s)) + 5 * length (pl_q (sy_pool s))"

definition worker_moved :: "system \<Rightarrow> system \<Rightarrow> bool" where
  "worker_moved s s' \<longleftrightarrow> (\<exists>j < length (sy_threads s). worker (sy_threads s ! j) \<and> sy_threads s' ! j \<noteq> sy_threads s ! j)"

definition less_work :: "system \<Rightarrow> system \<Rightarrow> bool" where
  "less_work s s' \<longleftrightarrow> work_left s' < work_left s \<or> work_left s' = work_left s \<and> \<not> worker_moved s s'"

lemma load_other: "\<not> worker th \<Longrightarrow> load th = 0"
  by (cases th) simp_all

lemma worker_wake: "worker th \<Longrightarrow> th \<noteq> WorkSleep \<Longrightarrow> wake th = th"
  by (cases th) simp_all

lemma load_wake: "th \<noteq> WorkSleep \<Longrightarrow> load (wake th) = load th"
  by (cases th) simp_all

lemma sum_load_update:
  "i < length ths \<Longrightarrow> sum_list (map load (ths[i := th])) + load (ths ! i) = sum_list (map load ths) + load th"
proof (induction ths arbitrary: i)
  case (Cons x xs)
  then show ?case by (cases i) auto
qed simp

lemma sum_load_broadcast:
  "WorkSleep \<notin> set ths \<Longrightarrow> sum_list (map load (broadcast_if b ths)) = sum_list (map load ths)"
  by (induction ths) (auto simp: broadcast_if_def load_wake)

lemma nth_broadcast_worker:
  "WorkSleep \<notin> set ths \<Longrightarrow> j < length ths \<Longrightarrow> worker (ths ! j) \<Longrightarrow> broadcast_if b ths ! j = ths ! j"
  by (metis nth_broadcast nth_mem worker_wake)

lemma less_idle:
  assumes "WorkSleep \<notin> set (sy_threads s)" and "i < length (sy_threads s)"
    and "sy_threads s' = (broadcast_if b (sy_threads s))[i := th]"
    and "\<not> worker (sy_threads s ! i)" and "\<not> worker th" and "length (pl_q (sy_pool s')) \<le> length (pl_q (sy_pool s))"
  shows "less_work s s'"
proof -
  let ?ths = "broadcast_if b (sy_threads s)"
  have "load (?ths ! i) = 0" using assms(2,4) by (simp add: nth_broadcast load_other)
  then have "sum_list (map load (sy_threads s')) = sum_list (map load (sy_threads s))"
    using sum_load_update [of i ?ths th] assms by (simp add: load_other sum_load_broadcast)
  moreover have "\<not> worker_moved s s'"
  proof -
    have "sy_threads s' ! j = sy_threads s ! j" if "j < length (sy_threads s)" "worker (sy_threads s ! j)" for j
      using that assms(1,3,4) by (cases "j = i") (simp_all add: nth_broadcast_worker)
    then show ?thesis by (auto simp: worker_moved_def)
  qed
  ultimately show ?thesis using assms(6) by (auto simp: less_work_def work_left_def)
qed

lemma less_busy:
  assumes "WorkSleep \<notin> set (sy_threads s)" and "i < length (sy_threads s)"
    and "sy_threads s' = (broadcast_if b (sy_threads s))[i := th]" and "worker (sy_threads s ! i)"
    and "load th + 5 * length (pl_q (sy_pool s')) < load (sy_threads s ! i) + 5 * length (pl_q (sy_pool s))"
  shows "less_work s s'"
  using sum_load_update [of i "broadcast_if b (sy_threads s)" th] assms
  by (simp add: less_work_def work_left_def sum_load_broadcast nth_broadcast_worker)

lemma less_wake:
  assumes "WorkSleep \<notin> set (sy_threads s)" and "sy_threads s' = broadcast_if b (sy_threads s)"
    and "pl_q (sy_pool s') = pl_q (sy_pool s)"
  shows "less_work s s'"
  using assms by (simp add: less_work_def work_left_def sum_load_broadcast worker_moved_def nth_broadcast_worker)

lemma less_collect:
  assumes "WorkSleep \<notin> set (sy_threads s)" and "i < length (sy_threads s)"
    and "\<not> worker (sy_threads s ! i)" and "\<And>dead. \<not> worker (f dead)"
  shows "less_work s (collect_to i f now s)"
  by (rule less_idle [OF assms(1,2) collect_to_threads assms(3,4)])
    (auto simp: collect_to_def takeExpiredLocked_def)

lemma less_put:
  assumes "WorkSleep \<notin> set (sy_threads s)" and "i < length (sy_threads s)"
    and "\<not> worker (sy_threads s ! i)" and "\<not> worker th" and "sy_threads s1 = sy_threads s" and "pl_q (sy_pool s1) = pl_q (sy_pool s)"
  shows "less_work s (put i th s1)"
  using less_idle [OF assms(1,2) _ assms(3,4), of "put i th s1" False] assms(5,6) by (simp add: broadcast_if_def)

lemma less_timer:
  assumes "WorkSleep \<notin> set (sy_threads s)" and "i < length (sy_threads s)"
    and "\<not> worker (sy_threads s ! i)" and "\<not> worker th"
  shows "less_work s (put i th (s\<lparr>sy_threads := map wake (sy_threads s)\<rparr>))"
  using less_idle [OF assms(1,2) _ assms(3,4), of "put i th (s\<lparr>sy_threads := map wake (sy_threads s)\<rparr>)" True]
  by (simp add: broadcast_if_def)

lemma less_worker_put:
  assumes "WorkSleep \<notin> set (sy_threads s)" and "i < length (sy_threads s)" and "worker (sy_threads s ! i)"
    and "load th < load (sy_threads s ! i)" and "sy_threads s1 = sy_threads s" and "pl_q (sy_pool s1) = pl_q (sy_pool s)"
  shows "less_work s (put i th s1)"
  using less_busy [OF assms(1,2) _ assms(3), of "put i th s1" False th] assms(4-6) by (simp add: broadcast_if_def)

text \<open>A round of \<open>pop\<close> on a closed pool: it never sleeps, and every task it takes pays for its answer.\<close>

lemma pop_round_load:
  assumes "pop_round p now = (r, p')" and "pl_closed p"
  shows "load (work_next r) + 5 * length (pl_q p') < load WorkPop + 5 * length (pl_q p)"
proof -
  let ?dead = "filter (\<lambda>t. leftAt p t now < pl_minBudget p) (pl_q p)"
  let ?rest = "filter (\<lambda>t. \<not> leftAt p t now < pl_minBudget p) (pl_q p)"
  have n: "length ?dead + length ?rest = length (pl_q p)" by (rule sum_length_filter_compl)
  show ?thesis
  proof (cases ?rest)
    case Nil
    then have "r = PopClosed ?dead" "pl_q p' = []"
      using assms by (auto simp: pop_round_def takeExpiredLocked_def)
    then show ?thesis using n Nil by (simp add: work_next_def)
  next
    case (Cons t ts)
    then have "r = Popped t ?dead" "pl_q p' = ts"
      using assms by (auto simp: pop_round_def takeExpiredLocked_def)
    then show ?thesis using n Cons by (simp add: work_next_def)
  qed
qed

lemma load_work_after: "load (work_after u ok) < load (WorkReply [] u ok)"
  by (cases u) (auto simp: work_after_def)

lemma closed_step:
  assumes "step s s'" and "pl_closed (sy_pool s)" and "WorkSleep \<notin> set (sy_threads s)"
  shows "less_work s s'"
  using assms
proof (induction rule: step.induct)
  case (submit t s)
  then show ?case by (simp add: less_work_def work_left_def worker_moved_def nth_append)
next
  case (sub_lock_enqueue i s t now p' t' ths)
  then show ?case using submit_locked_cases [OF sub_lock_enqueue(3)] by simp
next
  case (sub_wait_enqueue i s t b now p' ths)
  then show ?case using wait_round_enqueued [OF sub_wait_enqueue(3)] by simp
next
  case (work_pop i s now r p')
  let ?b = "pop_task r \<noteq> [] \<or> pop_dead r \<noteq> []"
  show ?case
    by (rule less_busy [OF work_pop(5,1), where b = ?b]) (use work_pop pop_round_load [OF work_pop(3,4)] in simp_all)
next
  case (work_run i s t now left shed p')
  then have "pl_q p' = pl_q (sy_pool s)" by (auto simp: budget_def Let_def split: if_splits)
  then show ?case using work_run by (intro less_worker_put) simp_all
next
  case (work_replied i s u ok)
  then show ?case using load_work_after [of u ok] by (intro less_worker_put) simp_all
next
  case (work_reply i s d ds u ok)
  then show ?case by (intro less_worker_put) simp_all
next
  case (close s)
  then show ?case by (intro less_wake [where b = True]) (simp_all add: broadcast_if_def)
next
  case (close_stop s)
  then show ?case by (intro less_wake [where b = False]) (simp_all add: broadcast_if_def)
next
  case (timer_late s)
  then show ?case by (intro less_wake [where b = True]) (simp_all add: broadcast_if_def)
next
  case (timer i s t b)
  then show ?case by (intro less_timer) auto
next
  case (timer_replying i s t b ds)
  then show ?case by (intro less_timer) auto
qed (auto intro!: less_collect less_put)

lemma closed_kept: "step s s' \<Longrightarrow> pl_closed (sy_pool s) \<Longrightarrow> pl_closed (sy_pool s')"
proof (induction rule: step.induct)
  case (work_pop i s now r p')
  then show ?case using pop_round_pool [OF work_pop(3)] by simp
next
  case (work_run i s t now left shed p')
  then show ?case by (auto simp: budget_def Let_def split: if_splits)
next
  case (sub_lock_enqueue i s t now p' t' ths)
  then show ?case using submit_locked_cases [OF sub_lock_enqueue(3)] by simp
next
  case (sub_wait_enqueue i s t b now p' ths)
  then show ?case using wait_round_enqueued [OF sub_wait_enqueue(3)] by simp
qed (auto simp: collect_to_def takeExpiredLocked_def expire_def shedLimit_def)

section \<open>Fair runs\<close>

text \<open>A goroutine can move when some step changes its place; weak fairness: one that can move from
  some moment on does move. \<open>select_fair\<close> is what the language promises of \<open>select\<close> with several
  ready channels: the closed channel of the sweeper is chosen in the end.\<close>

definition run_of :: "(nat \<Rightarrow> system) \<Rightarrow> bool" where
  "run_of \<sigma> \<longleftrightarrow> (\<forall>n. step (\<sigma> n) (\<sigma> (Suc n)))"

definition moves :: "nat \<Rightarrow> system \<Rightarrow> system \<Rightarrow> bool" where
  "moves i s s' \<longleftrightarrow> sy_threads s' ! i \<noteq> sy_threads s ! i"

definition can_move :: "nat \<Rightarrow> system \<Rightarrow> bool" where
  "can_move i s \<longleftrightarrow> (\<exists>s'. step s s' \<and> moves i s s')"

definition weakly_fair :: "(nat \<Rightarrow> system) \<Rightarrow> bool" where
  "weakly_fair \<sigma> \<longleftrightarrow>
     (\<forall>i n. i < length (sy_threads (\<sigma> n)) \<longrightarrow> (\<forall>m \<ge> n. can_move i (\<sigma> m)) \<longrightarrow> (\<exists>m \<ge> n. moves i (\<sigma> m) (\<sigma> (Suc m))))"

definition select_fair :: "(nat \<Rightarrow> system) \<Rightarrow> bool" where
  "select_fair \<sigma> \<longleftrightarrow>
     (\<forall>i. (\<forall>n. \<exists>m \<ge> n. i < length (sy_threads (\<sigma> m)) \<and> sy_threads (\<sigma> m) ! i = SweepTick \<and> pl_stop (sy_pool (\<sigma> m))) \<longrightarrow>
       (\<exists>m. i < length (sy_threads (\<sigma> m)) \<and> sy_threads (\<sigma> m) ! i = SweepDone))"

text \<open>The goroutines \<open>Close\<close> waits for.\<close>

definition waited_done :: "system \<Rightarrow> bool" where
  "waited_done s \<longleftrightarrow> (\<forall>th \<in> set (sy_threads s). (worker th \<longrightarrow> th = WorkDone) \<and> (sweeper th \<longrightarrow> th = SweepDone))"

lemma worker_can_move:
  assumes "i < length (sy_threads s)" and "worker (sy_threads s ! i)"
    and "sy_threads s ! i \<noteq> WorkDone" and "sy_threads s ! i \<noteq> WorkSleep"
  shows "can_move i s"
proof (cases "sy_threads s ! i")
  case WorkPop
  obtain r p' where r: "pop_round (sy_pool s) 0 = (r, p')" by (cases "pop_round (sy_pool s) 0")
  have "work_next r \<noteq> WorkPop" by (simp add: work_next_def split: pop_result.splits)
  then show ?thesis
    using step.work_pop [OF assms(1) WorkPop r] assms(1) WorkPop unfolding can_move_def moves_def by fastforce
next
  case (WorkReply ds u ok)
  show ?thesis
  proof (cases ds)
    case Nil
    have "work_after u ok \<noteq> WorkReply [] u ok" by (simp add: work_after_def split: option.splits)
    then show ?thesis
      using step.work_replied [of i s u ok] assms(1) WorkReply Nil unfolding can_move_def moves_def by fastforce
  next
    case (Cons d ds')
    then show ?thesis
      using step.work_reply [of i s d ds' u ok] assms(1) WorkReply unfolding can_move_def moves_def by fastforce
  qed
next
  case (WorkRun t)
  obtain left shed p' where "budget (sy_pool s) t 0 = ((left, shed), p')" by (metis prod.exhaust)
  from step.work_run [OF assms(1) WorkRun this] show ?thesis
    using assms(1) WorkRun unfolding can_move_def moves_def by fastforce
qed (use assms in simp_all)

lemma sweeper_can_move:
  assumes "i < length (sy_threads s)" and "sy_threads s ! i = SweepReply ds"
  shows "can_move i s"
proof (cases ds)
  case Nil
  then show ?thesis using step.sweep_replied [of i s] assms unfolding can_move_def moves_def by fastforce
next
  case (Cons d ds')
  then show ?thesis using step.sweep_reply [of i s d ds'] assms unfolding can_move_def moves_def by fastforce
qed

text \<open>The steps of the sweeper itself.\<close>

lemma signalled_sweeper: "signalled ths ths' \<Longrightarrow> i < length ths \<Longrightarrow> sweeper (ths ! i) \<Longrightarrow> ths' ! i = ths ! i"
  using signalled_nth by fastforce

definition sweep_next :: "thread \<Rightarrow> thread \<Rightarrow> bool" where
  "sweep_next th th' \<longleftrightarrow> th' = th \<or>
     (case th of SweepTick \<Rightarrow> th' = SweepDone \<or> (\<exists>ds. th' = SweepReply ds)
      | SweepReply [] \<Rightarrow> th' = SweepTick | SweepReply (d # ds) \<Rightarrow> th' = SweepReply ds | _ \<Rightarrow> False)"

lemma sweeper_step:
  "step s s' \<Longrightarrow> i < length (sy_threads s) \<Longrightarrow> sweeper (sy_threads s ! i) \<Longrightarrow>
     sweep_next (sy_threads s ! i) (sy_threads s' ! i)"
proof (induction rule: step.induct)
  case (sub_lock_enqueue j s t now p' t' ths)
  then show ?case by (cases "j = i") (simp_all add: signalled_sweeper sweep_next_def)
next
  case (sub_wait_enqueue j s t b now p' ths)
  then show ?case by (cases "j = i") (simp_all add: signalled_sweeper sweep_next_def)
qed (auto simp: sweep_next_def nth_list_update nth_append collect_to_threads nth_broadcast)

text \<open>Sequences.\<close>

lemma stays:
  assumes "\<not> (\<exists>m \<ge> n. f (Suc m) \<noteq> f m)" and "n \<le> m"
  shows "f m = f n"
  using assms(2) by (induction m rule: dec_induct) (use assms(1) in simp_all)

lemma first_change:
  assumes "\<exists>m \<ge> n. f (Suc m) \<noteq> f m"
  shows "\<exists>m \<ge> n. f m = f n \<and> f (Suc m) \<noteq> f m"
proof -
  obtain m where m: "n \<le> m" "f (Suc m) \<noteq> f m" and least: "\<forall>k. n \<le> k \<and> f (Suc k) \<noteq> f k \<longrightarrow> m \<le> k"
    using ex_has_least_nat [of "\<lambda>m. n \<le> m \<and> f (Suc m) \<noteq> f m" _ "\<lambda>m. m"] assms by blast
  have "j \<le> m \<Longrightarrow> f j = f n" if "n \<le> j" for j
    using that by (induction j rule: dec_induct) (use least not_less_eq_eq in fastforce)+
  then show ?thesis using m by blast
qed

lemma run_roles:
  assumes "run_of \<sigma>" and "n \<le> m"
  shows "length (sy_threads (\<sigma> n)) \<le> length (sy_threads (\<sigma> m)) \<and>
    (\<forall>j < length (sy_threads (\<sigma> n)). same_role (sy_threads (\<sigma> n) ! j) (sy_threads (\<sigma> m) ! j))"
  using assms(2)
proof (induction m rule: dec_induct)
  case base
  show ?case by (simp add: same_role_def)
next
  case (step m)
  have "roles_kept (sy_threads (\<sigma> m)) (sy_threads (\<sigma> (Suc m)))" using assms(1) roles_step by (simp add: run_of_def)
  then show ?case using step.IH by (simp add: roles_kept_def same_role_def)
qed

lemma run_length: "run_of \<sigma> \<Longrightarrow> n \<le> m \<Longrightarrow> i < length (sy_threads (\<sigma> n)) \<Longrightarrow> i < length (sy_threads (\<sigma> m))"
  using run_roles by fastforce

text \<open>A goroutine that could always move if it stayed where it is moves.\<close>

lemma fair_move:
  assumes "run_of \<sigma>" and "weakly_fair \<sigma>" and "i < length (sy_threads (\<sigma> n))"
    and "\<And>m. n \<le> m \<Longrightarrow> sy_threads (\<sigma> m) ! i = sy_threads (\<sigma> n) ! i \<Longrightarrow> can_move i (\<sigma> m)"
  shows "\<exists>m \<ge> n. sy_threads (\<sigma> m) ! i = sy_threads (\<sigma> n) ! i \<and> moves i (\<sigma> m) (\<sigma> (Suc m))"
proof -
  let ?f = "\<lambda>m. sy_threads (\<sigma> m) ! i"
  have "\<exists>m \<ge> n. ?f (Suc m) \<noteq> ?f m"
  proof (rule ccontr)
    assume no: "\<not> (\<exists>m \<ge> n. ?f (Suc m) \<noteq> ?f m)"
    then have "\<forall>m \<ge> n. can_move i (\<sigma> m)" using assms(4) stays [of n ?f] by blast
    then have "\<exists>m \<ge> n. moves i (\<sigma> m) (\<sigma> (Suc m))" using assms(2,3) by (simp add: weakly_fair_def)
    then show False using no by (auto simp: moves_def)
  qed
  from first_change [OF this] show ?thesis by (simp add: moves_def)
qed

section \<open>The goroutines stop\<close>

lemma workers_finish:
  assumes run: "run_of \<sigma>" and fair: "weakly_fair \<sigma>"
    and closed: "\<And>n. n0 \<le> n \<Longrightarrow> pl_closed (sy_pool (\<sigma> n)) \<and> WorkSleep \<notin> set (sy_threads (\<sigma> n))"
  shows "\<exists>n \<ge> n0. \<forall>m \<ge> n. \<forall>i < length (sy_threads (\<sigma> m)). worker (sy_threads (\<sigma> m) ! i) \<longrightarrow> sy_threads (\<sigma> m) ! i = WorkDone"
proof -
  obtain n where n: "n0 \<le> n" and least: "\<forall>k. n0 \<le> k \<longrightarrow> work_left (\<sigma> n) \<le> work_left (\<sigma> k)"
    using ex_has_least_nat [of "\<lambda>n. n0 \<le> n" n0 "\<lambda>n. work_left (\<sigma> n)"] by blast
  have less: "less_work (\<sigma> m) (\<sigma> (Suc m))" if "n \<le> m" for m
    using closed_step closed [of m] run n that by (simp add: run_of_def)
  have same: "work_left (\<sigma> m) = work_left (\<sigma> n)" if "n \<le> m" for m
    using that
  proof (induction m rule: dec_induct)
    case (step m)
    then show ?case using less [of m] least n le_trans [of n0 n "Suc m"] by (auto simp: less_work_def not_less [symmetric])
  qed simp
  have still: "\<not> worker_moved (\<sigma> m) (\<sigma> (Suc m))" if "n \<le> m" for m
    using less [OF that] same [OF that] same [of "Suc m"] that by (simp add: less_work_def)
  have "sy_threads (\<sigma> m) ! i = WorkDone"
    if m: "n \<le> m" and i: "i < length (sy_threads (\<sigma> m))" and w: "worker (sy_threads (\<sigma> m) ! i)" for m i
  proof (rule ccontr)
    assume nd: "sy_threads (\<sigma> m) ! i \<noteq> WorkDone"
    have "can_move i (\<sigma> k)" if k: "m \<le> k" and eq: "sy_threads (\<sigma> k) ! i = sy_threads (\<sigma> m) ! i" for k
    proof (rule worker_can_move)
      show i': "i < length (sy_threads (\<sigma> k))" using run_length [OF run k i] .
      show "sy_threads (\<sigma> k) ! i \<noteq> WorkSleep" using closed [of k] n m k nth_mem [OF i'] by auto
    qed (use w nd eq in simp_all)
    from fair_move [OF run fair i this] obtain k where "m \<le> k"
      "sy_threads (\<sigma> k) ! i = sy_threads (\<sigma> m) ! i" "moves i (\<sigma> k) (\<sigma> (Suc k))" by blast
    then show False
      using still [of k] m w run_length [OF run _ i, of k] by (auto simp: worker_moved_def moves_def)
  qed
  then show ?thesis using n by blast
qed

lemma run_sweep:
  assumes "run_of \<sigma>" and "i < length (sy_threads (\<sigma> n))" and "n \<le> m" and "sy_threads (\<sigma> m) ! i = th" and "sweeper th"
  shows "sweep_next th (sy_threads (\<sigma> (Suc m)) ! i)"
proof -
  have "step (\<sigma> m) (\<sigma> (Suc m))" using assms(1) by (simp add: run_of_def)
  from sweeper_step [OF this run_length [OF assms(1,3,2)]] show ?thesis using assms(4,5) by simp
qed

lemma sweeper_ticks:
  assumes run: "run_of \<sigma>" and fair: "weakly_fair \<sigma>"
  shows "i < length (sy_threads (\<sigma> n)) \<Longrightarrow> sy_threads (\<sigma> n) ! i = SweepReply ds \<Longrightarrow>
    \<exists>m \<ge> n. sy_threads (\<sigma> m) ! i = SweepTick"
proof (induction ds arbitrary: n)
  case Nil
  obtain m where m: "n \<le> m" "sy_threads (\<sigma> m) ! i = SweepReply []" "moves i (\<sigma> m) (\<sigma> (Suc m))"
    using fair_move [OF run fair Nil(1)] sweeper_can_move run_length [OF run _ Nil(1)] Nil(2) by metis
  then have "sy_threads (\<sigma> (Suc m)) ! i = SweepTick"
    using run_sweep [OF run Nil(1) m(1,2)] by (simp add: sweep_next_def moves_def)
  then show ?case using m(1) le_Suc_eq by blast
next
  case (Cons d ds)
  obtain m where m: "n \<le> m" "sy_threads (\<sigma> m) ! i = SweepReply (d # ds)" "moves i (\<sigma> m) (\<sigma> (Suc m))"
    using fair_move [OF run fair Cons(2)] sweeper_can_move run_length [OF run _ Cons(2)] Cons(3) by metis
  then have "sy_threads (\<sigma> (Suc m)) ! i = SweepReply ds"
    using run_sweep [OF run Cons(2) m(1,2)] by (simp add: sweep_next_def moves_def)
  from Cons.IH [OF run_length [OF run _ Cons(2)] this] m(1) show ?case using le_trans le_Suc_eq by meson
qed

lemma sweep_done_stays:
  assumes "run_of \<sigma>" and "i < length (sy_threads (\<sigma> n))" and "sy_threads (\<sigma> n) ! i = SweepDone" and "n \<le> m"
  shows "sy_threads (\<sigma> m) ! i = SweepDone"
  using assms(4)
proof (induction m rule: dec_induct)
  case (step m)
  then show ?case using run_sweep [OF assms(1,2), of m SweepDone] by (simp add: sweep_next_def)
qed (use assms in simp)

lemma sweeper_finishes:
  assumes run: "run_of \<sigma>" and fair: "weakly_fair \<sigma>" and sel: "select_fair \<sigma>"
    and stop: "\<And>n. n0 \<le> n \<Longrightarrow> pl_stop (sy_pool (\<sigma> n))"
    and i: "i < length (sy_threads (\<sigma> n0))" and sw: "sweeper (sy_threads (\<sigma> n0) ! i)"
  shows "\<exists>n \<ge> n0. \<forall>m \<ge> n. sy_threads (\<sigma> m) ! i = SweepDone"
proof (cases "\<exists>m. i < length (sy_threads (\<sigma> m)) \<and> sy_threads (\<sigma> m) ! i = SweepDone")
  case True
  then obtain m where "i < length (sy_threads (\<sigma> m))" "sy_threads (\<sigma> m) ! i = SweepDone" by blast
  then have "\<forall>k \<ge> max m n0. sy_threads (\<sigma> k) ! i = SweepDone" using sweep_done_stays [OF run] by simp
  then show ?thesis using max.cobounded2 by blast
next
  case False
  have "\<exists>m \<ge> n. i < length (sy_threads (\<sigma> m)) \<and> sy_threads (\<sigma> m) ! i = SweepTick \<and> pl_stop (sy_pool (\<sigma> m))" for n
  proof -
    let ?k = "max n n0"
    have k: "i < length (sy_threads (\<sigma> ?k))" "sweeper (sy_threads (\<sigma> ?k) ! i)"
      using run_roles [OF run, of n0 ?k] i sw by (auto simp: same_role_def)
    have "\<exists>m \<ge> ?k. sy_threads (\<sigma> m) ! i = SweepTick"
    proof (cases "sy_threads (\<sigma> ?k) ! i")
      case (SweepReply ds)
      from sweeper_ticks [OF run fair k(1) this] show ?thesis .
    next
      case SweepTick
      then show ?thesis by blast
    qed (use k False in auto)
    then obtain m where m: "?k \<le> m" "sy_threads (\<sigma> m) ! i = SweepTick" by blast
    then show ?thesis using run_length [OF run m(1) k(1)] stop [of m] by (intro exI [of _ m]) simp
  qed
  then have "\<exists>m. i < length (sy_threads (\<sigma> m)) \<and> sy_threads (\<sigma> m) ! i = SweepDone"
    using sel unfolding select_fair_def by blast
  with False show ?thesis by simp
qed

lemma stop_step:
  "step s s' \<Longrightarrow> (pl_closed (sy_pool s) \<longrightarrow> pl_stop (sy_pool s)) \<Longrightarrow> pl_closed (sy_pool s') \<longrightarrow> pl_stop (sy_pool s')"
proof (induction rule: step.induct)
  case (work_pop i s now r p')
  then have "pl_closed p' = pl_closed (sy_pool s)" "pl_stop p' = pl_stop (sy_pool s)"
    by (auto simp: pop_round_def takeExpiredLocked_def split: list.splits if_splits)
  then show ?case using work_pop by simp
next
  case (work_run i s t now left shed p')
  then show ?case by (auto simp: budget_def Let_def split: if_splits)
next
  case (sub_lock_enqueue i s t now p' t' ths)
  then show ?case using submit_locked_cases [OF sub_lock_enqueue(3)] by (simp add: accept_def put_def enqueueLocked_def)
next
  case (sub_wait_enqueue i s t b now p' ths)
  then show ?case using wait_round_enqueued [OF sub_wait_enqueue(3)] by (simp add: accept_def put_def enqueueLocked_def)
qed (auto simp: collect_to_def takeExpiredLocked_def expire_def shedLimit_def)

definition one_sweeper :: "system \<Rightarrow> bool" where
  "one_sweeper s \<longleftrightarrow> sy_threads s \<noteq> [] \<and> sweeper (sy_threads s ! 0) \<and>
     (\<forall>j < length (sy_threads s). sweeper (sy_threads s ! j) \<longrightarrow> j = 0) \<and>
     (pl_closed (sy_pool s) \<longrightarrow> pl_stop (sy_pool s))"

lemma reachable_one_sweeper: "reachable workers p s \<Longrightarrow> \<not> pl_closed p \<Longrightarrow> one_sweeper s"
proof (induction rule: reachable.induct)
  case start
  then show ?case by (auto simp: init_def one_sweeper_def nth_Cons split: nat.splits)
next
  case (further s s')
  have r: "roles_kept (sy_threads s) (sy_threads s')" using roles_step [OF further(2)] .
  have "sweeper (sy_threads s' ! j) \<longleftrightarrow> j < length (sy_threads s) \<and> sweeper (sy_threads s ! j)"
    if "j < length (sy_threads s')" for j
    using r that by (cases "j < length (sy_threads s)") (auto simp: roles_kept_def same_role_def)
  moreover have "sy_threads s' \<noteq> []" "sweeper (sy_threads s' ! 0)"
    using r further by (auto simp: roles_kept_def same_role_def one_sweeper_def)
  ultimately show ?case
    using further stop_step [OF further(2)] by (auto simp: one_sweeper_def)
qed

lemma run_reachable: "reachable workers p (\<sigma> 0) \<Longrightarrow> run_of \<sigma> \<Longrightarrow> reachable workers p (\<sigma> n)"
  by (induction n) (auto simp: run_of_def intro: reachable.further)

lemma closed_from: "run_of \<sigma> \<Longrightarrow> pl_closed (sy_pool (\<sigma> n0)) \<Longrightarrow> n0 \<le> n \<Longrightarrow> pl_closed (sy_pool (\<sigma> n))"
proof -
  assume run: "run_of \<sigma>" and c: "pl_closed (sy_pool (\<sigma> n0))" and n: "n0 \<le> n"
  show ?thesis using n
  proof (induction n rule: dec_induct)
    case (step n)
    then show ?case using closed_kept run by (auto simp: run_of_def)
  qed (rule c)
qed

lemma New_closed [simp]: "\<not> pl_closed (New d r m f)"
  by (simp add: New_def)

lemma close_waits:
  assumes init: "reachable workers (New depth reserveMS minBudgetMS full) (\<sigma> 0)" "1 \<le> workers"
    and run: "run_of \<sigma>" and fair: "weakly_fair \<sigma>" "select_fair \<sigma>" and closed: "pl_closed (sy_pool (\<sigma> n0))"
  shows "\<exists>n. \<forall>m \<ge> n. waited_done (\<sigma> m)"
proof -
  note reach = run_reachable [OF init(1) run]
  have cl: "pl_closed (sy_pool (\<sigma> n)) \<and> WorkSleep \<notin> set (sy_threads (\<sigma> n))" if "n0 \<le> n" for n
  proof -
    have c: "pl_closed (sy_pool (\<sigma> n))" by (rule closed_from [OF run closed that])
    have "pool_inv (sy_pool (\<sigma> n)) (sy_threads (\<sigma> n))"
      using reachable_system_inv [OF reach init(2)] by (simp add: system_inv_def)
    then show ?thesis using c by (force simp: pool_inv_def thread_inv_def)
  qed
  have one: "one_sweeper (\<sigma> n)" for n by (rule reachable_one_sweeper [OF reach New_closed])
  have st: "pl_stop (sy_pool (\<sigma> n))" if "n0 \<le> n" for n
    using one [of n] cl [OF that] by (simp add: one_sweeper_def)
  obtain a where a: "\<forall>m \<ge> a. \<forall>i < length (sy_threads (\<sigma> m)). worker (sy_threads (\<sigma> m) ! i) \<longrightarrow> sy_threads (\<sigma> m) ! i = WorkDone"
    using workers_finish [OF run fair(1) cl] by blast
  obtain b where b: "\<forall>m \<ge> b. sy_threads (\<sigma> m) ! 0 = SweepDone"
    using sweeper_finishes [OF run fair, of n0 0] st one [of n0] unfolding one_sweeper_def by blast
  have "waited_done (\<sigma> m)" if m: "max a b \<le> m" for m
    unfolding waited_done_def
  proof
    fix th
    assume "th \<in> set (sy_threads (\<sigma> m))"
    then obtain i where i: "i < length (sy_threads (\<sigma> m))" "th = sy_threads (\<sigma> m) ! i" by (auto simp: in_set_conv_nth)
    have "sweeper th \<Longrightarrow> i = 0" using one [of m] i by (simp add: one_sweeper_def)
    then show "(worker th \<longrightarrow> th = WorkDone) \<and> (sweeper th \<longrightarrow> th = SweepDone)"
      using a b i m by auto
  qed
  then show ?thesis by blast
qed

section \<open>Property\<close>

text \<open>A run of one worker: closed while the worker looks for a task, then everyone leaves.\<close>

definition closing_pool :: pool where
  "closing_pool = (New 2 0 0 [])\<lparr>pl_stop := True, pl_closed := True\<rparr>"

definition closing_state :: "thread list \<Rightarrow> system" where
  "closing_state ths = (init 1 closing_pool)\<lparr>sy_threads := ths\<rparr>"

definition closing :: "nat \<Rightarrow> system" where
  "closing n = closing_state
     (if n = 0 then [SweepTick, WorkPop] else if n = 1 then [SweepTick, WorkReply [] None False]
      else if n = 2 then [SweepTick, WorkDone] else [SweepDone, WorkDone])"

lemma closing_simps [simp]:
  "sy_threads (closing_state ths) = ths" "sy_pool (closing_state ths) = closing_pool"
  "put i th (closing_state ths) = closing_state (ths[i := th])"
  "sy_popped (closing_state ths) = []"
  by (simp_all add: closing_state_def put_def init_def)

lemma closing_pool_simps [simp]: "pl_stop closing_pool" "pl_closed closing_pool" "pl_q closing_pool = []"
  by (simp_all add: closing_pool_def)

lemma closing_reachable: "reachable 1 (New 2 0 0 []) (closing 0)"
proof -
  let ?s0 = "init 1 (New 2 0 0 [])"
  have 1: "reachable 1 (New 2 0 0 []) (Close_stop ?s0)"
    by (rule reachable.further [OF reachable.start step.close_stop]) (simp add: init_def New_def)
  have 2: "reachable 1 (New 2 0 0 []) (Close_locked (Close_stop ?s0))"
    by (rule reachable.further [OF 1 step.close]) (simp add: init_def)
  then show ?thesis by (simp add: closing_def closing_state_def init_def closing_pool_def)
qed

lemma closing_run: "run_of closing"
  unfolding run_of_def
proof
  fix n :: nat
  have r: "pop_round closing_pool 0 = (PopClosed [], closing_pool)"
    by (simp add: pop_round_def takeExpiredLocked_def closing_pool_def New_def)
  have upd: "closing_state ths\<lparr>sy_pool := closing_pool, sy_popped := [], sy_threads := ths'\<rparr> = closing_state ths'" for ths ths'
    by (simp add: closing_state_def init_def)
  consider "n = 0" | "n = 1" | "n = 2" | "3 \<le> n" by linarith
  then show "step (closing n) (closing (Suc n))"
  proof cases
    case 1
    show ?thesis
      using step.work_pop [of 1 "closing 0" 0 "PopClosed []" closing_pool] r 1
      by (simp add: closing_def work_next_def pop_task_def pop_dead_def broadcast_if_def upd)
  next
    case 2
    show ?thesis using step.work_replied [of 1 "closing 1" None False] 2 by (simp add: closing_def work_after_def)
  next
    case 3
    show ?thesis using step.sweep_stop [of 0 "closing 2"] 3 by (simp add: closing_def)
  next
    case 4
    have "closing_state ths\<lparr>sy_threads := ths'\<rparr> = closing_state ths'" for ths ths'
      by (simp add: closing_state_def)
    then show ?thesis using step.timer_late [of "closing n"] 4 by (simp add: closing_def)
  qed
qed

lemma closing_still: "i < 2 \<Longrightarrow> \<not> can_move i (closing 3)"
proof
  assume i: "i < 2" and "can_move i (closing 3)"
  then obtain s' where "step (closing 3) s'" and m: "sy_threads s' ! i \<noteq> [SweepDone, WorkDone] ! i"
    by (auto simp: can_move_def moves_def closing_def)
  then show False
    using i by cases (auto simp: closing_def nth_Cons nth_append less_Suc_eq numeral_2_eq_2 split: nat.splits)
qed

lemma closing_fair: "weakly_fair closing" "select_fair closing"
proof -
  show "weakly_fair closing"
    unfolding weakly_fair_def
  proof (intro allI impI)
    fix i n
    assume i: "i < length (sy_threads (closing n))" and c: "\<forall>m \<ge> n. can_move i (closing m)"
    have "i < 2" using i by (simp add: closing_def split: if_splits)
    moreover have "closing (max n 3) = closing 3" by (simp add: closing_def)
    ultimately show "\<exists>m \<ge> n. moves i (closing m) (closing (Suc m))" using c closing_still by (metis max.cobounded1)
  qed
  show "select_fair closing"
    unfolding select_fair_def
  proof (intro allI impI)
    fix i
    assume "\<forall>n. \<exists>m \<ge> n. i < length (sy_threads (closing m)) \<and> sy_threads (closing m) ! i = SweepTick \<and> pl_stop (sy_pool (closing m))"
    then obtain m where "3 \<le> m" "i < 2" "sy_threads (closing m) ! i = SweepTick"
      by (auto simp: closing_def dest!: spec [of _ 3])
    then show "\<exists>m. i < length (sy_threads (closing m)) \<and> sy_threads (closing m) ! i = SweepDone"
      by (auto simp: closing_def nth_Cons split: nat.splits)
  qed
qed

text \<open>C5: \<open>Close\<close> returns. In every run with a fair scheduler that closes the pool, whatever callers
  still come and whatever is queued, from some moment on every worker and the sweeper have stopped
  and the queue is empty.\<close>

theorem close_returns:
  assumes "reachable workers (New depth reserveMS minBudgetMS full) (\<sigma> 0)" and "1 \<le> workers"
    and "run_of \<sigma>" and "weakly_fair \<sigma>" and "select_fair \<sigma>" and "pl_closed (sy_pool (\<sigma> n0))"
  shows "\<exists>n. \<forall>m \<ge> n. waited_done (\<sigma> m) \<and> pl_q (sy_pool (\<sigma> m)) = []"
proof -
  obtain n where n: "\<forall>m \<ge> n. waited_done (\<sigma> m)" using close_waits [OF assms] by blast
  have "pl_q (sy_pool (\<sigma> m)) = []" if "n \<le> m" for m
  proof -
    have inv: "pool_inv (sy_pool (\<sigma> m)) (sy_threads (\<sigma> m))"
      using reachable_system_inv [OF run_reachable [OF assms(1,3)] assms(2)] by (simp add: system_inv_def)
    then obtain th where "th \<in> set (sy_threads (\<sigma> m))" "worker th" by (auto simp: pool_inv_def)
    then have "WorkDone \<in> set (sy_threads (\<sigma> m))" using n that by (auto simp: waited_done_def)
    then show ?thesis using inv by (force simp: pool_inv_def thread_inv_def)
  qed
  then show ?thesis using n by blast
qed

theorem close_returns_witness:
  "reachable 1 (New 2 0 0 []) (closing 0) \<and> run_of closing \<and> weakly_fair closing \<and> select_fair closing \<and>
   \<not> waited_done (closing 0) \<and> (\<exists>n. \<forall>m \<ge> n. waited_done (closing m) \<and> pl_q (sy_pool (closing m)) = [])"
proof -
  have "pl_closed (sy_pool (closing 0))" by (simp add: closing_def)
  from close_returns [OF closing_reachable _ closing_run closing_fair this] show ?thesis
    using closing_reachable closing_run closing_fair by (simp add: waited_done_def closing_def)
qed

end
