(* ===== verification/Serving.thy ===== *)
theory Serving
  imports Handler_Claims Queue_Close Audit_Claims
begin

text \<open>
  The process at work (\<open>cmd/inspector/main.go\<close>, from the subscription to the end of \<open>run\<close>): messages of
  the bus reach \<open>receive\<close>, which answers them or submits them to the pool; the pool hands every task to
  \<open>evaluate\<close>, which publishes the reply and adds the event to the audit sink; and the main goroutine,
  once it is signalled, drains the subscription, closes the pool and then the sink. \<open>serving_step\<close>
  interleaves the steps of the bus, the pool, the sink and the main goroutine.

  What surrounds the handler may change all the time (the served profiles, the lists, the object
  store), so every call of it takes any server of a given set. A call of the handler is one step:
  its calls of \<open>Publish\<close> and \<open>Add\<close> are critical sections of their own, and nothing else it does is
  shared. The draining of a subscription goes on in the background, so messages can arrive until the
  process ends. \<open>sg_asked\<close> records the reply subjects of the messages that want an answer, \<open>sg_sent\<close>
  the messages published, and \<open>sg_late\<close> the events added after the sink was told to stop.
\<close>

section \<open>State\<close>

datatype main_pc = Running | Drained | PoolStopping | PoolWaits | SinkWaits | Exited

record serving =
  sg_pool :: system
  sg_sink :: sink_system
  sg_sent :: "(string \<times> string) list"
  sg_asked :: "string list"
  sg_late :: "item list"
  sg_main :: main_pc

definition no_effects :: effects where
  "no_effects = \<lparr>ef_sent = [], ef_audit = [], ef_lists = []\<rparr>"

text \<open>The pool of a configuration with its workers, and a sink, both with nothing to do.\<close>

definition launch :: "config \<Rightarrow> serving" where
  "launch cfg =
     \<lparr>sg_pool = init (nat (cf_Workers cfg))
        (New (cf_QueueDepth cfg) (cf_ReserveMS cfg) (cf_MinBudgetMS cfg) (cf_QueueFull cfg)),
      sg_sink = sink_init, sg_sent = [], sg_asked = [], sg_late = [], sg_main = Running\<rparr>"

section \<open>Effects of the handler\<close>

definition new_items :: "add_call list \<Rightarrow> item list" where
  "new_items calls = concat (map (\<lambda>c. case c of NewItem it \<Rightarrow> [it] | _ \<Rightarrow> []) calls)"

definition sink_add :: "item \<Rightarrow> sink_system \<Rightarrow> sink_system" where
  "sink_add it y = y\<lparr>ss_sink := add_item it (ss_sink y), ss_added := ss_added y @ [it],
      ss_cut := ss_cut y @ cut_off it (ss_sink y)\<rparr>"

definition carry_out :: "effects \<Rightarrow> serving \<Rightarrow> serving" where
  "carry_out ef g =
     g\<lparr>sg_sent := sg_sent g @ ef_sent ef,
       sg_sink := foldl (\<lambda>y it. sink_add it y) (sg_sink g) (new_items (ef_audit ef)),
       sg_late := sg_late g @ (if ss_stop (sg_sink g) then new_items (ef_audit ef) else [])\<rparr>"

text \<open>The handler is called for what a step of the pool adds to the log of answers.\<close>

definition called :: "system \<Rightarrow> system \<Rightarrow> answer list" where
  "called s s' = drop (length (sy_log s)) (sy_log s')"

definition answer_all :: "server \<Rightarrow> string \<Rightarrow> int \<Rightarrow> answer list \<Rightarrow> effects" where
  "answer_all sv ts ms as = foldl (\<lambda>ef a. evaluate sv ts ms (an_task a) (an_shed a) ef) no_effects as"

definition submitted :: "task \<Rightarrow> system \<Rightarrow> system" where
  "submitted t s = s\<lparr>sy_threads := sy_threads s @ [SubStart t], sy_submitted := sy_submitted s @ [t_id t]\<rparr>"

definition same_controls :: "system \<Rightarrow> system \<Rightarrow> bool" where
  "same_controls s s' \<longleftrightarrow> sy_submitted s' = sy_submitted s \<and>
     pl_stop (sy_pool s') = pl_stop (sy_pool s) \<and> pl_closed (sy_pool s') = pl_closed (sy_pool s)"

section \<open>Steps\<close>

inductive serving_step :: "(server \<Rightarrow> bool) \<Rightarrow> serving \<Rightarrow> serving \<Rightarrow> bool" for srv where
  submit: "sg_main g \<noteq> Exited \<Longrightarrow> srv sv \<Longrightarrow> receive sv ts tid subject payload no_effects = (ef, Some t) \<Longrightarrow>
     tid \<notin> set (sy_submitted (sg_pool g)) \<Longrightarrow>
     serving_step srv g
       (carry_out ef (g\<lparr>sg_pool := submitted t (sg_pool g), sg_asked := sg_asked g @ [subject]\<rparr>))"
| reply: "sg_main g \<noteq> Exited \<Longrightarrow> srv sv \<Longrightarrow> receive sv ts tid subject payload no_effects = (ef, None) \<Longrightarrow>
     serving_step srv g
       (carry_out ef (g\<lparr>sg_asked := sg_asked g @ (if released sv payload then [] else [subject])\<rparr>))"
| pool: "sg_main g \<noteq> Exited \<Longrightarrow> srv sv \<Longrightarrow> step (sg_pool g) s' \<Longrightarrow> same_controls (sg_pool g) s' \<Longrightarrow>
     serving_step srv g (carry_out (answer_all sv ts ms (called (sg_pool g) s')) (g\<lparr>sg_pool := s'\<rparr>))"
| sink: "sg_main g \<noteq> Exited \<Longrightarrow> sink_step (sg_sink g) y' \<Longrightarrow> ss_added y' = ss_added (sg_sink g) \<Longrightarrow>
     ss_stop y' = ss_stop (sg_sink g) \<Longrightarrow> serving_step srv g (g\<lparr>sg_sink := y'\<rparr>)"
| signal: "sg_main g = Running \<Longrightarrow> serving_step srv g (g\<lparr>sg_main := Drained\<rparr>)"
| pool_stop: "sg_main g = Drained \<Longrightarrow>
     serving_step srv g (g\<lparr>sg_pool := Close_stop (sg_pool g), sg_main := PoolStopping\<rparr>)"
| pool_close: "sg_main g = PoolStopping \<Longrightarrow>
     serving_step srv g (g\<lparr>sg_pool := Close_locked (sg_pool g), sg_main := PoolWaits\<rparr>)"
| sink_close: "sg_main g = PoolWaits \<Longrightarrow> waited_done (sg_pool g) \<Longrightarrow>
     serving_step srv g (g\<lparr>sg_sink := sink_Close (sg_sink g), sg_main := SinkWaits\<rparr>)"
| leave: "sg_main g = SinkWaits \<Longrightarrow> ss_thread (sg_sink g) = Stopped \<Longrightarrow>
     serving_step srv g (g\<lparr>sg_main := Exited\<rparr>)"

inductive serving_reach :: "(server \<Rightarrow> bool) \<Rightarrow> config \<Rightarrow> serving \<Rightarrow> bool" for srv cfg where
  launched: "serving_reach srv cfg (launch cfg)"
| onward: "serving_reach srv cfg g \<Longrightarrow> serving_step srv g g' \<Longrightarrow> serving_reach srv cfg g'"

section \<open>The components inside the process\<close>

lemma carry_out_fields [simp]:
  "sg_pool (carry_out ef g) = sg_pool g" "sg_sent (carry_out ef g) = sg_sent g @ ef_sent ef"
  "sg_asked (carry_out ef g) = sg_asked g" "sg_main (carry_out ef g) = sg_main g"
  by (simp_all add: carry_out_def)

lemma sink_adds_reachable: "sink_reachable y \<Longrightarrow> sink_reachable (foldl (\<lambda>y it. sink_add it y) y its)"
proof (induction its arbitrary: y)
  case (Cons it its)
  have "sink_step y (sink_add it y)" unfolding sink_add_def by (rule sink_step.add)
  then show ?case using Cons sink_reachable.further by simp
qed simp

abbreviation pool_of :: "config \<Rightarrow> pool" where
  "pool_of cfg \<equiv> New (cf_QueueDepth cfg) (cf_ReserveMS cfg) (cf_MinBudgetMS cfg) (cf_QueueFull cfg)"

text \<open>Every state of the process shows a state the pool, and one the sink, reaches on its own: what was
  proved of either holds here.\<close>

lemma serving_parts:
  assumes "serving_reach srv cfg g"
  shows "reachable (nat (cf_Workers cfg)) (pool_of cfg) (sg_pool g) \<and> sink_reachable (sg_sink g) \<and>
    (pl_stop (sy_pool (sg_pool g)) \<longleftrightarrow> sg_main g \<notin> {Running, Drained}) \<and>
    (pl_closed (sy_pool (sg_pool g)) \<longleftrightarrow> sg_main g \<in> {PoolWaits, SinkWaits, Exited}) \<and>
    (ss_stop (sg_sink g) \<longleftrightarrow> sg_main g \<in> {SinkWaits, Exited})"
  using assms
proof (induction rule: serving_reach.induct)
  case launched
  show ?case
    by (simp add: launch_def init_def sink_init_def New_def)
      (metis New_def init_def reachable.start sink_init_def sink_reachable.start)
next
  case (onward g g')
  have stop: "ss_stop (foldl (\<lambda>y it. sink_add it y) y its) = ss_stop y" for y its
    by (induction its arbitrary: y) (simp_all add: sink_add_def)
  from onward(2) onward.IH show ?case
  proof (induction rule: serving_step.induct)
    case (submit g sv ts tid subject payload ef t)
    have "t_id t = tid" using submit(3) by (auto simp: receive_def split: outcome.splits if_splits)
    then have "step (sg_pool g) (submitted t (sg_pool g))"
      using submit(4) unfolding submitted_def by (intro step.submit) simp
    then show ?case using submit reachable.further
      by (auto simp: carry_out_def sink_adds_reachable stop submitted_def)
  next
    case (reply g sv ts tid subject payload ef)
    then show ?case by (auto simp: carry_out_def sink_adds_reachable stop)
  next
    case (pool g sv s' ts ms)
    then show ?case using reachable.further
      by (auto simp: carry_out_def sink_adds_reachable stop same_controls_def)
  next
    case (sink g y')
    then show ?case using sink_reachable.further by auto
  next
    case (signal g)
    then show ?case by auto
  next
    case (pool_stop g)
    then have "step (sg_pool g) (Close_stop (sg_pool g))" by (intro step.close_stop) auto
    then show ?case using pool_stop reachable.further by auto
  next
    case (pool_close g)
    then have "step (sg_pool g) (Close_locked (sg_pool g))" by (intro step.close) auto
    then show ?case using pool_close reachable.further by auto
  next
    case (sink_close g)
    then have "sink_reachable (sink_Close (sg_sink g))"
      using sink_reachable.further sink_step.close by blast
    then show ?case using sink_close by auto
  next
    case (leave g)
    then show ?case by auto
  qed
qed

end
