(* ===== verification/Serving_Props.thy ===== *)
theory Serving_Props
  imports Serving
begin

text \<open>
  Invariants of the process: the replies published, those still to come and the messages that want
  one balance; the workers that \<open>Close\<close> waited for stay stopped; and the sink empties its queue
  unless events come after it was told to stop.
\<close>

section \<open>Answers\<close>

lemma log_grows: "step s s' \<Longrightarrow> \<exists>new. sy_log s' = sy_log s @ new"
proof (induction rule: step.induct)
  case (sub_lock_enqueue i s t now p' t' ths)
  show ?case by (simp add: accept_def put_def)
next
  case (sub_wait_enqueue i s t b now p' ths)
  show ?case by (simp add: accept_def put_def)
qed (auto simp: put_def collect_to_def expire_def shedLimit_def split: prod.splits)

lemma log_called: "step s s' \<Longrightarrow> sy_log s' = sy_log s @ called s s'"
  using log_grows by (fastforce simp: called_def)

lemma answer_all_sent:
  assumes "\<And>r. sv_json_reply sv r \<noteq> None"
  shows "filter (\<lambda>x. x \<noteq> []) (map fst (ef_sent (answer_all sv ts ms as))) =
    filter (\<lambda>x. x \<noteq> []) (map (\<lambda>a. t_reply (an_task a)) as)"
proof -
  have "filter (\<lambda>x. x \<noteq> []) (map fst (ef_sent (foldl (\<lambda>ef a. evaluate sv ts ms (an_task a) (an_shed a) ef) ef as))) =
    filter (\<lambda>x. x \<noteq> []) (map fst (ef_sent ef)) @ filter (\<lambda>x. x \<noteq> []) (map (\<lambda>a. t_reply (an_task a)) as)" for ef
  proof (induction as arbitrary: ef)
    case (Cons a as)
    let ?ef = "evaluate sv ts ms (an_task a) (an_shed a) ef"
    have "ef_sent ?ef = ef_sent ef" if "t_reply (an_task a) = []"
      using that by (simp add: evaluate_def recoverInto_def send_def split: prod.split outcome.split)
    moreover have "\<exists>p. ef_sent ?ef = ef_sent ef @ [(t_reply (an_task a), p)]" if "t_reply (an_task a) \<noteq> []"
      by (rule evaluate_one [OF assms that])
    ultimately show ?case using Cons.IH [of ?ef] by (cases "t_reply (an_task a) = []") auto
  qed simp
  from this [of no_effects] show ?thesis by (simp add: answer_all_def no_effects_def)
qed

text \<open>The reply subjects of the tasks that are waiting: queued, or in the hands of a goroutine.\<close>

definition waiting :: "system \<Rightarrow> string list" where
  "waiting s = map t_reply (pl_q (sy_pool s) @ concat (map held (sy_threads s)))"

definition to_someone :: "string list \<Rightarrow> string multiset" where
  "to_someone xs = mset (filter (\<lambda>x. x \<noteq> []) xs)"

lemma to_someone_append [simp]: "to_someone (xs @ ys) = to_someone xs + to_someone ys"
  by (simp add: to_someone_def)

lemma to_someone_simps [simp]: "to_someone [] = {#}" "to_someone [x] = (if x = [] then {#} else {#x#})"
  by (simp_all add: to_someone_def)

lemma to_someone_count: "x \<noteq> [] \<Longrightarrow> count (to_someone xs) x = count (mset xs) x"
  by (simp add: to_someone_def)

definition replies_of :: "system \<Rightarrow> string multiset" where
  "replies_of s = filter_mset (\<lambda>x. x \<noteq> []) (image_mset (\<lambda>(_, _, x). x) (total s))"

lemma replies_of_parts:
  "replies_of s = to_someone (map (\<lambda>a. t_reply (an_task a)) (sy_log s)) + to_someone (waiting s)"
  unfolding replies_of_def total_image
  by (simp add: all_tasks_def waiting_def to_someone_def ticket_def case_prod_beta comp_def flip: mset_map mset_filter)

lemma replies_submitted:
  "replies_of (submitted t s) = replies_of s + to_someone [t_reply t]"
  by (simp add: replies_of_def total_def answered_def submitted_def ticket_def)

definition balanced :: "serving \<Rightarrow> bool" where
  "balanced g \<longleftrightarrow>
     to_someone (map fst (sg_sent g)) + to_someone (waiting (sg_pool g)) = to_someone (sg_asked g)"

lemma waiting_submitted: "to_someone (waiting (submitted t s)) = to_someone (waiting s) + to_someone [t_reply t]"
  by (simp add: waiting_def submitted_def)

lemma waiting_same:
  assumes "step s s'" and "stops_ok s" and "sy_submitted s' = sy_submitted s"
  shows "to_someone (waiting s) = to_someone (map (\<lambda>a. t_reply (an_task a)) (called s s')) + to_someone (waiting s')"
proof -
  have "total s' = total s" using total_step [OF assms(1,2)] assms(3) by auto
  then have "replies_of s' = replies_of s" by (simp add: replies_of_def)
  then show ?thesis by (simp add: replies_of_parts log_called [OF assms(1)] union_assoc)
qed

lemma balanced_step:
  assumes "serving_step srv g g'" and "\<And>sv r. srv sv \<Longrightarrow> sv_json_reply sv r \<noteq> None"
    and "stops_ok (sg_pool g)" and "balanced g"
  shows "balanced g'"
  using assms
proof (induction rule: serving_step.induct)
  case (submit g sv ts tid subject payload ef t)
  have "ef = no_effects \<and> t_reply t = subject" using submit(3) by (auto simp: receive_def split: outcome.splits if_splits)
  then show ?case using submit by (simp add: balanced_def waiting_submitted no_effects_def)
next
  case (reply g sv ts tid subject payload ef)
  show ?case
  proof (cases "subject = []")
    case True
    then have "ef = no_effects"
      using reply(3) by (auto simp: receive_def recoverInto_def send_def split: outcome.splits if_splits)
    then show ?thesis using reply True by (simp add: balanced_def no_effects_def)
  next
    case False
    have "if released sv payload then ef = no_effects else \<exists>p. ef_sent ef = ef_sent no_effects @ [(subject, p)]"
      using receive_one [OF reply(4) [OF reply(2)] False, where ts = ts and tid = tid and payload = payload and ef = no_effects]
        reply(3) by simp
    then show ?thesis using reply False by (auto simp: balanced_def no_effects_def split: if_splits)
  qed
next
  case (pool g sv s' ts ms)
  have "to_someone (map fst (ef_sent (answer_all sv ts ms (called (sg_pool g) s')))) =
      to_someone (map (\<lambda>a. t_reply (an_task a)) (called (sg_pool g) s'))"
    using answer_all_sent pool by (simp add: to_someone_def)
  then show ?case
    using waiting_same [OF pool(3,6)] pool by (simp add: balanced_def same_controls_def union_assoc)
next
  case (pool_close g)
  then show ?case by (simp add: balanced_def waiting_def comp_def)
next
  case (pool_stop g)
  then show ?case by (simp add: balanced_def waiting_def)
qed (simp_all add: balanced_def)

lemma reach_balanced:
  assumes "serving_reach srv cfg g" and "\<And>sv r. srv sv \<Longrightarrow> sv_json_reply sv r \<noteq> None"
  shows "balanced g"
  using assms(1)
proof (induction rule: serving_reach.induct)
  case launched
  show ?case by (simp add: balanced_def launch_def waiting_def init_def New_def)
next
  case (onward g g')
  have "stops_ok (sg_pool g)" using serving_parts [OF onward(1)] reachable_total by (metis New_fields(1))
  from balanced_step [OF onward(2) assms(2) this onward(3)] show ?case by simp
qed

section \<open>Goroutines that have stopped\<close>

lemma done_stays:
  "step s s' \<Longrightarrow> i < length (sy_threads s) \<Longrightarrow> sy_threads s ! i = WorkDone \<Longrightarrow> sy_threads s' ! i = WorkDone"
proof (induction rule: step.induct)
  case (sub_lock_enqueue j s t now p' t' ths)
  then show ?case using signalled_nth [of "sy_threads s" ths i] by (cases "j = i") auto
next
  case (sub_wait_enqueue j s t b now p' ths)
  then show ?case using signalled_nth [of "sy_threads s" ths i] by (cases "j = i") auto
qed (auto simp: nth_list_update nth_append collect_to_threads nth_broadcast)

lemma waited_stays:
  assumes "step s s'" and "waited_done s"
  shows "waited_done s'"
  unfolding waited_done_def
proof
  fix th
  assume "th \<in> set (sy_threads s')"
  then obtain j where j: "j < length (sy_threads s')" "th = sy_threads s' ! j" by (auto simp: in_set_conv_nth)
  show "(worker th \<longrightarrow> th = WorkDone) \<and> (sweeper th \<longrightarrow> th = SweepDone)"
  proof (cases "j < length (sy_threads s)")
    case True
    let ?t = "sy_threads s ! j"
    have d: "(worker ?t \<longrightarrow> ?t = WorkDone) \<and> (sweeper ?t \<longrightarrow> ?t = SweepDone)"
      using assms(2) True nth_mem unfolding waited_done_def by blast
    have r: "same_role ?t th" using roles_step [OF assms(1)] True j by (simp add: roles_kept_def)
    have "worker th \<Longrightarrow> th = WorkDone"
      using done_stays [OF assms(1) True] d r j by (simp add: same_role_def)
    moreover have "sweeper th \<Longrightarrow> th = SweepDone"
      using sweeper_step [OF assms(1) True] d r j by (auto simp: same_role_def sweep_next_def)
    ultimately show ?thesis by simp
  next
    case False
    then show ?thesis using roles_step [OF assms(1)] j by (simp add: roles_kept_def)
  qed
qed

section \<open>The end of the sink\<close>

definition last_flush :: "sink_thread \<Rightarrow> bool" where
  "last_flush th = (case th of Flush b \<Rightarrow> b | Publish _ b \<Rightarrow> b | Stopped \<Rightarrow> True | Idle \<Rightarrow> False)"

definition sink_end :: "sink_system \<Rightarrow> item list \<Rightarrow> bool" where
  "sink_end y late \<longleftrightarrow> (last_flush (ss_thread y) \<longrightarrow> ss_stop y) \<and>
     (ss_thread y = Stopped \<longrightarrow> suffix (sk_pending (ss_sink y)) late)"

lemma sink_end_step: "sink_step y y' \<Longrightarrow> ss_added y' = ss_added y \<Longrightarrow> sink_end y late \<Longrightarrow> sink_end y' late"
  by (induction rule: sink_step.induct) (auto simp: sink_end_def last_flush_def)

lemma sink_adds_fields [simp]:
  "ss_thread (foldl (\<lambda>y it. sink_add it y) y its) = ss_thread y" "ss_stop (foldl (\<lambda>y it. sink_add it y) y its) = ss_stop y"
  "ss_sent (foldl (\<lambda>y it. sink_add it y) y its) = ss_sent y"
  by (induction its arbitrary: y) (simp_all add: sink_add_def)

lemma add_item_pending: "suffix (sk_pending (add_item it s)) (sk_pending s @ [it])"
  by (auto simp: add_item_def Let_def suffix_drop)

lemma sink_adds_pending:
  "suffix (sk_pending (ss_sink y)) late \<Longrightarrow>
   suffix (sk_pending (ss_sink (foldl (\<lambda>y it. sink_add it y) y its))) (late @ its)"
proof (induction its arbitrary: y late)
  case (Cons it its)
  have "suffix (sk_pending (ss_sink y) @ [it]) (late @ [it])" using Cons.prems by (auto simp: suffix_def)
  from suffix_order.trans [OF add_item_pending this]
  have "suffix (sk_pending (ss_sink (sink_add it y))) (late @ [it])" by (simp only: sink_add_def) simp
  from Cons.IH [OF this] show ?case by simp
qed simp

lemma sink_end_carry:
  assumes "sink_end (sg_sink g) (sg_late g)"
  shows "sink_end (sg_sink (carry_out ef g)) (sg_late (carry_out ef g))"
proof -
  have "last_flush (ss_thread (sg_sink g)) \<longrightarrow> ss_stop (sg_sink g)" using assms by (simp add: sink_end_def)
  then have "ss_thread (sg_sink g) = Stopped \<longrightarrow> ss_stop (sg_sink g)" by (simp add: last_flush_def)
  then show ?thesis
    using assms sink_adds_pending [of "sg_sink g" "sg_late g" "new_items (ef_audit ef)"]
    by (auto simp: carry_out_def sink_end_def)
qed

definition closing_down :: "serving \<Rightarrow> bool" where
  "closing_down g \<longleftrightarrow>
     (sg_main g \<in> {SinkWaits, Exited} \<longrightarrow> waited_done (sg_pool g)) \<and>
     (sg_main g = Exited \<longrightarrow> ss_thread (sg_sink g) = Stopped) \<and> sink_end (sg_sink g) (sg_late g)"

lemma submitted_waited: "waited_done (submitted t s) = waited_done s"
  by (auto simp: waited_done_def submitted_def)

lemma closing_down_step: "serving_step srv g g' \<Longrightarrow> closing_down g \<Longrightarrow> closing_down g'"
proof (induction rule: serving_step.induct)
  case (submit g sv ts tid subject payload ef t)
  let ?g = "g\<lparr>sg_pool := submitted t (sg_pool g), sg_asked := sg_asked g @ [subject]\<rparr>"
  have "sink_end (sg_sink (carry_out ef ?g)) (sg_late (carry_out ef ?g))"
    by (rule sink_end_carry) (use submit in \<open>simp add: closing_down_def\<close>)
  then show ?case using submit by (simp add: closing_down_def submitted_waited)
next
  case (reply g sv ts tid subject payload ef)
  let ?g = "g\<lparr>sg_asked := sg_asked g @ (if released sv payload then [] else [subject])\<rparr>"
  have "sink_end (sg_sink (carry_out ef ?g)) (sg_late (carry_out ef ?g))"
    by (rule sink_end_carry) (use reply in \<open>simp add: closing_down_def\<close>)
  then show ?case using reply by (simp add: closing_down_def)
next
  case (pool g sv s' ts ms)
  let ?g = "g\<lparr>sg_pool := s'\<rparr>" and ?ef = "answer_all sv ts ms (called (sg_pool g) s')"
  have "sink_end (sg_sink (carry_out ?ef ?g)) (sg_late (carry_out ?ef ?g))"
    by (rule sink_end_carry) (use pool in \<open>simp add: closing_down_def\<close>)
  then show ?case using pool waited_stays [OF pool(3)] by (simp add: closing_down_def)
next
  case (sink g y')
  then show ?case using sink_end_step by (auto simp: closing_down_def)
qed (auto simp: closing_down_def sink_end_def)

lemma reach_closing_down: "serving_reach srv cfg g \<Longrightarrow> closing_down g"
proof (induction rule: serving_reach.induct)
  case launched
  show ?case by (simp add: closing_down_def launch_def sink_end_def sink_init_def last_flush_def)
next
  case (onward g g')
  then show ?case using closing_down_step by blast
qed

end
