(* ===== verification/Serving_Claims.thy ===== *)
theory Serving_Claims
  imports Serving_Props
begin

text \<open>
  What the parts give together: every message that wants an answer gets one, a shutdown loses no
  event that was added in time, and one that is added later is lost.
\<close>

section \<open>A shutdown\<close>

text \<open>A message of a later phase is answered by \<open>receive\<close> itself, with an event for the sink.\<close>

definition frame_request :: request where
  "frame_request = some_request\<lparr>req_phase := PhaseFrame, req_audit_subject := Some ''waf.audit.a''\<rparr>"

definition frame_server :: server where
  "frame_server = demo_server\<lparr>sv_json_request := (\<lambda>_. Some frame_request), sv_json_event := (\<lambda>_. Some ''{}'')\<rparr>"

definition small_config :: config where
  "small_config = sample_config\<lparr>cf_Workers := 1, cf_QueueDepth := 2, cf_ReserveMS := 0, cf_MinBudgetMS := 0, cf_QueueFull := []\<rparr>"

definition frame_effects :: effects where
  "frame_effects = \<lparr>ef_sent = [(''r'', ''allow'')], ef_audit = [NewItem sample_item], ef_lists = []\<rparr>"

lemma frame_receive: "receive frame_server [] 0 ''r'' [] no_effects = (frame_effects, None)"
proof -
  have "Parse (sv_obj_order frame_server) (sv_json_request frame_server) [] = Ok frame_request"
    by (simp add: frame_server_def frame_request_def demo_server_def Parse_def some_request_def validate_locator_def
        store_object_def)
  moreover have "Supports (sv_cfg frame_server) (req_v frame_request)"
    by (simp add: Supports_def frame_server_def frame_request_def demo_server_def some_request_def sample_config_def)
  ultimately show ?thesis
    by (simp add: receive_def frame_request_def some_request_def send_def payload_of_def Marshal_def frame_server_def
        demo_server_def no_effects_def frame_effects_def add_call_def sample_item_def)
qed

lemma frame_released: "\<not> released frame_server []"
proof -
  have "Parse (sv_obj_order frame_server) (sv_json_request frame_server) [] = Ok frame_request"
    by (simp add: frame_server_def frame_request_def demo_server_def Parse_def some_request_def validate_locator_def
        store_object_def)
  then show ?thesis by (simp add: released_def frame_request_def some_request_def)
qed

abbreviation only_frame :: "server \<Rightarrow> bool" where "only_frame sv \<equiv> sv = frame_server"

lemma frame_encodes: "only_frame sv \<Longrightarrow> sv_json_reply sv r \<noteq> None"
  by (simp add: frame_server_def demo_server_def)

text \<open>The process with what it has published and been asked for so far, and no late event.\<close>

definition answered_at :: "(string \<times> string) list \<Rightarrow> string list \<Rightarrow> main_pc \<Rightarrow> system \<Rightarrow> sink_system \<Rightarrow> serving" where
  "answered_at sent asked pc s y = \<lparr>sg_pool = s, sg_sink = y, sg_sent = sent, sg_asked = asked, sg_late = [], sg_main = pc\<rparr>"

lemma quiet_pool:
  assumes "serving_reach only_frame small_config (answered_at sent asked pc (closing n) y)" and "pc \<noteq> Exited"
  shows "serving_reach only_frame small_config (answered_at sent asked pc (closing (Suc n)) y)"
proof -
  have "step (closing n) (closing (Suc n))" using closing_run by (simp add: run_of_def)
  moreover have log: "sy_log (closing m) = []" "sy_submitted (closing m) = []" "sy_pool (closing m) = closing_pool" for m
    by (simp_all add: closing_def closing_state_def init_def)
  then have "same_controls (closing n) (closing (Suc n))" by (simp add: same_controls_def)
  ultimately have "serving_step only_frame (answered_at sent asked pc (closing n) y)
      (carry_out (answer_all frame_server [] 0 (called (closing n) (closing (Suc n))))
        ((answered_at sent asked pc (closing n) y)\<lparr>sg_pool := closing (Suc n)\<rparr>))"
    using serving_step.pool [of "answered_at sent asked pc (closing n) y" only_frame frame_server "closing (Suc n)" "[]" 0]
      assms(2)
    by (simp add: answered_at_def)
  moreover have "carry_out (answer_all frame_server [] 0 (called (closing n) (closing (Suc n))))
      ((answered_at sent asked pc (closing n) y)\<lparr>sg_pool := closing (Suc n)\<rparr>) = answered_at sent asked pc (closing (Suc n)) y"
    using log by (simp add: called_def answer_all_def no_effects_def carry_out_def new_items_def answered_at_def)
  ultimately show ?thesis using serving_reach.onward [OF assms(1)] by simp
qed

text \<open>From the signal to the last flush, whatever came before.\<close>

abbreviation first_pool :: system where "first_pool \<equiv> init 1 (New 2 0 0 [])"

lemma shutdown_run:
  assumes "serving_reach only_frame small_config (answered_at sent asked Running first_pool y)"
    and "ss_thread y = Idle"
  shows "serving_reach only_frame small_config
    (answered_at sent asked SinkWaits (closing 3) (y\<lparr>ss_stop := True, ss_thread := Flush True\<rparr>))"
proof -
  let ?R = "serving_reach only_frame small_config" and ?at = "answered_at sent asked"
  have 1: "?R (?at Drained first_pool y)"
    using serving_reach.onward [OF assms(1) serving_step.signal] by (simp add: answered_at_def)
  have 2: "?R (?at PoolStopping (Close_stop first_pool) y)"
    using serving_reach.onward [OF 1 serving_step.pool_stop] by (simp add: answered_at_def)
  have "Close_locked (Close_stop first_pool) = closing 0"
    by (simp add: closing_def closing_state_def closing_pool_def init_def)
  then have "?R (?at PoolWaits (closing 0) y)"
    using serving_reach.onward [OF 2 serving_step.pool_close] by (simp add: answered_at_def)
  then have "?R (?at PoolWaits (closing (Suc (Suc (Suc 0)))) y)"
    by (intro quiet_pool) simp_all
  then have 3: "?R (?at PoolWaits (closing 3) y)" by (simp add: numeral_3_eq_3)
  have d: "waited_done (closing 3)" by (simp add: waited_done_def closing_def)
  let ?y = "y\<lparr>ss_stop := True\<rparr>"
  have 4: "?R (?at SinkWaits (closing 3) ?y)"
    using serving_reach.onward [OF 3 serving_step.sink_close] d by (simp add: answered_at_def)
  have s: "sink_step ?y (?y\<lparr>ss_thread := Flush True\<rparr>)"
    by (rule sink_step.stopped) (simp_all add: assms(2))
  show ?thesis
    using serving_reach.onward [OF 4 serving_step.sink, of "?y\<lparr>ss_thread := Flush True\<rparr>"] s by (simp add: answered_at_def)
qed

lemma sink_moves:
  assumes "serving_reach only_frame small_config (answered_at sent asked SinkWaits s y)"
    and "sink_step y y'" and "ss_added y' = ss_added y" and "ss_stop y' = ss_stop y"
  shows "serving_reach only_frame small_config (answered_at sent asked SinkWaits s y')"
  using serving_reach.onward [OF assms(1) serving_step.sink, of y'] assms(2-4) by (simp add: answered_at_def)

lemma before_exit:
  "serving_reach only_frame small_config
     (answered_at [] [] SinkWaits (closing 3) (sink_init\<lparr>ss_stop := True, ss_thread := Stopped\<rparr>))"
proof -
  have "serving_reach only_frame small_config (answered_at [] [] Running first_pool sink_init)"
    using serving_reach.launched [of only_frame small_config]
    by (simp add: launch_def small_config_def answered_at_def)
  then have f: "serving_reach only_frame small_config
      (answered_at [] [] SinkWaits (closing 3) (sink_init\<lparr>ss_stop := True, ss_thread := Flush True\<rparr>))"
    by (rule shutdown_run) (simp add: sink_init_def)
  show ?thesis
    by (rule sink_moves [OF f])
      (use sink_step.flushed [of "sink_init\<lparr>ss_stop := True, ss_thread := Flush True\<rparr>" True] in
        \<open>simp_all add: sink_init_def NewSink_def\<close>)
qed

text \<open>A message is answered, its event added; then the process is told to leave.\<close>

definition event_sink :: "sink_thread \<Rightarrow> bool \<Rightarrow> item list \<Rightarrow> (string \<times> item list) list \<Rightarrow> sink_system" where
  "event_sink th st pend out =
     \<lparr>ss_sink = \<lparr>sk_pending = pend, sk_size = sizeOf pend, sk_dropped = 0, sk_wake = False\<rparr>, ss_thread = th, ss_stop = st,
      ss_added = [sample_item], ss_cut = [], ss_sent = out, ss_lost = []\<rparr>"

lemma event_exit:
  "serving_reach only_frame small_config
     (answered_at [(''r'', ''allow'')] [''r''] SinkWaits (closing 3)
        (event_sink Stopped True [] [(''waf.audit.a'', [sample_item])]))"
proof -
  let ?R = "serving_reach only_frame small_config"
  let ?at = "answered_at [(''r'', ''allow'')] [''r'']"
  have "serving_step only_frame (launch small_config) (carry_out frame_effects ((launch small_config)\<lparr>sg_asked := [''r'']\<rparr>))"
    using serving_step.reply [of "launch small_config" only_frame frame_server "[]" 0 "''r''" "[]" frame_effects]
      frame_receive frame_released by (simp add: launch_def)
  moreover have "carry_out frame_effects ((launch small_config)\<lparr>sg_asked := [''r'']\<rparr>) =
      ?at Running first_pool (event_sink Idle False [sample_item] [])"
    by (simp add: carry_out_def launch_def frame_effects_def new_items_def answered_at_def small_config_def sink_add_def
        event_sink_def sink_init_def NewSink_def add_item_def cut_off_def sizeOf_def sample_item_def Let_def)
  ultimately have "?R (?at Running first_pool (event_sink Idle False [sample_item] []))"
    using serving_reach.onward [OF serving_reach.launched] by simp
  from shutdown_run [OF this]
  have 1: "?R (?at SinkWaits (closing 3) (event_sink (Flush True) True [sample_item] []))"
    by (simp add: event_sink_def)
  have "sink_step (event_sink (Flush True) True [sample_item] []) (event_sink (Publish [sample_item] True) True [] [])"
    using sink_step.round [of "event_sink (Flush True) True [sample_item] []" True]
    by (simp add: event_sink_def flush_round_def)
  from sink_moves [OF 1 this] have 2: "?R (?at SinkWaits (closing 3) (event_sink (Publish [sample_item] True) True [] []))"
    by (simp add: event_sink_def)
  have "sink_step (event_sink (Publish [sample_item] True) True [] [])
      (event_sink (Flush True) True [] [(''waf.audit.a'', [sample_item])])"
    using sink_step.publish [OF _ refl, of "event_sink (Publish [sample_item] True) True [] []" "[sample_item]" True
        "\<lambda>_. Some ''{}''" "\<lambda>_ _. True"]
    by (simp add: event_sink_def batches_def sink_send_def sample_item_def)
  from sink_moves [OF 2 this]
  have 3: "?R (?at SinkWaits (closing 3) (event_sink (Flush True) True [] [(''waf.audit.a'', [sample_item])]))"
    by (simp add: event_sink_def)
  have "sink_step (event_sink (Flush True) True [] [(''waf.audit.a'', [sample_item])])
      (event_sink Stopped True [] [(''waf.audit.a'', [sample_item])])"
    using sink_step.flushed [of "event_sink (Flush True) True [] [(''waf.audit.a'', [sample_item])]" True]
    by (simp add: event_sink_def)
  from sink_moves [OF 3 this] show ?thesis by (simp add: event_sink_def)
qed

section \<open>Properties\<close>

text \<open>C1: end to end, every message is answered exactly once. Whatever the profiles, the lists and the
  object store do meanwhile, however callers, workers, sweeper, timers and the shutdown interleave,
  and also when an evaluation panics: for every reply subject, the messages published on it and the
  tasks that are queued or in the hands of a goroutine are as many as the messages received that want
  an answer there. Published means handed to \<open>nc.Publish\<close>: a call of it that fails is only logged, and
  nobody tries again.\<close>

theorem serving_answers:
  assumes "serving_reach srv cfg g" and "\<And>sv r. srv sv \<Longrightarrow> sv_json_reply sv r \<noteq> None" and "x \<noteq> []"
  shows "count (mset (map fst (sg_sent g))) x + count (mset (waiting (sg_pool g))) x = count (mset (sg_asked g)) x"
proof -
  have "balanced g" by (rule reach_balanced [OF assms(1,2)])
  then show ?thesis unfolding balanced_def by (metis to_someone_count [OF assms(3)] count_union)
qed

theorem serving_answers_witness:
  "\<exists>g. serving_reach only_frame small_config g \<and> sg_asked g = [''r''] \<and> count (mset (map fst (sg_sent g))) ''r'' = 1"
proof -
  let ?g = "carry_out frame_effects ((launch small_config)\<lparr>sg_asked := [''r'']\<rparr>)"
  have "serving_step only_frame (launch small_config) ?g"
    using serving_step.reply [of "launch small_config" only_frame frame_server "[]" 0 "''r''" "[]" frame_effects]
      frame_receive frame_released by (simp add: launch_def)
  then have r: "serving_reach only_frame small_config ?g" by (rule serving_reach.onward [OF serving_reach.launched])
  have "waiting (sg_pool ?g) = []" by (simp add: waiting_def launch_def init_def New_def)
  then have "count (mset (map fst (sg_sent ?g))) ''r'' = 1"
    using serving_answers [OF r frame_encodes, of "''r''"] by simp
  then show ?thesis using r by (intro exI [of _ ?g]) simp
qed

text \<open>C9: when the process has ended, the workers and the sweeper had stopped with an empty queue. Every
  audit event that was ever added was cut off and counted as dropped, or published, or in a batch
  whose publication failed and was logged, except some that were added after the sink had been told to
  stop: what is left in its queue is a last part of the list of those (\<open>sg_late\<close>). So an event added in
  time is never left behind, whatever came later. And if no caller is left in \<open>Submit\<close>, every message
  that wanted an answer got exactly one.\<close>

theorem shutdown_complete:
  assumes "serving_reach srv cfg g" and "\<And>sv r. srv sv \<Longrightarrow> sv_json_reply sv r \<noteq> None" and "1 \<le> cf_Workers cfg"
    and "sg_main g = Exited"
  shows "waited_done (sg_pool g) \<and> pl_q (sy_pool (sg_pool g)) = [] \<and>
    (\<exists>left. suffix left (sg_late g) \<and>
      mset (ss_added (sg_sink g)) = mset (ss_cut (sg_sink g)) + mset (concat (map snd (ss_sent (sg_sink g)))) +
        mset (concat (map snd (ss_lost (sg_sink g)))) + mset left) \<and>
    sk_dropped (ss_sink (sg_sink g)) = word_of_nat (length (ss_cut (sg_sink g))) \<and>
    ((\<forall>th \<in> set (sy_threads (sg_pool g)). held th = []) \<longrightarrow> x \<noteq> [] \<longrightarrow>
      count (mset (map fst (sg_sent g))) x = count (mset (sg_asked g)) x)"
proof -
  have down: "closing_down g" by (rule reach_closing_down [OF assms(1)])
  have parts: "reachable (nat (cf_Workers cfg)) (pool_of cfg) (sg_pool g)" "sink_reachable (sg_sink g)"
    using serving_parts [OF assms(1)] by simp_all
  have w: "waited_done (sg_pool g)" and st: "ss_thread (sg_sink g) = Stopped"
    and p: "suffix (sk_pending (ss_sink (sg_sink g))) (sg_late g)"
    using down assms(4) by (auto simp: closing_down_def sink_end_def)
  have inv: "pool_inv (sy_pool (sg_pool g)) (sy_threads (sg_pool g))"
    using reachable_system_inv [OF parts(1)] assms(3) by (simp add: system_inv_def)
  have q: "pl_q (sy_pool (sg_pool g)) = []"
    using inv w unfolding pool_inv_def waited_done_def thread_inv_def by fastforce
  have sk: "sink_inv (sg_sink g)" by (rule sink_inv_reachable [OF parts(2)])
  have bal: "balanced g" by (rule reach_balanced [OF assms(1,2)])
  have "to_someone (map fst (sg_sent g)) = to_someone (sg_asked g)" if "\<forall>th \<in> set (sy_threads (sg_pool g)). held th = []"
  proof -
    have "concat (map held (sy_threads (sg_pool g))) = []" using that by simp
    then have "waiting (sg_pool g) = []" by (simp only: waiting_def q append_Nil list.map)
    then show ?thesis using bal by (simp add: balanced_def)
  qed
  then have c: "(\<forall>th \<in> set (sy_threads (sg_pool g)). held th = []) \<longrightarrow> x \<noteq> [] \<longrightarrow>
      count (mset (map fst (sg_sent g))) x = count (mset (sg_asked g)) x" by (metis to_someone_count)
  have "mset (ss_added (sg_sink g)) = mset (ss_cut (sg_sink g)) + mset (concat (map snd (ss_sent (sg_sink g)))) +
      mset (concat (map snd (ss_lost (sg_sink g)))) + mset (sk_pending (ss_sink (sg_sink g)))"
    and "sk_dropped (ss_sink (sg_sink g)) = word_of_nat (length (ss_cut (sg_sink g)))"
    using sk st by (simp_all add: sink_inv_def in_hand_def flat_sent_def flat_lost_def)
  then show ?thesis using w q c p by blast
qed

text \<open>A run with a message and its event: answered, published, and then the process ends.\<close>

theorem shutdown_complete_witness:
  "\<exists>g. serving_reach only_frame small_config g \<and> sg_main g = Exited \<and> sg_asked g = [''r''] \<and>
     count (mset (map fst (sg_sent g))) ''r'' = 1 \<and> sg_late g = [] \<and> ss_added (sg_sink g) = [sample_item] \<and>
     mset (concat (map snd (ss_sent (sg_sink g)))) = {#sample_item#}"
proof -
  let ?y = "event_sink Stopped True [] [(''waf.audit.a'', [sample_item])]"
  let ?at = "answered_at [(''r'', ''allow'')] [''r'']"
  let ?g = "?at Exited (closing 3) ?y"
  have "serving_step only_frame (?at SinkWaits (closing 3) ?y) ?g"
    using serving_step.leave [of "?at SinkWaits (closing 3) ?y"] by (simp add: answered_at_def event_sink_def)
  then have g: "serving_reach only_frame small_config ?g" by (rule serving_reach.onward [OF event_exit])
  have h: "1 \<le> cf_Workers small_config" "sg_main ?g = Exited"
    by (simp_all add: small_config_def answered_at_def)
  have quiet: "\<forall>th \<in> set (sy_threads (sg_pool ?g)). held th = []"
    by (simp add: answered_at_def closing_def)
  from shutdown_complete [OF g frame_encodes h, of "''r''"] quiet
  have "count (mset (map fst (sg_sent ?g))) ''r'' = 1" "mset (concat (map snd (ss_sent (sg_sink ?g)))) = {#sample_item#}"
    by (auto simp: answered_at_def event_sink_def)
  then show ?thesis using g h(2) by (intro exI [of _ ?g]) (simp add: answered_at_def event_sink_def)
qed

text \<open>C34: an event added while the process leaves is lost. The draining of the subscription goes on in
  the background and nothing waits for it: a message that arrives after the sink has stopped is
  answered, its event is added, neither dropped nor ever published, and the process ends.\<close>

theorem shutdown_loses:
  "\<exists>g. serving_reach only_frame small_config g \<and> sg_main g = Exited \<and> sg_asked g = [''r''] \<and>
     sg_sent g = [(''r'', ''allow'')] \<and> ss_added (sg_sink g) = [sample_item] \<and>
     ss_cut (sg_sink g) = [] \<and> ss_sent (sg_sink g) = [] \<and> ss_lost (sg_sink g) = [] \<and> (\<forall>g'. \<not> serving_step only_frame g g')"
proof -
  let ?y = "sink_init\<lparr>ss_stop := True, ss_thread := Stopped\<rparr>"
  let ?before = "answered_at [] [] SinkWaits (closing 3) ?y"
  let ?told = "carry_out frame_effects (?before\<lparr>sg_asked := [''r'']\<rparr>)"
  let ?g = "?told\<lparr>sg_main := Exited\<rparr>"
  have "serving_step only_frame ?before ?told"
    using serving_step.reply [of ?before only_frame frame_server "[]" 0 "''r''" "[]" frame_effects]
      frame_receive frame_released by (simp add: answered_at_def)
  then have r: "serving_reach only_frame small_config ?told" by (rule serving_reach.onward [OF before_exit])
  have y: "sg_sink ?told = sink_add sample_item ?y"
    by (simp add: carry_out_def answered_at_def frame_effects_def new_items_def)
  have "serving_step only_frame ?told ?g"
    by (rule serving_step.leave) (simp_all add: answered_at_def carry_out_def)
  then have "serving_reach only_frame small_config ?g" by (rule serving_reach.onward [OF r])
  moreover have "\<forall>g'. \<not> serving_step only_frame ?g g'" by (auto elim: serving_step.cases)
  ultimately show ?thesis
    using y by (intro exI [of _ ?g]) (simp add: sink_add_def sink_init_def NewSink_def cut_off_def frame_effects_def answered_at_def)
qed

end
