(* ===== verification/Told_Claims.thy ===== *)
theory Told_Claims
  imports Inspector_Claims Handler_Claims
begin

text \<open>
  From the files to the answer: what a running inspector tells a request, with the profiles its store
  serves at that moment and the lists its mirror has. The loader provides what the evaluation needs.
\<close>

section \<open>What a running inspector serves\<close>

lemma Bootstrap_current:
  assumes "Bootstrap (E\<lparr>fx_fails := f\<rparr>) d t s = Ok (b, s')" and "came_from E (so_current s)"
  shows "came_from E (so_current s')"
proof (cases "s' = s")
  case False
  then obtain live where "ReloadFrom (E\<lparr>fx_fails := f\<rparr>) live t s = Ok s'"
    using assms(1) by (auto simp: Bootstrap_def Let_def split: option.splits if_splits outcome.splits)
  then obtain ps where "LoadDir (E\<lparr>fx_fails := f\<rparr>) live t = Ok ps" "so_current s' = ps"
    by (auto simp: ReloadFrom_def obind_Ok swap_def)
  then show ?thesis by (auto simp: came_from_def)
qed (use assms in simp)

lemma lists_reach_came_from: "lists_reach E a \<Longrightarrow> ps \<in> snapshots (fst a) \<Longrightarrow> came_from E ps"
proof (induction arbitrary: ps rule: lists_reach.induct)
  case (begun f t cfg x now ip)
  from inspector_start_Ok [OF begun(1)] obtain s b s' where n: "NewStore (E\<lparr>fx_fails := f\<rparr>) (dir_of (cf_ProfilesDir cfg)) t = Ok s"
    and bo: "Bootstrap (E\<lparr>fx_fails := f\<rparr>) (data_dir cfg) t s = Ok (b, s')" and st: "ip_store ip = OnLoad s'" by blast
  have "came_from E (so_current s)"
    by (rule store_reach_snapshots [OF store_reach.created [OF n]]) (simp add: snapshots_def)
  then have "came_from E (so_current s')" by (rule Bootstrap_current [OF bo])
  moreover have "so_seen s' = []" by (rule unhooked_start [OF n bo])
  ultimately show ?case using begun(2) by (auto simp: st snapshots_def OnLoad_def)
next
  case (moved a b)
  from moved(2) show ?case
  proof (cases rule: lists_step.cases)
    case (in_store x y m listen now)
    have "ps \<in> snapshots y" using moved(4) in_store(2) by simp
    from store_step_snapshots [OF in_store(3) this] show ?thesis using moved(3) in_store(1) by auto
  next
    case (in_mirror m m' x)
    then show ?thesis using moved(3,4) by simp
  qed
qed

lemma served_conds_ok:
  assumes "lists_reach E ((s, w, r), m)" and "map_of (so_current s) name = Some p"
  shows "conds_ok (p_conditions p)"
proof -
  have "came_from E (so_current s)"
    by (rule lists_reach_came_from [OF assms(1)]) (simp add: snapshots_def)
  then show ?thesis using came_from_served assms(2) by (auto simp: served_load_def loaded_ok_def profile_ok_def)
qed

section \<open>A sample\<close>

definition deny_row :: fileAction where
  "deny_row = (archive_row [])\<lparr>fa_do := ''skip'', fa_to := ''modsec'', fa_apply := ''request'', fa_code := ''OFFICE'', fa_set := []\<rparr>"

definition told_profile :: fileProfile where
  "told_profile =
     \<lparr>fp_mode = [], fp_conditions = [row_eq ''office'' ''$remote_addr'' ''10.1.2.3''],
      fp_rules = [\<lparr>fr_name = [], fr_match = \<lparr>fm_prefix = ''/log'', fm_suffixes = [], fm_static = False, fm_methods = []\<rparr>,
        fr_on = [], fr_at = None, fr_if = ''office'', fr_unless = [], fr_actions = [deny_row]\<rparr>]\<rparr>"

definition told_env :: fs_env where
  "told_env = \<lparr>fx_lib = ascii_lib, fx_yaml = (\<lambda>_. Some told_profile), fx_fails = (\<lambda>_. False)\<rparr>"

definition told_by :: "inspector \<Rightarrow> (unit, reply \<times> details \<times> list_call list) outcome" where
  "told_by ip = inspect (wired told_env (ip_store ip) (ip_mirror ip) 0 demo_server) 0 some_request 0"

lemma told_start:
  "case inspector_start told_env demo_tree list_config all_well 0 of
     Ok ip \<Rightarrow>
       (case map_of (so_current (ip_store ip)) ''shop'' of Some p \<Rightarrow> p_mode p = ModeEnforce | None \<Rightarrow> False) \<and>
       (case told_by ip of Ok (reply, _, _) \<Rightarrow> rep_verdict reply = VerdictAllow \<and> map act_code (rep_actions reply) = [''OFFICE'']
        | _ \<Rightarrow> False)
   | _ \<Rightarrow> False"
  by code_simp

section \<open>Property\<close>

text \<open>C2: from the files to the answer. In every state a started inspector can be in, whatever was
  written to its directories and however the watch, the reloads and the mirror interleaved, a request
  that is answered allow under a served profile is told exactly what that profile means: its conditions
  have exactly one valuation over the request, the static lists and the lists the mirror has, and the
  actions are those of the rules that match and hold under it, in the order of the file, then those of
  the overload rules whose threshold the queue has reached.\<close>

theorem served_told:
  assumes "lists_reach E ((s, w, r), m)" and "map_of (so_current s) (route_profile (req_route req)) = Some p"
    and "p_mode p \<noteq> ModeOff" and "req_phase req = PhaseRequest"
    and "inspect (wired E s m now sv) ms req fill = Ok (reply, det, calls)" and "rep_verdict reply = VerdictAllow"
  shows "\<exists>\<sigma>. (\<forall>\<tau>. valuation (fx_lib E) (Some (mirror_sets m now)) (p_conditions p)
        (env_view (request_env (wired E s m now sv) req)) \<tau> = (\<tau> = \<sigma>)) \<and>
    rep_actions reply =
      concat (map r_actions (filter (rule_sem (fx_lib E) \<sigma> (http_method (req_http req)) (http_uri (req_http req))) (p_rules p))) @
      concat (map r_actions (filter (\<lambda>r. r_overload r \<and> Fires (r_at r) fill False) (p_rules p)))"
proof -
  let ?sv = "wired E s m now sv" and ?view = "env_view (request_env (wired E s m now sv) req)"
  have ok: "conds_ok (p_conditions p)" by (rule served_conds_ok [OF assms(1,2)])
  have sv: "sv_lib ?sv = fx_lib E" "sv_profiles ?sv = so_current s" "sv_sets ?sv = Some (mirror_sets m now)"
    by (simp_all add: wired_def)
  obtain \<sigma> where v: "valuation (fx_lib E) (Some (mirror_sets m now)) (p_conditions p) ?view \<sigma>"
    using valuation_exists [OF ok] by blast
  have "\<forall>\<tau>. valuation (fx_lib E) (Some (mirror_sets m now)) (p_conditions p) ?view \<tau> = (\<tau> = \<sigma>)"
    using valuation_unique [OF ok v] v by blast
  moreover from request_told [of ?sv req p \<sigma> ms fill reply det calls] assms ok v
  have "rep_actions reply =
      concat (map r_actions (filter (rule_sem (fx_lib E) \<sigma> (http_method (req_http req)) (http_uri (req_http req))) (p_rules p))) @
      concat (map r_actions (filter (\<lambda>r. r_overload r \<and> Fires (r_at r) fill False) (p_rules p)))"
    by (simp add: sv)
  ultimately show ?thesis by blast
qed

theorem served_told_witness:
  "\<exists>ip (p :: profile) reply det calls \<sigma>. inspector_start told_env demo_tree list_config all_well 0 = Ok ip \<and>
     told_by ip = Ok (reply, det, calls) \<and> map act_code (rep_actions reply) = [''OFFICE''] \<and>
     rep_actions reply =
       concat (map r_actions (filter (rule_sem ascii_lib \<sigma> ''GET'' ''/login'') (p_rules p))) @
       concat (map r_actions (filter (\<lambda>r. r_overload r \<and> Fires (r_at r) 0 False) (p_rules p)))"
proof -
  obtain ip where ip: "inspector_start told_env demo_tree list_config all_well 0 = Ok ip"
    using told_start by (cases "inspector_start told_env demo_tree list_config all_well 0") auto
  obtain p where p: "map_of (so_current (ip_store ip)) ''shop'' = Some p" and mode: "p_mode p = ModeEnforce"
    using told_start ip by (auto split: option.splits)
  obtain reply det calls where t: "told_by ip = Ok (reply, det, calls)" and al: "rep_verdict reply = VerdictAllow"
    and code: "map act_code (rep_actions reply) = [''OFFICE'']"
    using told_start ip by (auto split: outcome.splits)
  have e: "told_env\<lparr>fx_fails := \<lambda>_. False\<rparr> = told_env" by (simp add: told_env_def)
  have "inspector_start (told_env\<lparr>fx_fails := \<lambda>_. False\<rparr>) demo_tree list_config all_well 0 = Ok ip"
    unfolding e by (rule ip)
  then have reach: "lists_reach told_env ((ip_store ip, WIdle, RIdle), ip_mirror ip)" by (rule lists_reach.begun)
  have req: "route_profile (req_route some_request) = ''shop''" "req_phase some_request = PhaseRequest"
    "http_method (req_http some_request) = ''GET''" "http_uri (req_http some_request) = ''/login''"
    by (simp_all add: some_request_def)
  have "p_mode p \<noteq> ModeOff" using mode by simp
  have l: "fx_lib told_env = ascii_lib" by (simp add: told_env_def)
  note told = served_told [OF reach p [folded req(1)] \<open>p_mode p \<noteq> ModeOff\<close> req(2) t [unfolded told_by_def] al, unfolded l req(3,4)]
  then show ?thesis
  proof (elim exE conjE)
    fix \<sigma>
    assume a: "rep_actions reply =
      concat (map r_actions (filter (rule_sem ascii_lib \<sigma> ''GET'' ''/login'') (p_rules p))) @
      concat (map r_actions (filter (\<lambda>r. r_overload r \<and> Fires (r_at r) 0 False) (p_rules p)))"
    have "told_by ip = Ok (reply, det, calls) \<and> map act_code (rep_actions reply) = [''OFFICE''] \<and>
      rep_actions reply =
        concat (map r_actions (filter (rule_sem ascii_lib \<sigma> ''GET'' ''/login'') (p_rules p))) @
        concat (map r_actions (filter (\<lambda>r. r_overload r \<and> Fires (r_at r) 0 False) (p_rules p)))"
      (is ?told) by (intro conjI t code a)
    with ip have "inspector_start told_env demo_tree list_config all_well 0 = Ok ip \<and> ?told" by (rule conjI)
    then show ?thesis
      by (intro exI [of _ ip] exI [of _ p] exI [of _ reply] exI [of _ det] exI [of _ calls] exI [of _ \<sigma>])
  qed
qed

end
